(* ===== verification/Fpx_Prelude.thy ===== *)
theory Fpx_Prelude
  imports Main "HOL-Library.Word" "HOL-Library.Monad_Syntax"
begin

text \<open>
  Shared vocabulary of the floppix development: the C types of a 64-bit POSIX build
  (\<open>char\<close> is signed, pointers and \<open>size_t\<close> are 64 bits wide, \<open>int\<close> 32 bits), the return
  codes of \<open>errno.h\<close>, and byte buffers with checked reads. A definition that can run into
  undefined behaviour of C (a NULL dereference, a read or write outside an object, an
  overflowing signed addition) or into a loop that never ends has an option type, and
  \<^const>\<open>None\<close> stands for these outcomes and for nothing else.
\<close>

section \<open>Types\<close>

type_synonym byte = "8 word"
type_synonym addr = "64 word"
type_synonym size_t = "64 word"
type_synonym fpx_err_t = int

abbreviation NULL :: addr where
  "NULL \<equiv> 0"

section \<open>Return codes (errno.h)\<close>

definition FPX_OK :: fpx_err_t where "FPX_OK = 0"
definition FPX_FAILED :: fpx_err_t where "FPX_FAILED = -1"
definition FPX_BUSY :: fpx_err_t where "FPX_BUSY = -2"
definition FPX_DONE :: fpx_err_t where "FPX_DONE = -3"
definition FPX_ABORT :: fpx_err_t where "FPX_ABORT = -4"
definition FPX_DECLINED :: fpx_err_t where "FPX_DECLINED = -5"
definition FPX_NOT_FOUND :: fpx_err_t where "FPX_NOT_FOUND = -6"

definition FPX_ERROR_DOMAIN_BASE :: int where "FPX_ERROR_DOMAIN_BASE = 20000"

definition FPX_ERROR_DOMAIN :: "int \<Rightarrow> int" where
  "FPX_ERROR_DOMAIN domain = FPX_ERROR_DOMAIN_BASE + domain * 100"

definition FPX_ERR_CONFIG_SYNTAX :: fpx_err_t where
  "FPX_ERR_CONFIG_SYNTAX = FPX_ERROR_DOMAIN 1 + 1"
definition FPX_ERR_FILESYS_ABS_PATH :: fpx_err_t where
  "FPX_ERR_FILESYS_ABS_PATH = FPX_ERROR_DOMAIN 2 + 1"
definition FPX_ERR_FILESYS_LONG_PATH :: fpx_err_t where
  "FPX_ERR_FILESYS_LONG_PATH = FPX_ERROR_DOMAIN 2 + 2"
definition FPX_ERR_SSL_INIT :: fpx_err_t where
  "FPX_ERR_SSL_INIT = FPX_ERROR_DOMAIN 3 + 1"

named_theorems err_codes "the numeric values of the return codes"

lemmas [err_codes] = FPX_OK_def FPX_FAILED_def FPX_BUSY_def FPX_DONE_def FPX_ABORT_def
  FPX_DECLINED_def FPX_NOT_FOUND_def FPX_ERROR_DOMAIN_BASE_def FPX_ERROR_DOMAIN_def
  FPX_ERR_CONFIG_SYNTAX_def FPX_ERR_FILESYS_ABS_PATH_def FPX_ERR_FILESYS_LONG_PATH_def
  FPX_ERR_SSL_INIT_def

lemma err_codes_distinct [simp]:
  "FPX_OK \<noteq> FPX_FAILED" "FPX_FAILED \<noteq> FPX_OK"
  "FPX_OK \<noteq> FPX_ERR_CONFIG_SYNTAX" "FPX_ERR_CONFIG_SYNTAX \<noteq> FPX_OK"
  "FPX_OK \<noteq> FPX_DONE" "FPX_DONE \<noteq> FPX_OK" "FPX_OK \<noteq> FPX_BUSY" "FPX_BUSY \<noteq> FPX_OK"
  "FPX_OK \<noteq> FPX_ERR_FILESYS_ABS_PATH" "FPX_ERR_FILESYS_ABS_PATH \<noteq> FPX_OK"
  "FPX_FAILED \<noteq> FPX_ERR_CONFIG_SYNTAX" "FPX_ERR_CONFIG_SYNTAX \<noteq> FPX_FAILED"
  "FPX_FAILED \<noteq> FPX_DONE" "FPX_DONE \<noteq> FPX_FAILED"
  by (simp_all add: err_codes)

section \<open>Byte buffers and C strings\<close>

text \<open>
  A pointer into an object of \<open>char\<close> is modelled by the bytes from that pointer to the end
  of the object; \<open>rd b i\<close> is the read \<open>b[i]\<close>, undefined outside the object.
\<close>

definition rd :: "byte list \<Rightarrow> nat \<Rightarrow> byte option" where
  "rd b i = (if i < length b then Some (b ! i) else None)"

definition is_cstr :: "byte list \<Rightarrow> byte list \<Rightarrow> bool" where
  "is_cstr b s \<longleftrightarrow> 0 \<notin> set s \<and> length s < length b \<and> take (Suc (length s)) b = s @ [0]"

definition bytes :: "string \<Rightarrow> byte list" where
  "bytes s = map of_char s"

lemma rd_Some [simp]: "i < length b \<Longrightarrow> rd b i = Some (b ! i)"
  by (simp add: rd_def)

lemma rd_None [simp]: "length b \<le> i \<Longrightarrow> rd b i = None"
  by (simp add: rd_def)

lemma rd_0_Cons [simp]: "rd (x # xs) 0 = Some x"
  by simp

lemma rd_Suc_Cons [simp]: "rd (x # xs) (Suc i) = rd xs i"
  by (simp add: rd_def)

lemma is_cstr_append: "is_cstr b s \<longleftrightarrow> 0 \<notin> set s \<and> (\<exists>r. b = s @ 0 # r)"
proof
  assume *: "is_cstr b s"
  have "b = take (Suc (length s)) b @ drop (Suc (length s)) b" by simp
  also have "\<dots> = (s @ [0]) @ drop (Suc (length s)) b"
    using * by (simp only: is_cstr_def)
  finally show "0 \<notin> set s \<and> (\<exists>r. b = s @ 0 # r)" using * by (auto simp: is_cstr_def)
qed (auto simp: is_cstr_def)

lemma is_cstr_rd:
  assumes "is_cstr b s"
  shows "i < length s \<Longrightarrow> rd b i = Some (s ! i)" "rd b (length s) = Some 0"
  using assms by (auto simp: is_cstr_append nth_append)

lemma is_cstr_nz: "is_cstr b s \<Longrightarrow> i < length s \<Longrightarrow> s ! i \<noteq> 0"
  by (metis is_cstr_def nth_mem)

lemma is_cstr_self [simp]: "is_cstr (s @ [0]) s \<longleftrightarrow> 0 \<notin> set s"
  by (auto simp: is_cstr_def)

lemma is_cstr_unique: "is_cstr b s \<Longrightarrow> is_cstr b t \<Longrightarrow> s = t"
proof (induction s arbitrary: b t)
  case Nil
  then show ?case by (cases t) (auto simp: is_cstr_append)
next
  case (Cons x s)
  then obtain b' where b: "b = x # b'" and s: "is_cstr b' s" and x: "x \<noteq> 0"
    by (auto simp: is_cstr_append)
  with Cons.prems obtain t' where "t = x # t'" "is_cstr b' t'"
    by (cases t) (auto simp: is_cstr_append)
  with Cons.IH s show ?case by auto
qed

section \<open>Generic facts\<close>

lemma unat64_less: "unat (x :: 64 word) < 18446744073709551616"
  using unsigned_less [of x] by simp

lemma unat_plus64: "unat x + unat y < 18446744073709551616 \<Longrightarrow> unat (x + y :: 64 word) = unat x + unat y"
  by (simp add: unat_word_ariths)

lemma unat_minus64: "unat y \<le> unat x \<Longrightarrow> unat (x - y :: 64 word) = unat x - unat y"
  by (simp add: unat_sub word_le_nat_alt)

lemma bind_Some_eq: "x = Some y \<Longrightarrow> Option.bind x f = f y"
  by simp

lemma hd_append_last: "xs \<noteq> [] \<Longrightarrow> xs = butlast xs @ [last xs]"
  by simp

lemma last_Cons_rev: "last (p # xs) = hd (rev xs @ [p])"
  by (cases xs rule: rev_cases) auto

lemma split_memE:
  assumes "x \<in> set xs"
  obtains ys zs where "xs = ys @ x # zs" "x \<notin> set ys"
  using split_list_first [OF assms] by blast

end
