(* ===== verification/Fpx_List.thy ===== *)
theory Fpx_List
  imports Fpx_Prelude "HOL-Library.Multiset"
begin

text \<open>
  The intrusive doubly linked list of \<open>src/algo/list.c\<close>, at pointer level. A node is an
  address in a heap that maps addresses to their \<open>next\<close> and \<open>prev\<close> fields; the list header
  is a record. Every dereference of NULL or of an address that is no node is undefined
  (\<^const>\<open>None\<close>). The abstraction \<open>list_rep\<close> relates a heap and a header to the sequence of
  node addresses.
\<close>

section \<open>The structures and their field accesses\<close>

record list_node =
  ln_next :: addr
  ln_prev :: addr

record fpx_list_t =
  l_head :: addr
  l_tail :: addr
  l_size :: size_t

type_synonym lheap = "addr \<rightharpoonup> list_node"

definition deref :: "lheap \<Rightarrow> addr \<Rightarrow> list_node option" where
  "deref h p = (if p = NULL then None else h p)"

definition get_next :: "lheap \<Rightarrow> addr \<Rightarrow> addr option" where
  "get_next h p = map_option ln_next (deref h p)"

definition get_prev :: "lheap \<Rightarrow> addr \<Rightarrow> addr option" where
  "get_prev h p = map_option ln_prev (deref h p)"

definition set_next :: "lheap \<Rightarrow> addr \<Rightarrow> addr \<Rightarrow> lheap option" where
  "set_next h p v = map_option (\<lambda>n. h(p \<mapsto> n\<lparr>ln_next := v\<rparr>)) (deref h p)"

definition set_prev :: "lheap \<Rightarrow> addr \<Rightarrow> addr \<Rightarrow> lheap option" where
  "set_prev h p v = map_option (\<lambda>n. h(p \<mapsto> n\<lparr>ln_prev := v\<rparr>)) (deref h p)"

section \<open>The operations\<close>

definition fpx_list_init :: "fpx_list_t \<Rightarrow> fpx_list_t" where
  "fpx_list_init l = \<lparr>l_head = NULL, l_tail = NULL, l_size = 0\<rparr>"

definition fpx_list_clear :: "fpx_list_t \<Rightarrow> fpx_list_t" where
  "fpx_list_clear l = \<lparr>l_head = NULL, l_tail = NULL, l_size = 0\<rparr>"

definition fpx_list_push_front :: "lheap \<Rightarrow> fpx_list_t \<Rightarrow> addr \<Rightarrow> (lheap \<times> fpx_list_t) option" where
  "fpx_list_push_front h l node = do {
     h \<leftarrow> set_prev h node NULL;
     (h, l) \<leftarrow> (if l_head l = NULL then do {
         h \<leftarrow> set_next h node NULL;
         Some (h, l\<lparr>l_tail := node\<rparr>)
       } else do {
         h \<leftarrow> set_prev h (l_head l) node;
         h \<leftarrow> set_next h node (l_head l);
         Some (h, l)
       });
     Some (h, l\<lparr>l_head := node, l_size := l_size l + 1\<rparr>)
   }"

definition fpx_list_push_back :: "lheap \<Rightarrow> fpx_list_t \<Rightarrow> addr \<Rightarrow> (lheap \<times> fpx_list_t) option" where
  "fpx_list_push_back h l node = do {
     h \<leftarrow> set_next h node NULL;
     (h, l) \<leftarrow> (if l_tail l = NULL then do {
         h \<leftarrow> set_prev h node NULL;
         Some (h, l\<lparr>l_head := node\<rparr>)
       } else do {
         h \<leftarrow> set_next h (l_tail l) node;
         h \<leftarrow> set_prev h node (l_tail l);
         Some (h, l)
       });
     Some (h, l\<lparr>l_tail := node, l_size := l_size l + 1\<rparr>)
   }"

definition fpx_list_remove :: "lheap \<Rightarrow> fpx_list_t \<Rightarrow> addr \<Rightarrow> (lheap \<times> fpx_list_t) option" where
  "fpx_list_remove h l node = do {
     nx \<leftarrow> get_next h node;
     pv \<leftarrow> get_prev h node;
     h \<leftarrow> (if nx \<noteq> NULL then set_prev h nx pv else Some h);
     pv \<leftarrow> get_prev h node;
     nx \<leftarrow> get_next h node;
     h \<leftarrow> (if pv \<noteq> NULL then set_next h pv nx else Some h);
     nx \<leftarrow> get_next h node;
     pv \<leftarrow> get_prev h node;
     let l = (if l_head l = node then l\<lparr>l_head := nx\<rparr> else l);
     let l = (if l_tail l = node then l\<lparr>l_tail := pv\<rparr> else l);
     Some (h, l\<lparr>l_size := l_size l - 1\<rparr>)
   }"

partial_function (option) find_forward :: "lheap \<Rightarrow> (addr \<Rightarrow> bool) \<Rightarrow> addr \<Rightarrow> addr option" where
  "find_forward h compar temp =
     (if temp = NULL then Some NULL
      else if compar temp then Some temp
      else do { temp \<leftarrow> get_next h temp; find_forward h compar temp })"

partial_function (option) find_backward :: "lheap \<Rightarrow> (addr \<Rightarrow> bool) \<Rightarrow> addr \<Rightarrow> addr option" where
  "find_backward h compar temp =
     (if temp = NULL then Some NULL
      else if compar temp then Some temp
      else do { temp \<leftarrow> get_prev h temp; find_backward h compar temp })"

definition fpx_list_find :: "lheap \<Rightarrow> fpx_list_t \<Rightarrow> (addr \<Rightarrow> bool) \<Rightarrow> addr option" where
  "fpx_list_find h l compar = find_forward h compar (l_head l)"

definition fpx_list_insert_before ::
  "lheap \<Rightarrow> fpx_list_t \<Rightarrow> addr \<Rightarrow> addr \<Rightarrow> (lheap \<times> fpx_list_t) option" where
  "fpx_list_insert_before h l before_node node = do {
     pv \<leftarrow> get_prev h before_node;
     if pv = NULL then do {
       h \<leftarrow> set_prev h node NULL;
       h \<leftarrow> set_next h node before_node;
       h \<leftarrow> set_prev h before_node node;
       Some (h, l\<lparr>l_head := node\<rparr>)
     } else do {
       h \<leftarrow> set_next h node before_node;
       pv \<leftarrow> get_prev h before_node;
       h \<leftarrow> set_prev h node pv;
       pv \<leftarrow> get_prev h before_node;
       h \<leftarrow> set_next h pv node;
       h \<leftarrow> set_prev h before_node node;
       Some (h, l)
     }
   }"

definition fpx_list_insert_after ::
  "lheap \<Rightarrow> fpx_list_t \<Rightarrow> addr \<Rightarrow> addr \<Rightarrow> (lheap \<times> fpx_list_t) option" where
  "fpx_list_insert_after h l after_node node = do {
     nx \<leftarrow> get_next h after_node;
     if nx = NULL then do {
       h \<leftarrow> set_prev h node after_node;
       h \<leftarrow> set_next h node NULL;
       h \<leftarrow> set_next h after_node node;
       Some (h, l\<lparr>l_tail := node\<rparr>)
     } else do {
       h \<leftarrow> set_prev h node after_node;
       nx \<leftarrow> get_next h after_node;
       h \<leftarrow> set_next h node nx;
       nx \<leftarrow> get_next h after_node;
       h \<leftarrow> set_prev h nx node;
       h \<leftarrow> set_next h after_node node;
       Some (h, l)
     }
   }"

definition fpx_list_remove_first ::
  "lheap \<Rightarrow> fpx_list_t \<Rightarrow> (addr \<Rightarrow> bool) \<Rightarrow> (fpx_err_t \<times> lheap \<times> fpx_list_t) option" where
  "fpx_list_remove_first h l compar = do {
     temp \<leftarrow> find_forward h compar (l_head l);
     if temp = NULL then Some (FPX_FAILED, h, l)
     else do { (h, l) \<leftarrow> fpx_list_remove h l temp; Some (FPX_OK, h, l) }
   }"

definition fpx_list_remove_last ::
  "lheap \<Rightarrow> fpx_list_t \<Rightarrow> (addr \<Rightarrow> bool) \<Rightarrow> (fpx_err_t \<times> lheap \<times> fpx_list_t) option" where
  "fpx_list_remove_last h l compar = do {
     temp \<leftarrow> find_backward h compar (l_tail l);
     if temp = NULL then Some (FPX_FAILED, h, l)
     else do { (h, l) \<leftarrow> fpx_list_remove h l temp; Some (FPX_OK, h, l) }
   }"

section \<open>Merge sort\<close>

text \<open>
  The header is cleared with \<open>memset(list, 0, sizeof(fpx_list_node_t))\<close>: 16 of the 24 bytes
  of the header, that is \<open>head\<close> and \<open>tail\<close> but not \<open>size\<close>.
\<close>

partial_function (option) merge_loop ::
  "(addr \<Rightarrow> addr \<Rightarrow> int) \<Rightarrow> lheap \<Rightarrow> fpx_list_t \<Rightarrow> addr \<Rightarrow> addr
     \<Rightarrow> (lheap \<times> fpx_list_t \<times> addr \<times> addr) option" where
  "merge_loop compar h l left right =
     (if left \<noteq> NULL \<and> right \<noteq> NULL then
        if compar left right = -1 then do {
          temp \<leftarrow> get_next h left;
          hl \<leftarrow> fpx_list_push_back h l left;
          merge_loop compar (fst hl) (snd hl) temp right
        } else do {
          temp \<leftarrow> get_next h right;
          hl \<leftarrow> fpx_list_push_back h l right;
          merge_loop compar (fst hl) (snd hl) left temp
        }
      else Some (h, l, left, right))"

partial_function (option) drain_loop ::
  "lheap \<Rightarrow> fpx_list_t \<Rightarrow> addr \<Rightarrow> (lheap \<times> fpx_list_t) option" where
  "drain_loop h l node =
     (if node \<noteq> NULL then do {
        temp \<leftarrow> get_next h node;
        hl \<leftarrow> fpx_list_push_back h l node;
        drain_loop (fst hl) (snd hl) temp
      } else Some (h, l))"

definition fpx_list_mergesort_merge ::
  "(addr \<Rightarrow> addr \<Rightarrow> int) \<Rightarrow> lheap \<Rightarrow> fpx_list_t \<Rightarrow> addr \<Rightarrow> addr \<Rightarrow> (lheap \<times> fpx_list_t) option" where
  "fpx_list_mergesort_merge compar h l left right = do {
     let l = l\<lparr>l_head := NULL, l_tail := NULL\<rparr>;
     (h, l, left, right) \<leftarrow> merge_loop compar h l left right;
     (h, l) \<leftarrow> drain_loop h l left;
     drain_loop h l right
   }"

fun advance :: "lheap \<Rightarrow> nat \<Rightarrow> addr \<Rightarrow> addr option" where
  "advance h 0 node = Some node"
| "advance h (Suc k) node = do { node \<leftarrow> get_next h node; advance h k node }"

partial_function (option) fpx_list_mergesort ::
  "(addr \<Rightarrow> addr \<Rightarrow> int) \<Rightarrow> lheap \<Rightarrow> fpx_list_t \<Rightarrow> (lheap \<times> fpx_list_t) option" where
  "fpx_list_mergesort compar h l =
     (if l_size l < 2 then Some (h, l)
      else do {
        let m = l_size l div 2;
        node \<leftarrow> advance h (unat m - 1) (l_head l);
        nx \<leftarrow> get_next h node;
        let list1 = \<lparr>l_head = l_head l, l_tail = node, l_size = m\<rparr>;
        let list2 = \<lparr>l_head = nx, l_tail = l_tail l, l_size = l_size l - m\<rparr>;
        h \<leftarrow> set_next h node NULL;
        r1 \<leftarrow> fpx_list_mergesort compar h list1;
        r2 \<leftarrow> fpx_list_mergesort compar (fst r1) list2;
        fpx_list_mergesort_merge compar (fst r2) l (l_head (snd r1)) (l_head (snd r2))
      })"

section \<open>The abstraction: a header and a heap represent a sequence of nodes\<close>

fun dlseg :: "lheap \<Rightarrow> addr \<Rightarrow> addr list \<Rightarrow> addr \<Rightarrow> bool" where
  "dlseg h p [] q = True"
| "dlseg h p (x # xs) q =
     (deref h x = Some \<lparr>ln_next = hd (xs @ [q]), ln_prev = p\<rparr> \<and> dlseg h x xs q)"

definition list_links :: "lheap \<Rightarrow> fpx_list_t \<Rightarrow> addr list \<Rightarrow> bool" where
  "list_links h l xs \<longleftrightarrow> distinct xs \<and> NULL \<notin> set xs \<and> dlseg h NULL xs NULL
     \<and> l_head l = hd (xs @ [NULL]) \<and> l_tail l = last (NULL # xs)"

definition list_rep :: "lheap \<Rightarrow> fpx_list_t \<Rightarrow> addr list \<Rightarrow> bool" where
  "list_rep h l xs \<longleftrightarrow> list_links h l xs \<and> l_size l = of_nat (length xs)"

text \<open>Forward links only, the shape that merge sort consumes.\<close>

fun fchain :: "lheap \<Rightarrow> addr list \<Rightarrow> bool" where
  "fchain h [] = True"
| "fchain h (x # xs) = (get_next h x = Some (hd (xs @ [NULL])) \<and> fchain h xs)"

definition frame :: "lheap \<Rightarrow> lheap \<Rightarrow> addr set \<Rightarrow> bool" where
  "frame h h' A \<longleftrightarrow> (\<forall>q. q \<notin> A \<longrightarrow> h' q = h q) \<and> dom h' = dom h"

subsection \<open>Field accesses and updates\<close>

lemmas field_defs = get_next_def get_prev_def set_next_def set_prev_def

lemma deref_upd [simp]:
  "deref (h(p \<mapsto> n)) q = (if q = p \<and> q \<noteq> NULL then Some n else deref h q)"
  by (simp add: deref_def)

lemma deref_NULL [simp]: "deref h NULL = None"
  by (simp add: deref_def)

lemma deref_Some_iff: "deref h p = Some n \<longleftrightarrow> p \<noteq> NULL \<and> h p = Some n"
  by (simp add: deref_def)

lemma dlseg_append [simp]:
  "dlseg h p (xs @ ys) q \<longleftrightarrow> dlseg h p xs (hd (ys @ [q])) \<and> dlseg h (last (p # xs)) ys q"
proof (induction xs arbitrary: p)
  case (Cons x xs)
  then show ?case by (cases xs) auto
qed simp

lemma dlseg_upd [simp]: "a \<notin> set xs \<Longrightarrow> dlseg (h(a \<mapsto> n)) p xs q = dlseg h p xs q"
  by (induction xs arbitrary: p) auto

lemma dlseg_cong: "\<forall>x\<in>set xs. h x = h' x \<Longrightarrow> dlseg h p xs q = dlseg h' p xs q"
  by (induction xs arbitrary: p) (auto simp: deref_def)

lemma fchain_upd [simp]: "a \<notin> set xs \<Longrightarrow> fchain (h(a \<mapsto> n)) xs = fchain h xs"
  by (induction xs) (auto simp: get_next_def)

lemma fchain_cong: "\<forall>x\<in>set xs. h x = h' x \<Longrightarrow> fchain h xs = fchain h' xs"
  by (induction xs) (auto simp: get_next_def deref_def)

lemma dlseg_fchain: "dlseg h p xs NULL \<Longrightarrow> fchain h xs"
  by (induction xs arbitrary: p) (auto simp: get_next_def)

lemma dlseg_nonnull: "dlseg h p xs q \<Longrightarrow> NULL \<notin> set xs"
  by (induction xs arbitrary: p) (auto simp: deref_def split: if_splits)

lemma frame_refl [simp]: "frame h h A"
  by (simp add: frame_def)

lemma frame_trans: "frame h h1 A \<Longrightarrow> frame h1 h2 B \<Longrightarrow> A \<union> B \<subseteq> C \<Longrightarrow> frame h h2 C"
  by (fastforce simp: frame_def subset_iff)

lemma frame_upd: "a \<in> A \<Longrightarrow> h a = Some n \<Longrightarrow> frame (h(a \<mapsto> m)) h' A = frame h h' A"
  by (auto simp: frame_def)

lemma frame_fchain: "frame h h' A \<Longrightarrow> set xs \<inter> A = {} \<Longrightarrow> fchain h' xs = fchain h xs"
  by (rule fchain_cong) (auto simp: frame_def)

lemma frame_deref: "frame h h' A \<Longrightarrow> p \<notin> A \<Longrightarrow> deref h' p = deref h p"
  by (simp add: frame_def deref_def)

lemma frame_valid: "frame h h' A \<Longrightarrow> (deref h' p = None) = (deref h p = None)"
  by (auto simp: frame_def deref_def domIff)

lemma frame_is_node: "frame h h' A \<Longrightarrow> (\<lambda>q. deref h' q \<noteq> None) = (\<lambda>q. deref h q \<noteq> None)"
  by (rule ext) (simp only: frame_valid [of h h' A])

subsection \<open>Each operation on a represented list\<close>

lemma list_links_fresh_link:
  "list_links h l xs \<Longrightarrow> p \<noteq> NULL \<Longrightarrow> p \<notin> set xs \<Longrightarrow>
   list_links (h(p \<mapsto> n)) l xs"
  by (simp add: list_links_def)

lemma push_front_links:
  assumes "list_links h l xs" "deref h p = Some n" "p \<notin> set xs"
  shows "\<exists>h' l'. fpx_list_push_front h l p = Some (h', l') \<and> list_links h' l' (p # xs)
           \<and> l_size l' = l_size l + 1 \<and> frame h h' (insert p (set xs))"
  using assms
  by (cases xs)
    (auto simp: fpx_list_push_front_def list_links_def field_defs frame_def deref_def split: if_splits)

lemma push_back_links:
  assumes "list_links h l xs" "deref h p = Some n" "p \<notin> set xs"
  shows "\<exists>h' l'. fpx_list_push_back h l p = Some (h', l') \<and> list_links h' l' (xs @ [p])
           \<and> l_size l' = l_size l + 1 \<and> frame h h' (insert p (set xs))"
  using assms
  by (cases xs rule: rev_cases)
    (auto simp: fpx_list_push_back_def list_links_def field_defs frame_def deref_def split: if_splits)

lemma remove_links:
  assumes "list_links h l (ys @ p # zs)"
  shows "\<exists>h' l'. fpx_list_remove h l p = Some (h', l') \<and> list_links h' l' (ys @ zs)
           \<and> l_size l' = l_size l - 1 \<and> frame h h' (set ys \<union> set zs)"
  using assms
  by (cases ys rule: rev_cases; cases zs)
    (auto simp: fpx_list_remove_def list_links_def field_defs frame_def deref_def Let_def
       split: if_splits, (metis hd_in_set last_in_set)+)

lemma insert_before_links:
  assumes "list_links h l (ys @ b # zs)" "deref h p = Some n" "p \<notin> set (ys @ b # zs)"
  shows "\<exists>h' l'. fpx_list_insert_before h l b p = Some (h', l') \<and> list_links h' l' (ys @ p # b # zs)
           \<and> l_size l' = l_size l \<and> frame h h' (insert p (set (ys @ b # zs)))"
  using assms
  by (cases ys rule: rev_cases)
    (auto simp: fpx_list_insert_before_def list_links_def field_defs frame_def deref_def Let_def split: if_splits)

lemma insert_after_links:
  assumes "list_links h l (ys @ a # zs)" "deref h p = Some n" "p \<notin> set (ys @ a # zs)"
  shows "\<exists>h' l'. fpx_list_insert_after h l a p = Some (h', l') \<and> list_links h' l' (ys @ a # p # zs)
           \<and> l_size l' = l_size l \<and> frame h h' (insert p (set (ys @ a # zs)))"
  using assms
  by (cases zs)
    (auto simp: fpx_list_insert_after_def list_links_def field_defs frame_def deref_def Let_def split: if_splits)

subsection \<open>Searching\<close>

lemma dlseg_next: "dlseg h p (x # xs) q \<Longrightarrow> get_next h x = Some (hd (xs @ [q]))"
  by (simp add: get_next_def)

lemma find_forward_fchain:
  "fchain h xs \<Longrightarrow> NULL \<notin> set xs \<Longrightarrow>
   find_forward h compar (hd (xs @ [NULL])) = Some (case find compar xs of None \<Rightarrow> NULL | Some x \<Rightarrow> x)"
  by (induction xs) (auto simp: find_forward.simps)

lemma find_backward_dlseg:
  "dlseg h NULL xs q \<Longrightarrow> NULL \<notin> set xs \<Longrightarrow>
   find_backward h compar (last (NULL # xs))
     = Some (case find compar (rev xs) of None \<Rightarrow> NULL | Some x \<Rightarrow> x)"
proof (induction xs arbitrary: q rule: rev_induct)
  case (snoc x xs)
  then show ?case
    by (cases xs rule: rev_cases) (auto simp: find_backward.simps [of h compar x] get_prev_def)
qed (simp add: find_backward.simps)

lemma find_forward_links:
  "list_links h l xs \<Longrightarrow>
   find_forward h compar (l_head l) = Some (case find compar xs of None \<Rightarrow> NULL | Some x \<Rightarrow> x)"
  by (simp add: list_links_def find_forward_fchain dlseg_fchain [where p = NULL])

lemma find_backward_links:
  "list_links h l xs \<Longrightarrow>
   find_backward h compar (l_tail l) = Some (case find compar (rev xs) of None \<Rightarrow> NULL | Some x \<Rightarrow> x)"
  using find_backward_dlseg [of h xs NULL compar] by (simp add: list_links_def)

lemma remove_mem_links:
  assumes "list_links h l xs" "p \<in> set xs"
  shows "\<exists>h' l'. fpx_list_remove h l p = Some (h', l') \<and> list_links h' l' (remove1 p xs)
           \<and> l_size l' = l_size l - 1 \<and> frame h h' (set xs)"
proof -
  obtain ys zs where xs: "xs = ys @ p # zs" and "p \<notin> set ys"
    using assms(2) by (rule split_memE)
  then have "remove1 p xs = ys @ zs" by (simp add: remove1_append)
  moreover have "frame h h' (set ys \<union> set zs) \<Longrightarrow> frame h h' (set xs)" for h'
    by (auto simp: xs frame_def)
  ultimately show ?thesis using remove_links [of h l ys p zs] assms(1) xs by fastforce
qed

subsection \<open>Merging and sorting\<close>

fun merge_spec :: "(addr \<Rightarrow> addr \<Rightarrow> int) \<Rightarrow> addr list \<Rightarrow> addr list \<Rightarrow> addr list" where
  "merge_spec c [] ys = ys"
| "merge_spec c xs [] = xs"
| "merge_spec c (x # xs) (y # ys) =
     (if c x y = -1 then x # merge_spec c xs (y # ys) else y # merge_spec c (x # xs) ys)"

fun msort_spec :: "(addr \<Rightarrow> addr \<Rightarrow> int) \<Rightarrow> addr list \<Rightarrow> addr list" where
  "msort_spec c xs =
     (if length xs < 2 then xs
      else merge_spec c (msort_spec c (take (length xs div 2) xs))
                        (msort_spec c (drop (length xs div 2) xs)))"

declare msort_spec.simps [simp del]

lemma mset_merge_spec [simp]: "mset (merge_spec c xs ys) = mset xs + mset ys"
  by (induction c xs ys rule: merge_spec.induct) auto

lemma set_merge_spec [simp]: "set (merge_spec c xs ys) = set xs \<union> set ys"
  by (metis mset_merge_spec set_mset_mset set_mset_union)

lemma length_merge_spec [simp]: "length (merge_spec c xs ys) = length xs + length ys"
  by (metis mset_merge_spec size_mset size_union)

lemma mset_msort_spec [simp]: "mset (msort_spec c xs) = mset xs"
proof (induction c xs rule: msort_spec.induct)
  case (1 c xs)
  let ?n = "length xs div 2"
  show ?case
  proof (cases "length xs < 2")
    case False
    then have "mset (msort_spec c xs) = mset (take ?n xs) + mset (drop ?n xs)"
      using 1 by (simp add: msort_spec.simps [of c xs])
    also have "\<dots> = mset xs" by (metis append_take_drop_id mset_append)
    finally show ?thesis .
  qed (simp add: msort_spec.simps [of c xs])
qed

lemma set_msort_spec [simp]: "set (msort_spec c xs) = set xs"
  by (metis mset_msort_spec set_mset_mset)

lemma length_msort_spec [simp]: "length (msort_spec c xs) = length xs"
  by (metis mset_msort_spec size_mset)

lemma distinct_msort_spec [simp]: "distinct (msort_spec c xs) = distinct xs"
  by (metis mset_msort_spec mset_eq_imp_distinct_iff)

lemma push_back_chain:
  assumes "list_links h l acc" "fchain h (x # xs)" "x \<noteq> NULL" "distinct (acc @ x # xs)"
  obtains h' l' where "fpx_list_push_back h l x = Some (h', l')" "list_links h' l' (acc @ [x])"
    "l_size l' = l_size l + 1" "frame h h' (insert x (set acc))" "fchain h' xs"
proof -
  obtain n where "deref h x = Some n" using assms(2) by (auto simp: get_next_def)
  then obtain h' l' where *: "fpx_list_push_back h l x = Some (h', l')"
      "list_links h' l' (acc @ [x])" "l_size l' = l_size l + 1" "frame h h' (insert x (set acc))"
    using push_back_links [of h l acc x n] assms by auto
  moreover have "fchain h' xs"
    using frame_fchain [OF *(4), of xs] assms by auto
  ultimately show ?thesis using that by blast
qed

lemma drain_loop_chain:
  assumes "list_links h l acc" "fchain h xs" "NULL \<notin> set xs" "distinct (acc @ xs)"
  shows "\<exists>h' l'. drain_loop h l (hd (xs @ [NULL])) = Some (h', l') \<and> list_links h' l' (acc @ xs)
           \<and> l_size l' = l_size l + of_nat (length xs) \<and> frame h h' (set acc \<union> set xs)"
  using assms
proof (induction xs arbitrary: h l acc)
  case Nil
  then show ?case by (simp add: drain_loop.simps)
next
  case (Cons x xs)
  then have x: "x \<noteq> NULL" by auto
  obtain h1 l1 where 1: "fpx_list_push_back h l x = Some (h1, l1)" "list_links h1 l1 (acc @ [x])"
      "l_size l1 = l_size l + 1" "frame h h1 (insert x (set acc))" "fchain h1 xs"
    using push_back_chain [OF Cons.prems(1,2) x Cons.prems(4)] .
  then obtain h' l' where 2: "drain_loop h1 l1 (hd (xs @ [NULL])) = Some (h', l')"
      "list_links h' l' ((acc @ [x]) @ xs)" "l_size l' = l_size l1 + of_nat (length xs)"
      "frame h1 h' (set (acc @ [x]) \<union> set xs)"
    using Cons.IH [of h1 l1 "acc @ [x]"] Cons.prems by auto
  have "frame h h' (set acc \<union> set (x # xs))"
    by (rule frame_trans [OF 1(4) 2(4)]) auto
  moreover have "drain_loop h l x = Some (h', l')"
    using Cons.prems(2) 1(1) 2(1) x by (simp add: drain_loop.simps [of h l x])
  ultimately show ?case using 1(3) 2(2,3) by (simp add: add.assoc)
qed

definition merge_stop ::
  "(addr \<Rightarrow> addr \<Rightarrow> int) \<Rightarrow> lheap \<Rightarrow> fpx_list_t \<Rightarrow> addr list \<Rightarrow> addr list \<Rightarrow> addr list
     \<Rightarrow> lheap \<Rightarrow> fpx_list_t \<Rightarrow> addr list \<Rightarrow> addr list \<Rightarrow> addr list \<Rightarrow> bool" where
  "merge_stop c h l acc xs ys h' l' zs xs' ys' \<longleftrightarrow>
     merge_spec c xs ys = zs @ xs' @ ys' \<and> list_links h' l' (acc @ zs) \<and> fchain h' xs' \<and> fchain h' ys'
     \<and> (xs' = [] \<or> ys' = []) \<and> l_size l' = l_size l + of_nat (length zs)
     \<and> frame h h' (set acc \<union> set xs \<union> set ys)"

lemma merge_stop_step:
  assumes "merge_stop c h1 l1 (acc @ [z]) xs ys h' l' zs xs' ys'"
    and "l_size l1 = l_size l + 1" "frame h h1 (insert z (set acc))"
    and "merge_spec c us vs = z # merge_spec c xs ys" "set us \<union> set vs = insert z (set xs \<union> set ys)"
  shows "merge_stop c h l acc us vs h' l' (z # zs) xs' ys'"
proof -
  have "frame h1 h' (set (acc @ [z]) \<union> set xs \<union> set ys)"
    using assms(1) by (simp add: merge_stop_def)
  then have "frame h h' (set acc \<union> set us \<union> set vs)"
    by (rule frame_trans [OF assms(3)]) (simp add: Un_assoc assms(5))
  moreover have "merge_spec c us vs = (z # zs) @ xs' @ ys'" "list_links h' l' (acc @ z # zs)"
    "fchain h' xs'" "fchain h' ys'" "xs' = [] \<or> ys' = []"
    using assms(1,4) by (simp_all add: merge_stop_def)
  moreover have "l_size l' = l_size l + of_nat (length (z # zs))"
    using assms(1,2) by (simp add: merge_stop_def)
  ultimately show ?thesis unfolding merge_stop_def by blast
qed

lemma merge_loop_chain:
  assumes "list_links h l acc" "fchain h xs" "fchain h ys" "NULL \<notin> set xs \<union> set ys"
    "distinct (acc @ xs @ ys)"
  shows "\<exists>h' l' zs xs' ys'.
    merge_loop c h l (hd (xs @ [NULL])) (hd (ys @ [NULL])) = Some (h', l', hd (xs' @ [NULL]), hd (ys' @ [NULL]))
    \<and> merge_stop c h l acc xs ys h' l' zs xs' ys'"
  using assms
proof (induction c xs ys arbitrary: h l acc rule: merge_spec.induct)
  case (1 c ys)
  then show ?case
    by (intro exI [of _ h] exI [of _ l] exI [of _ "[]"] exI [of _ ys])
      (simp add: merge_loop.simps merge_stop_def)
next
  case (2 c x xs)
  then show ?case
    by (intro exI [of _ h] exI [of _ l] exI [of _ "[]"] exI [of _ "x # xs"])
      (simp add: merge_loop.simps merge_stop_def)
next
  case (3 c x xs y ys)
  then have nz: "x \<noteq> NULL" "y \<noteq> NULL" by auto
  have d: "distinct (acc @ x # xs)" "distinct (acc @ y # ys)" using "3.prems"(5) by auto
  show ?case
  proof (cases "c x y = -1")
    case True
    obtain h1 l1 where 1: "fpx_list_push_back h l x = Some (h1, l1)" "list_links h1 l1 (acc @ [x])"
        "l_size l1 = l_size l + 1" "frame h h1 (insert x (set acc))" "fchain h1 xs"
      using push_back_chain [OF "3.prems"(1,2) nz(1) d(1)] .
    have "fchain h1 (y # ys)"
      using frame_fchain [OF 1(4), of "y # ys"] "3.prems" by auto
    then obtain h' l' zs xs' ys' where
      2: "merge_loop c h1 l1 (hd (xs @ [NULL])) y = Some (h', l', hd (xs' @ [NULL]), hd (ys' @ [NULL]))"
        "merge_stop c h1 l1 (acc @ [x]) xs (y # ys) h' l' zs xs' ys'"
      using "3.IH"(1) [OF True 1(2,5)] "3.prems" by fastforce
    have "merge_loop c h l x y = Some (h', l', hd (xs' @ [NULL]), hd (ys' @ [NULL]))"
      using "3.prems"(2) 1(1) 2(1) nz True by (simp add: merge_loop.simps [of c h l x])
    moreover have "merge_stop c h l acc (x # xs) (y # ys) h' l' (x # zs) xs' ys'"
      using True by (intro merge_stop_step [OF 2(2) 1(3,4)]) auto
    ultimately show ?thesis by auto
  next
    case False
    obtain h1 l1 where 1: "fpx_list_push_back h l y = Some (h1, l1)" "list_links h1 l1 (acc @ [y])"
        "l_size l1 = l_size l + 1" "frame h h1 (insert y (set acc))" "fchain h1 ys"
      using push_back_chain [OF "3.prems"(1,3) nz(2) d(2)] .
    have "fchain h1 (x # xs)"
      using frame_fchain [OF 1(4), of "x # xs"] "3.prems" by auto
    then obtain h' l' zs xs' ys' where
      2: "merge_loop c h1 l1 x (hd (ys @ [NULL])) = Some (h', l', hd (xs' @ [NULL]), hd (ys' @ [NULL]))"
        "merge_stop c h1 l1 (acc @ [y]) (x # xs) ys h' l' zs xs' ys'"
      using "3.IH"(2) [OF False 1(2) _ 1(5)] "3.prems" by fastforce
    have "merge_loop c h l x y = Some (h', l', hd (xs' @ [NULL]), hd (ys' @ [NULL]))"
      using "3.prems"(3) 1(1) 2(1) nz False by (simp add: merge_loop.simps [of c h l x])
    moreover have "merge_stop c h l acc (x # xs) (y # ys) h' l' (y # zs) xs' ys'"
      using False by (intro merge_stop_step [OF 2(2) 1(3,4)]) auto
    ultimately show ?thesis by auto
  qed
qed

lemma mergesort_merge_links:
  assumes "fchain h xs" "fchain h ys" "NULL \<notin> set xs \<union> set ys" "distinct (xs @ ys)"
  shows "\<exists>h' l'. fpx_list_mergesort_merge c h l (hd (xs @ [NULL])) (hd (ys @ [NULL])) = Some (h', l')
           \<and> list_links h' l' (merge_spec c xs ys)
           \<and> l_size l' = l_size l + of_nat (length xs + length ys) \<and> frame h h' (set xs \<union> set ys)"
proof -
  let ?l = "l\<lparr>l_head := NULL, l_tail := NULL\<rparr>"
  have l: "list_links h ?l []" by (simp add: list_links_def)
  obtain h1 l1 zs xs' ys' where
    1: "merge_loop c h ?l (hd (xs @ [NULL])) (hd (ys @ [NULL]))
          = Some (h1, l1, hd (xs' @ [NULL]), hd (ys' @ [NULL]))"
      "merge_stop c h ?l [] xs ys h1 l1 zs xs' ys'"
    using merge_loop_chain [OF l assms(1-3), of c] assms(4) by auto
  have stop: "merge_spec c xs ys = zs @ xs' @ ys'" "list_links h1 l1 zs" "fchain h1 xs'" "fchain h1 ys'"
      "xs' = [] \<or> ys' = []" "l_size l1 = l_size l + of_nat (length zs)"
      "frame h h1 (set xs \<union> set ys)"
    using 1(2) by (auto simp: merge_stop_def)
  have sets: "set zs \<union> set xs' \<union> set ys' = set xs \<union> set ys"
    using arg_cong [OF stop(1), of set] by auto
  have d: "distinct (zs @ xs' @ ys')"
    using assms(4) stop(1) by (metis mset_append mset_eq_imp_distinct_iff mset_merge_spec)
  have len: "length xs + length ys = length zs + length xs' + length ys'"
    using arg_cong [OF stop(1), of length] by simp
  have "distinct (zs @ xs')" "NULL \<notin> set xs'" using d sets assms(3) by auto
  then obtain h2 l2 where 2: "drain_loop h1 l1 (hd (xs' @ [NULL])) = Some (h2, l2)"
      "list_links h2 l2 (zs @ xs')" "l_size l2 = l_size l1 + of_nat (length xs')"
      "frame h1 h2 (set zs \<union> set xs')"
    using drain_loop_chain [OF stop(2,3)] by auto
  have "fchain h2 ys'" using frame_fchain [OF 2(4), of ys'] stop(4) d by auto
  moreover have "distinct ((zs @ xs') @ ys')" "NULL \<notin> set ys'" using d sets assms(3) by auto
  ultimately obtain h3 l3 where 3: "drain_loop h2 l2 (hd (ys' @ [NULL])) = Some (h3, l3)"
      "list_links h3 l3 ((zs @ xs') @ ys')" "l_size l3 = l_size l2 + of_nat (length ys')"
      "frame h2 h3 (set (zs @ xs') \<union> set ys')"
    using drain_loop_chain [OF 2(2), of ys'] by auto
  have "frame h h2 (set xs \<union> set ys)"
    using sets by (intro frame_trans [OF stop(7) 2(4)]) auto
  then have "frame h h3 (set xs \<union> set ys)"
    using sets by (intro frame_trans [OF _ 3(4)]) auto
  moreover have "fpx_list_mergesort_merge c h l (hd (xs @ [NULL])) (hd (ys @ [NULL])) = Some (h3, l3)"
    using 1(1) 2(1) 3(1) by (simp add: fpx_list_mergesort_merge_def)
  moreover have "l_size l3 = l_size l + of_nat (length xs + length ys)"
    unfolding len using 3(3) 2(3) stop(6) by (simp add: algebra_simps)
  ultimately show ?thesis using 3(2) stop(1) by simp
qed

lemma advance_chain:
  "fchain h xs \<Longrightarrow> k < length xs \<Longrightarrow> advance h k (hd (xs @ [NULL])) = Some (xs ! k)"
proof (induction k arbitrary: xs)
  case 0
  then show ?case by (cases xs) auto
next
  case (Suc k)
  then obtain x ys where xs: "xs = x # ys" by (cases xs) auto
  with Suc.prems Suc.IH [of ys] show ?case by auto
qed

lemma fchain_append_next:
  "fchain h (xs @ ys) \<Longrightarrow> xs \<noteq> [] \<Longrightarrow> get_next h (last xs) = Some (hd (ys @ [NULL]))"
proof (induction xs)
  case (Cons x xs)
  then show ?case by (cases xs) auto
qed simp

lemma fchain_append_right: "fchain h (xs @ ys) \<Longrightarrow> fchain h ys"
  by (induction xs) auto

lemma fchain_cut:
  assumes "fchain h (xs @ ys)" "xs \<noteq> []" "distinct xs" "h (last xs) = Some n" "last xs \<noteq> NULL"
  shows "fchain (h(last xs \<mapsto> n\<lparr>ln_next := NULL\<rparr>)) xs"
  using assms
proof (induction xs)
  case (Cons x xs)
  then show ?case by (cases "xs = []") (auto simp: get_next_def deref_def)
qed simp

definition sort_post ::
  "(addr \<Rightarrow> addr \<Rightarrow> int) \<Rightarrow> lheap \<Rightarrow> fpx_list_t \<Rightarrow> addr list \<Rightarrow> lheap \<Rightarrow> fpx_list_t \<Rightarrow> bool" where
  "sort_post c h l xs h' l' \<longleftrightarrow>
     l_head l' = hd (msort_spec c xs @ [NULL]) \<and> fchain h' (msort_spec c xs) \<and> frame h h' (set xs)
     \<and> (if length xs < 2 then h' = h \<and> l' = l
        else list_links h' l' (msort_spec c xs) \<and> l_size l' = l_size l + of_nat (length xs))"

lemma mergesort_halves:
  assumes "fchain h xs" "NULL \<notin> set xs" "distinct xs" "2 \<le> length xs"
    and m: "m = length xs div 2"
  obtains h1 where "advance h (m - 1) (hd (xs @ [NULL])) = Some (xs ! (m - 1))"
    "get_next h (xs ! (m - 1)) = Some (hd (drop m xs @ [NULL]))"
    "set_next h (xs ! (m - 1)) NULL = Some h1" "fchain h1 (take m xs)" "fchain h1 (drop m xs)"
    "frame h h1 (set (take m xs))"
proof -
  let ?x = "xs ! (m - 1)"
  have m0: "0 < m" "m < length xs" using assms(4) m by auto
  have ne: "take m xs \<noteq> []" using m0 by auto
  then have last: "last (take m xs) = ?x" using m0 by (simp add: last_conv_nth)
  have x: "?x \<in> set (take m xs)" using last ne last_in_set by metis
  have chain: "fchain h (take m xs @ drop m xs)" using assms(1) by simp
  have nx: "get_next h ?x = Some (hd (drop m xs @ [NULL]))"
    using fchain_append_next [OF chain ne] last by simp
  then obtain n where n: "deref h ?x = Some n" by (auto simp: get_next_def)
  let ?h = "h(?x \<mapsto> n\<lparr>ln_next := NULL\<rparr>)"
  have dd: "set (take m xs) \<inter> set (drop m xs) = {}"
    using assms(3) by (rule set_take_disj_set_drop_if_distinct) simp
  have "fchain ?h (take m xs)"
    using fchain_cut [OF chain ne] assms(3) n last by (simp add: deref_Some_iff)
  moreover have "fchain ?h (drop m xs)"
    using fchain_append_right [OF chain] x dd by (auto simp: disjoint_iff)
  moreover have "frame h ?h (set (take m xs))"
    using x n by (auto simp: frame_def deref_Some_iff)
  moreover have "set_next h ?x NULL = Some ?h" using n by (simp add: set_next_def)
  moreover have "advance h (m - 1) (hd (xs @ [NULL])) = Some ?x"
    using advance_chain [OF assms(1)] m0 by simp
  ultimately show ?thesis using that nx by blast
qed

lemma mergesort_chain:
  assumes "fchain h xs" "NULL \<notin> set xs" "distinct xs" "l_size l = of_nat (length xs)"
    "length xs < 2 ^ 64" "l_head l = hd (xs @ [NULL])"
  shows "\<exists>h' l'. fpx_list_mergesort c h l = Some (h', l') \<and> sort_post c h l xs h' l'"
  using assms
proof (induction c xs arbitrary: h l rule: msort_spec.induct)
  case (1 c xs)
  have u: "unat (l_size l) = length xs" using "1.prems"(4,5) by (simp add: unat_of_nat)
  show ?case
  proof (cases "length xs < 2")
    case True
    moreover have "l_size l < 2" using True u by (simp add: word_less_nat_alt)
    ultimately show ?thesis using "1.prems"
      by (simp add: fpx_list_mergesort.simps [of c h l] sort_post_def msort_spec.simps [of c xs])
  next
    case False
    define m where "m = length xs div 2"
    let ?xs1 = "take m xs" and ?xs2 = "drop m xs"
    obtain h1 where h1: "advance h (m - 1) (l_head l) = Some (xs ! (m - 1))"
        "get_next h (xs ! (m - 1)) = Some (hd (?xs2 @ [NULL]))"
        "set_next h (xs ! (m - 1)) NULL = Some h1" "fchain h1 ?xs1" "fchain h1 ?xs2"
        "frame h h1 (set ?xs1)"
      using mergesort_halves [OF "1.prems"(1-3) _ m_def] False "1.prems"(6) by auto
    let ?l1 = "\<lparr>l_head = l_head l, l_tail = xs ! (m - 1), l_size = l_size l div 2\<rparr>"
    let ?l2 = "\<lparr>l_head = hd (?xs2 @ [NULL]), l_tail = l_tail l, l_size = l_size l - l_size l div 2\<rparr>"
    have um: "unat (l_size l div 2) = m" using u by (simp add: unat_div m_def)
    have mle: "m \<le> length xs" "0 < m" using False by (auto simp: m_def)
    have s1: "l_size ?l1 = of_nat (length ?xs1)"
      using mle by (simp add: min.absorb2 um [symmetric])
    have s2: "l_size ?l2 = of_nat (length ?xs2)"
      using "1.prems"(4) s1 mle by (simp add: of_nat_diff)
    have dd: "set ?xs1 \<inter> set ?xs2 = {}"
      using "1.prems"(3) by (rule set_take_disj_set_drop_if_distinct) simp
    have nz: "NULL \<notin> set ?xs1" "NULL \<notin> set ?xs2"
      using "1.prems"(2) by (auto dest: in_set_takeD in_set_dropD)
    have hd1: "l_head ?l1 = hd (?xs1 @ [NULL])"
      using "1.prems"(6) False mle by (cases xs) (auto simp: take_Cons split: nat.splits)
    obtain h2 l2 where 2: "fpx_list_mergesort c h1 ?l1 = Some (h2, l2)" "sort_post c h1 ?l1 ?xs1 h2 l2"
      using "1.IH"(1) [of h1 ?l1] False h1(4) nz(1) "1.prems"(3,5) s1 hd1 mle
      unfolding m_def [symmetric] by fastforce
    have "fchain h2 ?xs2"
      using 2(2) h1(5) dd by (subst frame_fchain [of h1 h2 "set ?xs1"]) (auto simp: sort_post_def)
    then obtain h3 l3 where 3: "fpx_list_mergesort c h2 ?l2 = Some (h3, l3)" "sort_post c h2 ?l2 ?xs2 h3 l3"
      using "1.IH"(2) [of h2 ?l2] False nz(2) "1.prems"(3,5) s2
      unfolding m_def [symmetric] by fastforce
    have c1: "fchain h3 (msort_spec c ?xs1)"
      using 2(2) 3(2) dd by (subst frame_fchain [of h2 h3 "set ?xs2"]) (auto simp: sort_post_def)
    have "distinct (msort_spec c ?xs1 @ msort_spec c ?xs2)" using "1.prems"(3) dd by simp
    then obtain h4 l4 where 4: "fpx_list_mergesort_merge c h3 l (l_head l2) (l_head l3) = Some (h4, l4)"
        "list_links h4 l4 (merge_spec c (msort_spec c ?xs1) (msort_spec c ?xs2))"
        "l_size l4 = l_size l + of_nat (length xs)" "frame h3 h4 (set xs)"
      using mergesort_merge_links [OF c1, of "msort_spec c ?xs2" c l] 2(2) 3(2) nz mle "1.prems"(2)
      by (auto simp: sort_post_def set_take_disj_set_drop_if_distinct simp flip: set_append)
    have sp: "merge_spec c (msort_spec c ?xs1) (msort_spec c ?xs2) = msort_spec c xs"
      using False by (simp add: msort_spec.simps [of c xs] m_def)
    have "frame h h4 (set xs)"
    proof -
      have f: "frame h1 h2 (set ?xs1)" "frame h2 h3 (set ?xs2)"
        using 2(2) 3(2) by (simp_all add: sort_post_def)
      have "frame h h2 (set xs)"
        by (rule frame_trans [OF h1(6) f(1)]) (auto dest: in_set_takeD)
      then have "frame h h3 (set xs)"
        by (rule frame_trans [OF _ f(2)]) (auto dest: in_set_dropD)
      then show ?thesis by (rule frame_trans [OF _ 4(4)]) simp
    qed
    moreover have "fpx_list_mergesort c h l = Some (h4, l4)"
      using False u h1(1-3) 2(1) 3(1) 4(1) um
      by (simp add: fpx_list_mergesort.simps [of c h l] word_less_nat_alt Let_def)
    moreover have "fchain h4 (msort_spec c xs)" "l_head l4 = hd (msort_spec c xs @ [NULL])"
      using 4(2) dlseg_fchain by (auto simp: list_links_def sp)
    ultimately show ?thesis using 4(2,3) sp False by (simp add: sort_post_def)
  qed
qed

subsection \<open>Order of the sorted list\<close>

text \<open>
  \<open>cmp_order c\<close>: the callback returns \<open>-1\<close> exactly for a strict weak order, the contract
  under which \<open>fpx_list_mergesort\<close> sorts.
\<close>

definition cmp_order :: "(addr \<Rightarrow> addr \<Rightarrow> int) \<Rightarrow> bool" where
  "cmp_order c \<longleftrightarrow> (\<forall>x y. c x y = -1 \<longrightarrow> c y x \<noteq> -1)
     \<and> (\<forall>x y z. c y x \<noteq> -1 \<longrightarrow> c z y \<noteq> -1 \<longrightarrow> c z x \<noteq> -1)"

abbreviation cmp_sorted :: "(addr \<Rightarrow> addr \<Rightarrow> int) \<Rightarrow> addr list \<Rightarrow> bool" where
  "cmp_sorted c \<equiv> sorted_wrt (\<lambda>x y. c y x \<noteq> -1)"

lemma cmp_sorted_merge_spec:
  assumes "cmp_order c" "cmp_sorted c xs" "cmp_sorted c ys"
  shows "cmp_sorted c (merge_spec c xs ys)"
  using assms
proof (induction c xs ys rule: merge_spec.induct)
  case (3 c x xs y ys)
  have tr: "\<And>u v w. c v u \<noteq> -1 \<Longrightarrow> c w v \<noteq> -1 \<Longrightarrow> c w u \<noteq> -1"
    and as: "\<And>u v. c u v = -1 \<Longrightarrow> c v u \<noteq> -1"
    using "3.prems"(1) unfolding cmp_order_def by blast+
  show ?case
  proof (cases "c x y = -1")
    case True
    then have "c w x \<noteq> -1" if "w \<in> insert y (set ys)" for w
      using that as [OF True] tr [of y x w] "3.prems"(3) by auto
    with True 3 show ?thesis by auto
  next
    case False
    then have "c w y \<noteq> -1" if "w \<in> insert x (set xs)" for w
      using that tr [of x y w] "3.prems"(2) by auto
    with False 3 show ?thesis by auto
  qed
qed auto

lemma cmp_sorted_msort_spec: "cmp_order c \<Longrightarrow> cmp_sorted c (msort_spec c xs)"
proof (induction c xs rule: msort_spec.induct)
  case (1 c xs)
  show ?case
  proof (cases "length xs < 2")
    case True
    then have "msort_spec c xs = xs" by (simp add: msort_spec.simps [of c xs])
    with True show ?thesis by (cases xs) auto
  next
    case False
    with 1 show ?thesis by (simp add: msort_spec.simps [of c xs] cmp_sorted_merge_spec)
  qed
qed

section \<open>The list interface\<close>

text \<open>
  What the clients of \<open>list.c\<close> (the configuration, the module table, the listeners, the
  logger's sinks) rely on: pushing at the back appends, removing a member deletes exactly
  it, and nodes outside the list keep their links.
\<close>

locale node_list =
  fixes rep :: "'h \<Rightarrow> 'l \<Rightarrow> 'n list \<Rightarrow> bool"
    and is_node :: "'h \<Rightarrow> 'n \<Rightarrow> bool"
    and push_back :: "'h \<Rightarrow> 'l \<Rightarrow> 'n \<Rightarrow> ('h \<times> 'l) option"
    and remove :: "'h \<Rightarrow> 'l \<Rightarrow> 'n \<Rightarrow> ('h \<times> 'l) option"
  assumes push_back_rep: "rep h l xs \<Longrightarrow> is_node h p \<Longrightarrow> p \<notin> set xs \<Longrightarrow>
      \<exists>h' l'. push_back h l p = Some (h', l') \<and> rep h' l' (xs @ [p]) \<and> is_node h' = is_node h"
    and remove_rep: "rep h l xs \<Longrightarrow> p \<in> set xs \<Longrightarrow>
      \<exists>h' l'. remove h l p = Some (h', l') \<and> rep h' l' (remove1 p xs) \<and> is_node h' = is_node h"
begin

fun push_all :: "'h \<Rightarrow> 'l \<Rightarrow> 'n list \<Rightarrow> ('h \<times> 'l) option" where
  "push_all h l [] = Some (h, l)"
| "push_all h l (p # ps) = do { (h, l) \<leftarrow> push_back h l p; push_all h l ps }"

fun remove_all :: "'h \<Rightarrow> 'l \<Rightarrow> 'n list \<Rightarrow> ('h \<times> 'l) option" where
  "remove_all h l [] = Some (h, l)"
| "remove_all h l (p # ps) = do { (h, l) \<leftarrow> remove h l p; remove_all h l ps }"

lemma push_all_rep:
  "rep h l xs \<Longrightarrow> (\<forall>p\<in>set ps. is_node h p) \<Longrightarrow> distinct (xs @ ps) \<Longrightarrow>
   \<exists>h' l'. push_all h l ps = Some (h', l') \<and> rep h' l' (xs @ ps) \<and> is_node h' = is_node h"
proof (induction ps arbitrary: h l xs)
  case (Cons p ps)
  then obtain h1 l1 where "push_back h l p = Some (h1, l1)" "rep h1 l1 (xs @ [p])" "is_node h1 = is_node h"
    using push_back_rep [of h l xs p] by auto
  with Cons.IH [of h1 l1 "xs @ [p]"] Cons.prems show ?case by auto
qed simp

lemma remove_all_rep:
  "rep h l xs \<Longrightarrow> distinct xs \<Longrightarrow> distinct ps \<Longrightarrow> set ps \<subseteq> set xs \<Longrightarrow>
   \<exists>h' l'. remove_all h l ps = Some (h', l') \<and> rep h' l' (filter (\<lambda>x. x \<notin> set ps) xs)"
proof (induction ps arbitrary: h l xs)
  case (Cons p ps)
  then obtain h1 l1 where 1: "remove h l p = Some (h1, l1)" "rep h1 l1 (remove1 p xs)"
    using remove_rep [of h l xs p] by auto
  have "set ps \<subseteq> set (remove1 p xs)" using Cons.prems by auto
  with Cons.IH [OF 1(2)] Cons.prems obtain h2 l2 where
    2: "remove_all h1 l1 ps = Some (h2, l2)" "rep h2 l2 (filter (\<lambda>x. x \<notin> set ps) (remove1 p xs))" by auto
  have "filter (\<lambda>x. x \<notin> set ps) (remove1 p xs) = filter (\<lambda>x. x \<notin> set (p # ps)) xs"
    using Cons.prems(2) by (auto simp: distinct_remove1_removeAll removeAll_filter_not_eq intro: filter_cong)
  with 1 2 show ?case by auto
qed simp

end

lemma push_back_rep_is_node:
  assumes "list_rep h l xs" "deref h p \<noteq> None" "p \<notin> set xs"
  shows "\<exists>h' l'. fpx_list_push_back h l p = Some (h', l') \<and> list_rep h' l' (xs @ [p])
           \<and> (\<lambda>q. deref h' q \<noteq> None) = (\<lambda>q. deref h q \<noteq> None)"
proof -
  obtain n where "deref h p = Some n" using assms(2) by auto
  with push_back_links [of h l xs p n] assms obtain h' l' where
    *: "fpx_list_push_back h l p = Some (h', l')" "list_links h' l' (xs @ [p])"
    "l_size l' = l_size l + 1" "frame h h' (insert p (set xs))" by (auto simp: list_rep_def)
  then have "list_rep h' l' (xs @ [p])" using assms(1) by (simp add: list_rep_def)
  with *(1) frame_is_node [OF *(4)] show ?thesis by blast
qed

lemma remove_rep_is_node:
  assumes "list_rep h l xs" "p \<in> set xs"
  shows "\<exists>h' l'. fpx_list_remove h l p = Some (h', l') \<and> list_rep h' l' (remove1 p xs)
           \<and> (\<lambda>q. deref h' q \<noteq> None) = (\<lambda>q. deref h q \<noteq> None)"
proof -
  obtain h' l' where *: "fpx_list_remove h l p = Some (h', l')" "list_links h' l' (remove1 p xs)"
    "l_size l' = l_size l - 1" "frame h h' (set xs)"
    using remove_mem_links [of h l xs p] assms by (auto simp: list_rep_def)
  have "length xs = Suc (length (remove1 p xs))"
    using assms(2) by (simp add: length_remove1) (metis Suc_pred length_pos_if_in_set)
  with * assms(1) have "list_rep h' l' (remove1 p xs)" by (simp add: list_rep_def)
  with *(1) frame_is_node [OF *(4)] show ?thesis by blast
qed

interpretation dll: node_list list_rep "\<lambda>h p. deref h p \<noteq> None" fpx_list_push_back fpx_list_remove
  by unfold_locales (blast intro: push_back_rep_is_node remove_rep_is_node)+

lemma find_SomeD: "find P xs = Some x \<Longrightarrow> x \<in> set xs \<and> P x"
  by (metis find_Some_iff nth_mem)

lemma find_found_nonnull:
  "list_links h l xs \<Longrightarrow> find P xs = Some p \<Longrightarrow> p \<noteq> NULL \<and> p \<in> set xs"
  by (metis find_SomeD list_links_def)

lemma remove_first_rep:
  assumes "list_rep h l xs"
  shows "case find compar xs of
           None \<Rightarrow> fpx_list_remove_first h l compar = Some (FPX_FAILED, h, l)
         | Some p \<Rightarrow> \<exists>h' l'. fpx_list_remove_first h l compar = Some (FPX_OK, h', l')
                       \<and> list_rep h' l' (remove1 p xs)"
proof -
  have l: "list_links h l xs" using assms by (simp add: list_rep_def)
  show ?thesis
  proof (cases "find compar xs")
    case None
    then show ?thesis
      using find_forward_links [OF l, of compar] by (simp add: fpx_list_remove_first_def)
  next
    case (Some p)
    with find_found_nonnull [OF l Some] dll.remove_rep [OF assms, of p] show ?thesis
      using find_forward_links [OF l, of compar] by (auto simp: fpx_list_remove_first_def)
  qed
qed

lemma remove_last_rep:
  assumes "list_rep h l xs"
  shows "case find compar (rev xs) of
           None \<Rightarrow> fpx_list_remove_last h l compar = Some (FPX_FAILED, h, l)
         | Some p \<Rightarrow> \<exists>h' l'. fpx_list_remove_last h l compar = Some (FPX_OK, h', l')
                       \<and> list_rep h' l' (remove1 p xs)"
proof -
  have l: "list_links h l xs" using assms by (simp add: list_rep_def)
  show ?thesis
  proof (cases "find compar (rev xs)")
    case None
    then show ?thesis
      using find_backward_links [OF l, of compar] by (simp add: fpx_list_remove_last_def)
  next
    case (Some p)
    then have "p \<in> set xs" using find_SomeD by fastforce
    moreover from this have "p \<noteq> NULL" using l by (auto simp: list_links_def)
    ultimately show ?thesis
      using find_backward_links [OF l, of compar] Some dll.remove_rep [OF assms, of p]
      by (auto simp: fpx_list_remove_last_def)
  qed
qed

section \<open>Properties\<close>

text \<open>A two-element list at addresses 8 and 16, and an unlinked node at 24.\<close>

definition ex_heap :: lheap where
  "ex_heap = [8 \<mapsto> \<lparr>ln_next = 16, ln_prev = 0\<rparr>, 16 \<mapsto> \<lparr>ln_next = 0, ln_prev = 8\<rparr>,
              24 \<mapsto> \<lparr>ln_next = 5, ln_prev = 5\<rparr>]"

definition ex_list :: fpx_list_t where
  "ex_list = \<lparr>l_head = 8, l_tail = 16, l_size = 2\<rparr>"

lemma ex_rep: "list_rep ex_heap ex_list [8, 16]"
  by (simp add: list_rep_def list_links_def ex_heap_def ex_list_def deref_def)

lemma ex_node: "deref ex_heap 24 \<noteq> None"
  by (simp add: ex_heap_def deref_def)

text \<open>
  C11 (fpx_list_push_refines). Pushing a node that is not in the list at the front or at the
  back never dereferences NULL, links it as first or last element, counts it in \<open>size\<close>,
  and leaves every node outside the list alone.
\<close>

theorem fpx_list_push_refines:
  assumes "list_rep h l xs" "deref h p \<noteq> None" "p \<notin> set xs"
  shows "(\<exists>h' l'. fpx_list_push_front h l p = Some (h', l') \<and> list_rep h' l' (p # xs)
            \<and> frame h h' (insert p (set xs)))
       \<and> (\<exists>h' l'. fpx_list_push_back h l p = Some (h', l') \<and> list_rep h' l' (xs @ [p])
            \<and> frame h h' (insert p (set xs)))"
proof -
  obtain n where n: "deref h p = Some n" using assms(2) by auto
  have l: "list_links h l xs" and sz: "l_size l = of_nat (length xs)"
    using assms(1) by (auto simp: list_rep_def)
  from push_front_links [OF l n assms(3)] push_back_links [OF l n assms(3)] sz
  show ?thesis by (fastforce simp: list_rep_def add.commute)
qed

theorem fpx_list_push_refines_witness:
  "\<exists>h' l'. fpx_list_push_back ex_heap ex_list 24 = Some (h', l') \<and> list_rep h' l' [8, 16, 24]"
  using fpx_list_push_refines [OF ex_rep ex_node] by auto

text \<open>
  C12 (fpx_list_remove_refines). Removing a member unlinks exactly that node: the remaining
  nodes are linked in their old order and \<open>size\<close> goes down by one. \<open>fpx_list_remove_first\<close>
  and \<open>fpx_list_remove_last\<close> remove the first and the last node the callback accepts, and
  fail without any change when it accepts none.
\<close>

theorem fpx_list_remove_refines:
  assumes "list_rep h l xs" "p \<in> set xs"
  shows "(\<exists>h' l'. fpx_list_remove h l p = Some (h', l') \<and> list_rep h' l' (remove1 p xs))
     \<and> (case find compar xs of
           None \<Rightarrow> fpx_list_remove_first h l compar = Some (FPX_FAILED, h, l)
         | Some q \<Rightarrow> \<exists>h' l'. fpx_list_remove_first h l compar = Some (FPX_OK, h', l')
                       \<and> list_rep h' l' (remove1 q xs))
     \<and> (case find compar (rev xs) of
           None \<Rightarrow> fpx_list_remove_last h l compar = Some (FPX_FAILED, h, l)
         | Some q \<Rightarrow> \<exists>h' l'. fpx_list_remove_last h l compar = Some (FPX_OK, h', l')
                       \<and> list_rep h' l' (remove1 q xs))"
  using dll.remove_rep [OF assms] remove_first_rep [OF assms(1)] remove_last_rep [OF assms(1)]
  by blast

theorem fpx_list_remove_refines_witness:
  "(\<exists>h' l'. fpx_list_remove ex_heap ex_list 8 = Some (h', l') \<and> list_rep h' l' [16])
   \<and> (\<exists>h' l'. fpx_list_remove_last ex_heap ex_list (\<lambda>p. p < 20) = Some (FPX_OK, h', l')
        \<and> list_rep h' l' [8])"
  using fpx_list_remove_refines [OF ex_rep, of 8 "\<lambda>p. p < 20"] by simp

text \<open>
  \<open>fpx_list_insert_before\<close> and \<open>fpx_list_insert_after\<close> link the
  new node at the requested place in both directions, but neither of them counts it: the
  header keeps the size of the old list.
\<close>

theorem fpx_list_insert_splices:
  assumes "list_rep h l (ys @ a # zs)" "deref h p \<noteq> None" "p \<notin> set (ys @ a # zs)"
  shows "(\<exists>h' l'. fpx_list_insert_before h l a p = Some (h', l') \<and> list_links h' l' (ys @ p # a # zs)
            \<and> l_size l' = of_nat (length (ys @ a # zs)))
       \<and> (\<exists>h' l'. fpx_list_insert_after h l a p = Some (h', l') \<and> list_links h' l' (ys @ a # p # zs)
            \<and> l_size l' = of_nat (length (ys @ a # zs)))"
proof -
  obtain n where n: "deref h p = Some n" using assms(2) by auto
  have l: "list_links h l (ys @ a # zs)" and sz: "l_size l = of_nat (length (ys @ a # zs))"
    using assms(1) by (auto simp: list_rep_def)
  from insert_before_links [OF l n assms(3)] insert_after_links [OF l n assms(3)]
  show ?thesis unfolding sz [symmetric] by blast
qed

theorem fpx_list_insert_splices_witness:
  "\<exists>h' l'. fpx_list_insert_before ex_heap ex_list 16 24 = Some (h', l')
     \<and> list_links h' l' [8, 24, 16] \<and> l_size l' = 2"
proof -
  have "list_rep ex_heap ex_list ([8] @ 16 # [])" using ex_rep by simp
  from fpx_list_insert_splices [OF this ex_node] show ?thesis by simp
qed

text \<open>
  C18 (fpx_list_mergesort_sorts). For a comparison callback that answers \<open>-1\<close> exactly on a
  strict weak order, \<open>fpx_list_mergesort\<close> terminates without dereferencing NULL on every
  well-formed list of at least two nodes, and leaves a doubly linked list of the same nodes
  in sorted order. The \<open>size\<close> field of the result is twice the number of nodes, because the
  merge step clears only \<open>head\<close> and \<open>tail\<close> before it pushes every node again.
\<close>

theorem fpx_list_mergesort_sorts:
  assumes "list_rep h l xs" "cmp_order c" "2 \<le> length xs" "length xs < 2 ^ 64"
  shows "\<exists>h' l' ys. fpx_list_mergesort c h l = Some (h', l') \<and> list_links h' l' ys
           \<and> mset ys = mset xs \<and> sorted_wrt (\<lambda>x y. c y x \<noteq> -1) ys
           \<and> frame h h' (set xs) \<and> l_size l' = 2 * of_nat (length xs)"
proof -
  have l: "list_links h l xs" and sz: "l_size l = of_nat (length xs)"
    using assms(1) by (auto simp: list_rep_def)
  have "fchain h xs" "NULL \<notin> set xs" "distinct xs" "l_head l = hd (xs @ [NULL])"
    using l dlseg_fchain by (auto simp: list_links_def)
  from mergesort_chain [OF this(1-3) sz assms(4) this(4), of c] obtain h' l' where
    "fpx_list_mergesort c h l = Some (h', l')" "sort_post c h l xs h' l'" by blast
  then show ?thesis
    using assms(3) sz cmp_sorted_msort_spec [OF assms(2)]
    by (intro exI [of _ h'] exI [of _ l'] exI [of _ "msort_spec c xs"]) (simp add: sort_post_def)
qed

definition ex_cmp :: "addr \<Rightarrow> addr \<Rightarrow> int" where
  "ex_cmp x y = (if y < x then -1 else if x = y then 0 else 1)"

theorem fpx_list_mergesort_sorts_witness:
  "\<exists>h' l' ys. fpx_list_mergesort ex_cmp ex_heap ex_list = Some (h', l') \<and> list_links h' l' ys
     \<and> mset ys = mset [8, 16] \<and> sorted_wrt (\<lambda>x y. ex_cmp y x \<noteq> -1) ys \<and> l_size l' = 4"
proof -
  have "cmp_order ex_cmp" by (auto simp: cmp_order_def ex_cmp_def)
  from fpx_list_mergesort_sorts [OF ex_rep this] show ?thesis by fastforce
qed

end
