(* ===== verification/Fpx_Array.thy ===== *)
theory Fpx_Array
  imports Fpx_Prelude
begin

text \<open>
  The dynamic array of \<open>src/algo/array.c\<close>. Its elements are bytes of one block; the block is the
  list of its bytes, and an access outside of it is undefined. The two allocations from the
  pool are taken to succeed, as the code does not test them.
\<close>

record array =
  a_data :: "byte list option"
  a_size :: size_t
  a_n_total :: size_t
  a_n_current :: size_t

definition fpx_array_init :: "size_t \<Rightarrow> size_t \<Rightarrow> array" where
  "fpx_array_init sz n =
     \<lparr>a_data = Some (replicate (unat (sz * n)) 0), a_size = sz, a_n_total = n, a_n_current = 0\<rparr>"

text \<open>\<open>fpx_memmove(mem + off, data, n)\<close> inside a block.\<close>

definition memmove :: "byte list \<Rightarrow> nat \<Rightarrow> byte list \<Rightarrow> nat \<Rightarrow> byte list option" where
  "memmove mem off data n =
     (if off + n \<le> length mem \<and> n \<le> length data then Some (take off mem @ take n data @ drop (off + n) mem) else None)"

definition fpx_array_push :: "array \<Rightarrow> byte list \<Rightarrow> (fpx_err_t \<times> array) option" where
  "fpx_array_push array data =
     (if a_n_current array \<ge> a_n_total array then Some (FPX_FAILED, array)
      else do {
        mem \<leftarrow> a_data array;
        mem \<leftarrow> memmove mem (unat (a_n_current array * a_size array)) data (unat (a_size array));
        Some (FPX_OK, array\<lparr>a_data := Some mem, a_size := a_size array + 1\<rparr>)
      })"

definition fpx_array_clear :: "array \<Rightarrow> array" where
  "fpx_array_clear array = array\<lparr>a_n_current := 0, a_data := None\<rparr>"

section \<open>What pushing does\<close>

fun push_all :: "array \<Rightarrow> byte list list \<Rightarrow> (fpx_err_t \<times> array) option" where
  "push_all array [] = Some (FPX_OK, array)"
| "push_all array (x # xs) = do {
     (err, array) \<leftarrow> fpx_array_push array x;
     if err \<noteq> FPX_OK then Some (err, array) else push_all array xs
   }"

lemma push_first:
  assumes "a_n_current a < a_n_total a" "a_n_current a = 0" "a_data a = Some mem"
  shows "fpx_array_push a x =
    (if unat (a_size a) \<le> length mem \<and> unat (a_size a) \<le> length x
     then Some (FPX_OK, a\<lparr>a_data := Some (take (unat (a_size a)) x @ drop (unat (a_size a)) mem), a_size := a_size a + 1\<rparr>)
     else None)"
  using assms by (auto simp: fpx_array_push_def memmove_def)

text \<open>
  Pushing increments the size of an element instead of the number
  of elements: the second element is written over the first, and one byte too many is
  read from it, which is undefined when it is just as long as an element should be.
\<close>

theorem fpx_array_push_overwrites:
  assumes "0 < sz" "1 < n" "unat sz * unat n < 2 ^ 64" "length x = unat sz" "length y = unat sz"
  shows "push_all (fpx_array_init sz n) [x, y] = None \<and>
    (\<exists>mem. push_all (fpx_array_init sz n) [x, y @ [b]] =
       Some (FPX_OK, \<lparr>a_data = Some (y @ b # mem), a_size = sz + 2, a_n_total = n, a_n_current = 0\<rparr>))"
proof -
  let ?a = "fpx_array_init sz n"
  have z: "unat (sz * n) = unat sz * unat n" using assms(3) by (simp add: unat_word_ariths)
  have n: "0 < n" "2 \<le> unat n" using assms(2) by (simp_all add: word_less_nat_alt)
  have "0 < unat sz" using assms(1) by (simp add: word_less_nat_alt)
  then have l: "Suc (unat sz) \<le> unat sz * unat n" using mult_le_mono2 [OF n(2), of "unat sz"] by linarith
  then have s: "unat (sz + 1) = Suc (unat sz)" using assms(3) by (simp add: unat_word_ariths)
  define mem :: "byte list" where "mem = replicate (unat sz * unat n - unat sz) 0"
  define a1 where "a1 = \<lparr>a_data = Some (x @ mem), a_size = sz + 1, a_n_total = n, a_n_current = 0\<rparr>"
  have f: "a_data ?a = Some (replicate (unat sz * unat n) 0)" "a_size ?a = sz" "a_n_total ?a = n" "a_n_current ?a = 0"
    by (simp_all add: fpx_array_init_def z)
  have "fpx_array_push ?a x = Some (FPX_OK, ?a\<lparr>a_data := Some (x @ mem), a_size := sz + 1\<rparr>)"
    using push_first [OF _ f(4,1), of x] f n l assms(4) by (simp add: mem_def)
  then have 1: "fpx_array_push ?a x = Some (FPX_OK, a1)" by (simp add: a1_def fpx_array_init_def)
  have g: "a_data a1 = Some (x @ mem)" "a_size a1 = sz + 1" "a_n_total a1 = n" "a_n_current a1 = 0" by (simp_all add: a1_def)
  have "length (x @ mem) = unat sz * unat n" using l assms(4) by (simp add: mem_def)
  then have 2: "fpx_array_push a1 w = (if Suc (unat sz) \<le> length w
      then Some (FPX_OK, a1\<lparr>a_data := Some (take (Suc (unat sz)) w @ drop (Suc (unat sz)) (x @ mem)), a_size := sz + 1 + 1\<rparr>) else None)" for w
    using push_first [OF _ g(4,1), of w] g n(1) l s by (simp del: drop_append)
  show ?thesis using 1 2 [of y] 2 [of "y @ [b]"] assms(5) by (simp add: a1_def del: drop_append)
qed

theorem fpx_array_push_overwrites_witness:
  "push_all (fpx_array_init 2 3) [[1, 2], [3, 4]] = None"
proof -
  have "0 < (2 :: size_t)" "1 < (3 :: size_t)" "unat (2 :: size_t) * unat (3 :: size_t) < 2 ^ 64"
    "length [1 :: byte, 2] = unat (2 :: size_t)" "length [3 :: byte, 4] = unat (2 :: size_t)" by simp_all
  from fpx_array_push_overwrites [OF this] show ?thesis by simp
qed

end
