(* ===== verification/Fpx_Pool.thy ===== *)
theory Fpx_Pool
  imports Fpx_Prelude
begin

unbundle bit_operations_syntax

text \<open>
  The memory pools of \<open>src/system/pool.c\<close> and the allocation wrappers of
  \<open>src/system/memory.c\<close>, as built with the thread-safety option (the default) on a 64-bit
  POSIX system and without mmap. The world record holds the blocks obtained from the system
  allocator, the pool structures by address, the depth of each recursive mutex and the trace
  of the cleanup handlers that ran. The system allocator is a function of the live blocks,
  with its documented behaviour as the hypothesis \<open>malloc_ok\<close>. Sizes are 64-bit words and
  wrap around as \<open>size_t\<close> does. Using a pool structure whose block was freed, freeing a
  block twice and indexing past \<open>nodes[]\<close> are undefined (\<^const>\<open>None\<close>).
\<close>

section \<open>Structures\<close>

type_synonym handler = addr
type_synonym thread = nat

record memnode =
  mn_addr :: addr
  mn_begin :: addr
  mn_first_avail :: addr
  mn_size :: size_t
  mn_size_avail :: size_t
  mn_dealloc_size :: size_t

record cleanup_node =
  cn_addr :: addr
  cn_data :: addr
  cn_handler :: handler

record fpx_pool =
  p_nodes :: "memnode list list"
  p_parent :: addr
  p_brother :: addr
  p_child :: addr
  p_cleanups :: "cleanup_node list"
  p_free_cleanups :: "cleanup_node list"
  p_mutex :: addr
  p_owner :: thread

record world =
  w_page :: size_t
  w_malloc :: "(addr \<times> size_t) list \<Rightarrow> size_t \<Rightarrow> addr"
  w_live :: "(addr \<times> size_t) list"
  w_counter :: "64 word"
  w_pools :: "addr \<rightharpoonup> fpx_pool"
  w_locks :: "addr \<Rightarrow> nat"
  w_thread :: thread
  w_errno :: fpx_err_t
  w_mutex_init :: fpx_err_t
  w_calls :: "(handler \<times> addr) list"
  w_bytes :: "addr \<Rightarrow> byte"

definition FPX_ALIGN_SIZE :: size_t where "FPX_ALIGN_SIZE = 8"
definition FPX_MIN_ALLOC :: size_t where "FPX_MIN_ALLOC = push_bit 1 FPX_ALIGN_SIZE"
definition FPX_MAX_POOL_SLOT :: nat where "FPX_MAX_POOL_SLOT = 20"

text \<open>\<open>sizeof\<close> of the structures on a 64-bit Linux system.\<close>

definition sizeof_memnode :: size_t where "sizeof_memnode = 48"
definition sizeof_pool :: size_t where "sizeof_pool = 216"
definition sizeof_mutex :: size_t where "sizeof_mutex = 40"
definition sizeof_cleanup_node :: size_t where "sizeof_cleanup_node = 24"

text \<open>The address of \<open>fpx_free\<close>, the handler registered for large allocations.\<close>

definition fpx_free_handler :: handler where "fpx_free_handler = 1"

section \<open>Alignment and page counts\<close>

definition fpx_align :: "size_t \<Rightarrow> size_t \<Rightarrow> size_t" where
  "fpx_align p b = (p + (b - 1)) AND NOT (b - 1)"

definition fpx_align_default :: "size_t \<Rightarrow> size_t" where
  "fpx_align_default p = fpx_align p FPX_ALIGN_SIZE"

definition fpx_align_allocation :: "size_t \<Rightarrow> size_t" where
  "fpx_align_allocation sz =
     (let align_size = fpx_align_default sz in
      if align_size < sz then 0
      else if align_size < FPX_MIN_ALLOC then FPX_MIN_ALLOC
      else align_size)"

definition fpx_get_npages :: "size_t \<Rightarrow> size_t \<Rightarrow> size_t" where
  "fpx_get_npages page sz =
     (let total_size = sz + fpx_align_default sizeof_memnode in
      if total_size < page then 1 else total_size div page + 1)"

section \<open>System allocator (memory.c) and mutexes\<close>

definition fpx_malloc1 :: "world \<Rightarrow> size_t \<Rightarrow> world \<times> addr" where
  "fpx_malloc1 w sz =
     (let mem = w_malloc w (w_live w) sz in
      if mem = NULL then (w, NULL)
      else (w\<lparr>w_live := (mem, sz) # w_live w, w_counter := w_counter w + sz\<rparr>, mem))"

definition fill_bytes :: "(addr \<Rightarrow> byte) \<Rightarrow> addr \<Rightarrow> nat \<Rightarrow> byte \<Rightarrow> addr \<Rightarrow> byte" where
  "fill_bytes m p n b q = (if unat (q - p) < n then b else m q)"

definition fpx_calloc1 :: "world \<Rightarrow> size_t \<Rightarrow> world \<times> addr" where
  "fpx_calloc1 w sz =
     (let (w, mem) = fpx_malloc1 w sz in
      if mem = NULL then (w, mem)
      else (w\<lparr>w_bytes := fill_bytes (w_bytes w) mem (unat sz) 0\<rparr>, mem))"

definition in_block :: "addr \<Rightarrow> size_t \<Rightarrow> addr \<Rightarrow> bool" where
  "in_block a sz p \<longleftrightarrow> unat a \<le> unat p \<and> unat p < unat a + unat sz"

definition fpx_free :: "world \<Rightarrow> addr \<Rightarrow> world option" where
  "fpx_free w mem =
     (if mem = NULL then Some w
      else case map_of (w_live w) mem of
        None \<Rightarrow> None
      | Some sz \<Rightarrow> Some (w\<lparr>w_live := filter (\<lambda>(a, _). a \<noteq> mem) (w_live w),
          w_pools := (\<lambda>p. if in_block mem sz p then None else w_pools w p)\<rparr>))"

definition fpx_get_memory_counter :: "world \<Rightarrow> size_t" where
  "fpx_get_memory_counter w = w_counter w"

text \<open>
  A recursive mutex used by one thread: locking always succeeds and nests, unlocking a
  mutex that is not held fails and changes nothing.
\<close>

definition mutex_lock :: "world \<Rightarrow> addr \<Rightarrow> world" where
  "mutex_lock w m = w\<lparr>w_locks := (w_locks w)(m := Suc (w_locks w m))\<rparr>"

definition mutex_unlock :: "world \<Rightarrow> addr \<Rightarrow> world" where
  "mutex_unlock w m = w\<lparr>w_locks := (w_locks w)(m := w_locks w m - 1)\<rparr>"

definition set_pool :: "world \<Rightarrow> addr \<Rightarrow> fpx_pool \<Rightarrow> world" where
  "set_pool w p pool = w\<lparr>w_pools := (w_pools w)(p \<mapsto> pool)\<rparr>"

section \<open>Memory nodes\<close>

definition fpx_memnode_allocate :: "world \<Rightarrow> size_t \<Rightarrow> world \<times> memnode option" where
  "fpx_memnode_allocate w sz =
     (let (w, mem) = fpx_malloc1 w sz in
      if mem = NULL then (w, None)
      else (w, Some \<lparr>mn_addr = mem,
                     mn_begin = mem + fpx_align_default sizeof_memnode,
                     mn_first_avail = mem + fpx_align_default sizeof_memnode,
                     mn_size = sz - fpx_align_default sizeof_memnode,
                     mn_size_avail = sz - fpx_align_default sizeof_memnode,
                     mn_dealloc_size = sz\<rparr>))"

definition fpx_memnode_deallocate :: "world \<Rightarrow> memnode \<Rightarrow> world option" where
  "fpx_memnode_deallocate w node = fpx_free w (mn_addr node)"

section \<open>Creating pools\<close>

definition fpx_pool_add_child :: "world \<Rightarrow> addr \<Rightarrow> addr \<Rightarrow> world option" where
  "fpx_pool_add_child w parent new_child = do {
     c \<leftarrow> w_pools w new_child;
     let w = set_pool w new_child (c\<lparr>p_parent := parent\<rparr>);
     p \<leftarrow> w_pools w parent;
     if p_child p \<noteq> NULL then do {
       let temp = p_child p;
       let w = set_pool w parent (p\<lparr>p_child := new_child\<rparr>);
       c \<leftarrow> w_pools w new_child;
       Some (set_pool w new_child (c\<lparr>p_brother := temp\<rparr>))
     } else do {
       let w = set_pool w parent (p\<lparr>p_child := new_child\<rparr>);
       c \<leftarrow> w_pools w new_child;
       Some (set_pool w new_child (c\<lparr>p_brother := NULL\<rparr>))
     }
   }"

definition fpx_pool_create :: "world \<Rightarrow> size_t \<Rightarrow> addr \<Rightarrow> (fpx_err_t \<times> addr \<times> world) option" where
  "fpx_pool_create w sz parent =
     (let align_size = fpx_align_allocation sz in
      if align_size = 0 then Some (FPX_FAILED, NULL, w)
      else
        let align_size = align_size + fpx_align_default sizeof_pool;
            npages = fpx_get_npages (w_page w) align_size;
            index = npages - 1 in
        if index > of_nat FPX_MAX_POOL_SLOT then Some (FPX_FAILED, NULL, w)
        else case fpx_memnode_allocate w (npages * w_page w) of
          (w, None) \<Rightarrow> Some (w_errno w, NULL, w)
        | (w, Some node) \<Rightarrow> do {
            let new_pool = mn_begin node;
            let node = node\<lparr>mn_begin := mn_begin node + fpx_align_default sizeof_pool,
                            mn_size := mn_size node - fpx_align_default sizeof_pool\<rparr>;
            (err, mutex, node) \<leftarrow>
              (if parent \<noteq> NULL then do { pp \<leftarrow> w_pools w parent; Some (FPX_OK, p_mutex pp, node) }
               else Some (w_mutex_init w, mn_begin node,
                 node\<lparr>mn_begin := mn_begin node + fpx_align_default sizeof_mutex,
                      mn_size := mn_size node - fpx_align_default sizeof_mutex\<rparr>));
            if err \<noteq> FPX_OK then do { w \<leftarrow> fpx_memnode_deallocate w node; Some (err, NULL, w) }
            else if unat index \<ge> FPX_MAX_POOL_SLOT then None
            else do {
              let node = node\<lparr>mn_first_avail := mn_begin node, mn_size_avail := mn_size node\<rparr>;
              let pool = \<lparr>p_nodes = (replicate FPX_MAX_POOL_SLOT [])[unat index := [node]],
                          p_parent = NULL, p_brother = NULL, p_child = NULL,
                          p_cleanups = [], p_free_cleanups = [],
                          p_mutex = mutex, p_owner = w_thread w\<rparr>;
              let w = set_pool w new_pool pool;
              w \<leftarrow> (if parent \<noteq> NULL then fpx_pool_add_child w parent new_pool else Some w);
              Some (FPX_OK, new_pool, w)
            }
          })"

section \<open>Allocation\<close>

fun alloc_chain :: "size_t \<Rightarrow> memnode list \<Rightarrow> (addr \<times> memnode list) option" where
  "alloc_chain align_size [] = None"
| "alloc_chain align_size (node # rest) =
     (if mn_size_avail node \<ge> align_size then
        Some (mn_first_avail node,
              node\<lparr>mn_size_avail := mn_size_avail node - align_size,
                   mn_first_avail := mn_first_avail node + align_size\<rparr> # rest)
      else map_option (\<lambda>(mem, rest). (mem, node # rest)) (alloc_chain align_size rest))"

fun alloc_slots :: "size_t \<Rightarrow> memnode list list \<Rightarrow> (addr \<times> memnode list list) option" where
  "alloc_slots align_size [] = None"
| "alloc_slots align_size (chain # slots) =
     (case alloc_chain align_size chain of
        Some (mem, chain) \<Rightarrow> Some (mem, chain # slots)
      | None \<Rightarrow> map_option (\<lambda>(mem, slots). (mem, chain # slots)) (alloc_slots align_size slots))"

text \<open>The path of \<open>fpx_palloc1\<close> that serves a request from the pool's own nodes.\<close>

definition palloc_nodes :: "world \<Rightarrow> addr \<Rightarrow> size_t \<Rightarrow> (world \<times> addr) option" where
  "palloc_nodes w p align_size = do {
     pool \<leftarrow> w_pools w p;
     let npages = fpx_get_npages (w_page w) align_size;
     let index = npages - 1;
     let w = mutex_lock w (p_mutex pool);
     case alloc_slots align_size (drop (unat index) (p_nodes pool)) of
       Some (mem, slots) \<Rightarrow>
         Some (mutex_unlock (set_pool w p (pool\<lparr>p_nodes := take (unat index) (p_nodes pool) @ slots\<rparr>))
                 (p_mutex pool), mem)
     | None \<Rightarrow>
         (case fpx_memnode_allocate w (npages * w_page w) of
            (w, None) \<Rightarrow> Some (mutex_unlock w (p_mutex pool), NULL)
          | (w, Some node) \<Rightarrow>
              if unat index \<ge> FPX_MAX_POOL_SLOT then None
              else
                let mem = mn_first_avail node;
                    node = node\<lparr>mn_size_avail := mn_size_avail node - align_size,
                                mn_first_avail := mn_first_avail node + align_size\<rparr>;
                    nodes = (p_nodes pool)[unat index := node # p_nodes pool ! unat index]
                in Some (mutex_unlock (set_pool w p (pool\<lparr>p_nodes := nodes\<rparr>)) (p_mutex pool), mem))
   }"

text \<open>
  \<open>fpx_pool_cleanup_add1\<close> asks for the 24 bytes of a cleanup node, a request that the pool's
  nodes serve (lemma \<open>cleanup_node_request\<close>); a failed allocation is not checked, and the
  stores through NULL are undefined.
\<close>

definition fpx_pool_cleanup_add1 :: "world \<Rightarrow> addr \<Rightarrow> addr \<Rightarrow> handler \<Rightarrow> world option" where
  "fpx_pool_cleanup_add1 w p data handler = do {
     pool \<leftarrow> w_pools w p;
     let w = mutex_lock w (p_mutex pool);
     (w, node_addr) \<leftarrow> (case p_free_cleanups pool of
         n # rest \<Rightarrow> Some (set_pool w p (pool\<lparr>p_free_cleanups := rest\<rparr>), cn_addr n)
       | [] \<Rightarrow> palloc_nodes w p (fpx_align_allocation sizeof_cleanup_node));
     if node_addr = NULL then None
     else do {
       pool \<leftarrow> w_pools w p;
       let node = \<lparr>cn_addr = node_addr, cn_data = data, cn_handler = handler\<rparr>;
       let w = set_pool w p (pool\<lparr>p_cleanups := node # p_cleanups pool\<rparr>);
       Some (mutex_unlock w (p_mutex pool))
     }
   }"

definition fpx_palloc1 :: "world \<Rightarrow> addr \<Rightarrow> size_t \<Rightarrow> (world \<times> addr) option" where
  "fpx_palloc1 w p sz = do {
     pool \<leftarrow> w_pools w p;
     let align_size = fpx_align_allocation sz;
     if align_size = 0 then Some (mutex_unlock w (p_mutex pool), NULL)
     else if fpx_get_npages (w_page w) align_size - 1 > of_nat FPX_MAX_POOL_SLOT then do {
       let (w, mem) = fpx_malloc1 w align_size;
       w \<leftarrow> (if mem \<noteq> NULL then fpx_pool_cleanup_add1 w p mem fpx_free_handler else Some w);
       Some (mutex_unlock w (p_mutex pool), mem)
     }
     else palloc_nodes w p align_size
   }"

definition fpx_pcalloc1 :: "world \<Rightarrow> addr \<Rightarrow> size_t \<Rightarrow> (world \<times> addr) option" where
  "fpx_pcalloc1 w p sz = do {
     (w, mem) \<leftarrow> fpx_palloc1 w p sz;
     Some (if mem \<noteq> NULL then (w\<lparr>w_bytes := fill_bytes (w_bytes w) mem (unat sz) 0\<rparr>, mem)
           else (w, mem))
   }"

section \<open>Cleanup handlers\<close>

text \<open>
  The effect of a handler on its own data belongs to the client that registered it; the model
  records the call. The exception is \<open>fpx_free\<close>, which gives a block back.
\<close>

definition call_handler :: "world \<Rightarrow> handler \<Rightarrow> addr \<Rightarrow> world option" where
  "call_handler w handler data =
     (let w = w\<lparr>w_calls := w_calls w @ [(handler, data)]\<rparr> in
      if handler = fpx_free_handler then fpx_free w data else Some w)"

definition is_cleanup :: "addr \<Rightarrow> handler \<Rightarrow> cleanup_node \<Rightarrow> bool" where
  "is_cleanup data handler node \<longleftrightarrow> cn_data node = data \<and> cn_handler node = handler"

fun unlink_cleanup :: "addr \<Rightarrow> handler \<Rightarrow> cleanup_node list \<Rightarrow>
    (cleanup_node \<times> cleanup_node list) option" where
  "unlink_cleanup data handler [] = None"
| "unlink_cleanup data handler (node # rest) =
     (if is_cleanup data handler node then Some (node, rest)
      else map_option (\<lambda>(found, rest). (found, node # rest)) (unlink_cleanup data handler rest))"

text \<open>
  Both lookups return with the mutex held when nothing was found.
\<close>

definition fpx_pool_cleanup_run1 :: "world \<Rightarrow> addr \<Rightarrow> addr \<Rightarrow> handler \<Rightarrow> world option" where
  "fpx_pool_cleanup_run1 w p data handler = do {
     pool \<leftarrow> w_pools w p;
     let w = mutex_lock w (p_mutex pool);
     case unlink_cleanup data handler (p_cleanups pool) of
       None \<Rightarrow> Some w
     | Some (node, rest) \<Rightarrow> do {
         w \<leftarrow> call_handler w (cn_handler node) (cn_data node);
         pool \<leftarrow> w_pools w p;
         let w = set_pool w p (pool\<lparr>p_cleanups := rest,
                                    p_free_cleanups := node # p_free_cleanups pool\<rparr>);
         Some (mutex_unlock w (p_mutex pool))
       }
   }"

definition fpx_pool_cleanup_remove1 :: "world \<Rightarrow> addr \<Rightarrow> addr \<Rightarrow> handler \<Rightarrow> world option" where
  "fpx_pool_cleanup_remove1 w p data handler = do {
     pool \<leftarrow> w_pools w p;
     let w = mutex_lock w (p_mutex pool);
     case unlink_cleanup data handler (p_cleanups pool) of
       None \<Rightarrow> Some w
     | Some (node, rest) \<Rightarrow> do {
         let w = set_pool w p (pool\<lparr>p_cleanups := rest,
                                    p_free_cleanups := node # p_free_cleanups pool\<rparr>);
         Some (mutex_unlock w (p_mutex pool))
       }
   }"

text \<open>The loop of \<open>fpx_pool_cleanup_run_all\<close>, which walks the list it found at its start.\<close>

fun run_cleanups :: "world \<Rightarrow> addr \<Rightarrow> cleanup_node list \<Rightarrow> world option" where
  "run_cleanups w p [] = Some w"
| "run_cleanups w p (node # rest) = do {
     w \<leftarrow> call_handler w (cn_handler node) (cn_data node);
     pool \<leftarrow> w_pools w p;
     run_cleanups (set_pool w p (pool\<lparr>p_free_cleanups := node # p_free_cleanups pool\<rparr>)) p rest
   }"

definition fpx_pool_cleanup_run_all :: "world \<Rightarrow> addr \<Rightarrow> world option" where
  "fpx_pool_cleanup_run_all w p = do {
     pool \<leftarrow> w_pools w p;
     w \<leftarrow> run_cleanups w p (p_cleanups pool);
     pool \<leftarrow> w_pools w p;
     Some (set_pool w p (pool\<lparr>p_cleanups := []\<rparr>))
   }"

section \<open>Sizes\<close>

definition fpx_pool_get_size :: "fpx_pool \<Rightarrow> size_t" where
  "fpx_pool_get_size pool =
     fold (fold (\<lambda>node sz. sz + mn_size node)) (p_nodes pool) 0"

definition fpx_pool_get_free_size :: "fpx_pool \<Rightarrow> size_t" where
  "fpx_pool_get_free_size pool =
     fold (fold (\<lambda>node sz. sz + mn_size_avail node)) (p_nodes pool) 0"

definition fpx_pool_get_total_size :: "size_t \<Rightarrow> fpx_pool \<Rightarrow> size_t" where
  "fpx_pool_get_total_size page pool =
     fold (\<lambda>(i, chain). fold (\<lambda>node sz. sz + page * (i + 1)) chain)
       (zip (map of_nat [0..<FPX_MAX_POOL_SLOT]) (p_nodes pool)) 0"

section \<open>Clearing and destroying\<close>

definition reset_node :: "memnode \<Rightarrow> memnode" where
  "reset_node node = node\<lparr>mn_first_avail := mn_begin node, mn_size_avail := mn_size node\<rparr>"

text \<open>
  \<open>pool_clear False w p\<close> is \<open>fpx_pool_clear(p)\<close> and \<open>pool_clear True w p\<close> its loop over \<open>p\<close>
  and the brothers after it; the loop reads the brother before it clears.
\<close>

partial_function (option) pool_clear :: "bool \<Rightarrow> world \<Rightarrow> addr \<Rightarrow> world option" where
  "pool_clear brothers w p =
     (if brothers then
        if p = NULL then Some w
        else do {
          pool \<leftarrow> w_pools w p;
          w \<leftarrow> pool_clear False w p;
          pool_clear True w (p_brother pool)
        }
      else do {
        pool \<leftarrow> w_pools w p;
        if p_owner pool \<noteq> w_thread w then Some w
        else do {
          let w = mutex_lock w (p_mutex pool);
          w \<leftarrow> fpx_pool_cleanup_run_all w p;
          pool \<leftarrow> w_pools w p;
          w \<leftarrow> (if p_child pool \<noteq> NULL then pool_clear True w (p_child pool) else Some w);
          pool \<leftarrow> w_pools w p;
          let w = set_pool w p (pool\<lparr>p_nodes := map (map reset_node) (p_nodes pool)\<rparr>);
          Some (mutex_unlock w (p_mutex pool))
        }
      })"

definition fpx_pool_clear :: "world \<Rightarrow> addr \<Rightarrow> world option" where
  "fpx_pool_clear w p = pool_clear False w p"

fun free_chain :: "world \<Rightarrow> memnode list \<Rightarrow> world option" where
  "free_chain w [] = Some w"
| "free_chain w (node # rest) = do { w \<leftarrow> fpx_memnode_deallocate w node; free_chain w rest }"

text \<open>The loop over the slots reads \<open>pool->nodes[i]\<close> afresh in every round.\<close>

fun free_slots :: "world \<Rightarrow> addr \<Rightarrow> nat list \<Rightarrow> world option" where
  "free_slots w p [] = Some w"
| "free_slots w p (i # is) = do {
     pool \<leftarrow> w_pools w p;
     w \<leftarrow> free_chain w (p_nodes pool ! i);
     free_slots w p is
   }"

partial_function (option) pool_destroy :: "bool \<Rightarrow> world \<Rightarrow> addr \<Rightarrow> world option" where
  "pool_destroy brothers w p =
     (if brothers then
        if p = NULL then Some w
        else do {
          pool \<leftarrow> w_pools w p;
          w \<leftarrow> pool_destroy False w p;
          pool_destroy True w (p_brother pool)
        }
      else do {
        pool \<leftarrow> w_pools w p;
        if p_owner pool \<noteq> w_thread w then Some w
        else do {
          w \<leftarrow> fpx_pool_cleanup_run_all w p;
          pool \<leftarrow> w_pools w p;
          w \<leftarrow> (if p_child pool \<noteq> NULL then pool_destroy True w (p_child pool) else Some w);
          free_slots w p [0..<FPX_MAX_POOL_SLOT]
        }
      })"

definition fpx_pool_destroy :: "world \<Rightarrow> addr \<Rightarrow> world option" where
  "fpx_pool_destroy w p = pool_destroy False w p"

section \<open>Alignment\<close>

lemma and_not_mask_unat: "unat ((x :: 64 word) AND - 8) = unat x div 8 * 8"
proof -
  have m: "- 8 = (NOT (mask 3) :: 64 word)" by (simp add: mask_eq_exp_minus_1)
  have "x AND NOT (mask 3) = push_bit 3 (drop_bit 3 x)"
    by (intro bit_word_eqI) (auto simp: bit_simps)
  then have "unat (x AND - 8) = take_bit 64 (push_bit 3 (drop_bit 3 (unat x)))"
    unfolding m using unat64_less [of x]
    by (simp only: unsigned_push_bit_eq unsigned_drop_bit_eq) (simp add: take_bit_nat_eq_self)
  also have "\<dots> = take_bit 64 (unat x div 8 * 8)"
    by (simp add: push_bit_eq_mult drop_bit_eq_div)
  also have "\<dots> = unat x div 8 * 8"
  proof -
    have "unat x < 2 ^ 64" using unat64_less [of x] by simp
    moreover have "unat x div 8 * 8 \<le> unat x" by simp
    ultimately have "unat x div 8 * 8 < 2 ^ 64" by (rule le_less_trans [rotated])
    then show ?thesis by (simp add: take_bit_nat_eq_self_iff)
  qed
  finally show ?thesis .
qed

lemma round8: "x \<le> (x + 7) div 8 * 8" "(x + 7) div 8 * 8 \<le> x + 7" for x :: nat
  by presburger+

lemma fpx_align_default_unat:
  "unat (fpx_align_default x) = (unat x + 7) mod 2 ^ 64 div 8 * 8"
  by (simp add: fpx_align_default_def fpx_align_def FPX_ALIGN_SIZE_def and_not_mask_unat
        unat_word_ariths)

lemma sizeof_aligned [simp]:
  "fpx_align_default sizeof_memnode = 48" "fpx_align_default sizeof_pool = 216"
  "fpx_align_default sizeof_mutex = 40" "fpx_align_allocation sizeof_cleanup_node = 24"
  by (code_simp)+

lemma fpx_align_allocation_unat:
  "unat (fpx_align_allocation x) =
     (if unat x + 8 \<le> 2 ^ 64 then max 16 ((unat x + 7) div 8 * 8) else 0)"
proof (cases "unat x + 8 \<le> 2 ^ 64")
  case True
  then have "unat (fpx_align_default x) = (unat x + 7) div 8 * 8"
    by (simp add: fpx_align_default_unat)
  moreover have "unat x \<le> (unat x + 7) div 8 * 8" by presburger
  ultimately show ?thesis using True
    by (simp add: fpx_align_allocation_def Let_def word_less_nat_alt FPX_MIN_ALLOC_def
          FPX_ALIGN_SIZE_def not_less max_def)
next
  case False
  have "unat x < 2 ^ 64" using unat64_less [of x] by simp
  with False have "(unat x + 7) mod 2 ^ 64 < 8" by (simp add: mod_if) linarith
  with False have "unat (fpx_align_default x) < unat x"
    by (simp add: fpx_align_default_unat)
  with False show ?thesis
    by (simp add: fpx_align_allocation_def Let_def word_less_nat_alt)
qed

lemma fpx_get_npages_unat:
  assumes "unat sz + 48 < 2 ^ 64" "page = 4096"
  shows "unat (fpx_get_npages page sz) = (unat sz + 48) div 4096 + 1"
proof -
  have t: "unat (sz + 48) = unat sz + 48" using assms by (simp add: unat_word_ariths)
  have "unat ((sz + 48) div 4096 + 1) = (unat sz + 48) div 4096 + 1"
    using assms t by (simp add: unat_word_ariths unat_div)
  then show ?thesis using assms t
    by (simp add: fpx_get_npages_def Let_def word_less_nat_alt)
qed

section \<open>Well-formed pools\<close>

text \<open>
  \<open>malloc_ok\<close> is the documented behaviour of \<open>malloc\<close>: NULL, or a block inside the address
  space that overlaps no live block. A node is well-formed when it lies in a live block, its
  bookkeeping stays above its own header, and the free space ends where the block ends.
\<close>

definition apart :: "addr \<Rightarrow> size_t \<Rightarrow> addr \<Rightarrow> size_t \<Rightarrow> bool" where
  "apart a s b t \<longleftrightarrow> unat a + unat s \<le> unat b \<or> unat b + unat t \<le> unat a"

definition live_ok :: "(addr \<times> size_t) list \<Rightarrow> bool" where
  "live_ok live \<longleftrightarrow> distinct (map fst live) \<and>
     (\<forall>(a, s)\<in>set live. \<forall>(b, t)\<in>set live. a \<noteq> b \<longrightarrow> apart a s b t)"

definition malloc_ok :: "((addr \<times> size_t) list \<Rightarrow> size_t \<Rightarrow> addr) \<Rightarrow> bool" where
  "malloc_ok m \<longleftrightarrow> (\<forall>live s. m live s \<noteq> NULL \<longrightarrow>
     unat (m live s) + unat s < 2 ^ 64 \<and> (\<forall>(b, t)\<in>set live. m live s \<noteq> b \<and> apart (m live s) s b t))"

definition node_ok :: "(addr \<times> size_t) list \<Rightarrow> memnode \<Rightarrow> bool" where
  "node_ok live n \<longleftrightarrow> (mn_addr n, mn_dealloc_size n) \<in> set live \<and>
     unat (mn_addr n) + unat (mn_dealloc_size n) < 2 ^ 64 \<and> 0 < unat (mn_addr n) \<and>
     unat (mn_addr n) + 48 \<le> unat (mn_begin n) \<and> unat (mn_begin n) \<le> unat (mn_first_avail n) \<and>
     unat (mn_begin n) + unat (mn_size n) = unat (mn_addr n) + unat (mn_dealloc_size n) \<and>
     unat (mn_first_avail n) + unat (mn_size_avail n) = unat (mn_addr n) + unat (mn_dealloc_size n)"

definition nodes_ok :: "size_t \<Rightarrow> (addr \<times> size_t) list \<Rightarrow> memnode list list \<Rightarrow> bool" where
  "nodes_ok page live nodes \<longleftrightarrow> length nodes = FPX_MAX_POOL_SLOT \<and>
     (\<forall>n\<in>set (concat nodes). node_ok live n) \<and> distinct (map mn_addr (concat nodes)) \<and>
     (\<forall>i<FPX_MAX_POOL_SLOT. \<forall>n\<in>set (nodes ! i). mn_dealloc_size n = of_nat (Suc i) * page)"

definition pool_ok :: "world \<Rightarrow> addr \<Rightarrow> bool" where
  "pool_ok w p \<longleftrightarrow> live_ok (w_live w) \<and> w_page w = 4096 \<and>
     (case w_pools w p of None \<Rightarrow> False | Some pool \<Rightarrow> nodes_ok 4096 (w_live w) (p_nodes pool))"

text \<open>The addresses handed out so far, and the addresses of one allocation.\<close>

definition node_used :: "memnode \<Rightarrow> nat set" where
  "node_used n = {unat (mn_begin n) ..< unat (mn_first_avail n)}"

definition used :: "memnode list list \<Rightarrow> nat set" where
  "used nodes = (\<Union>n\<in>set (concat nodes). node_used n)"

definition span :: "addr \<Rightarrow> size_t \<Rightarrow> nat set" where
  "span a s = {unat a ..< unat a + unat s}"

definition take_node :: "size_t \<Rightarrow> memnode \<Rightarrow> memnode" where
  "take_node s n = n\<lparr>mn_size_avail := mn_size_avail n - s, mn_first_avail := mn_first_avail n + s\<rparr>"

lemma take_node_simps [simp]:
  "mn_addr (take_node s n) = mn_addr n" "mn_begin (take_node s n) = mn_begin n"
  "mn_size (take_node s n) = mn_size n" "mn_dealloc_size (take_node s n) = mn_dealloc_size n"
  by (simp_all add: take_node_def)

lemma take_node_unat:
  assumes "node_ok live n" "s \<le> mn_size_avail n"
  shows "unat (mn_first_avail (take_node s n)) = unat (mn_first_avail n) + unat s"
    "unat (mn_size_avail (take_node s n)) = unat (mn_size_avail n) - unat s"
proof -
  have "unat (mn_first_avail n) + unat s < 18446744073709551616"
    using assms by (simp add: node_ok_def word_le_nat_alt)
  from unat_plus64 [OF this] show "unat (mn_first_avail (take_node s n)) = unat (mn_first_avail n) + unat s"
    by (simp add: take_node_def)
  show "unat (mn_size_avail (take_node s n)) = unat (mn_size_avail n) - unat s"
    using assms by (simp add: take_node_def unat_minus64 word_le_nat_alt)
qed

lemma take_node_ok:
  assumes "node_ok live n" "s \<le> mn_size_avail n"
  shows "node_ok live (take_node s n)"
  using assms take_node_unat [OF assms] by (simp add: node_ok_def word_le_nat_alt)

lemma take_node_used:
  assumes "node_ok live n" "s \<le> mn_size_avail n"
  shows "node_used (take_node s n) = node_used n \<union> span (mn_first_avail n) s"
    "node_used n \<inter> span (mn_first_avail n) s = {}"
  using assms take_node_unat [OF assms] by (auto simp: node_used_def span_def node_ok_def)

text \<open>What a node has handed out, and what it can still hand out, stays in its block.\<close>

lemma node_used_block: "node_ok live n \<Longrightarrow> node_used n \<subseteq> span (mn_addr n) (mn_dealloc_size n)"
  by (auto simp: node_used_def span_def node_ok_def)

lemma node_avail_block:
  "node_ok live n \<Longrightarrow> s \<le> mn_size_avail n \<Longrightarrow>
     span (mn_first_avail n) s \<subseteq> span (mn_addr n) (mn_dealloc_size n)"
  by (auto simp: span_def node_ok_def word_le_nat_alt)

lemma live_ok_apart:
  assumes "live_ok live" "(a, s) \<in> set live" "(b, t) \<in> set live" "a \<noteq> b"
  shows "span a s \<inter> span b t = {}"
  using assms by (fastforce simp: live_ok_def apart_def span_def)

lemma node_ok_mono: "node_ok live n \<Longrightarrow> set live \<subseteq> set live' \<Longrightarrow> node_ok live' n"
  by (auto simp: node_ok_def)

section \<open>Serving a request from the nodes\<close>

lemma alloc_chain_Some:
  "alloc_chain s ns = Some (mem, ns') \<Longrightarrow>
     \<exists>ys n zs. ns = ys @ n # zs \<and> s \<le> mn_size_avail n \<and> mem = mn_first_avail n \<and>
       ns' = ys @ take_node s n # zs"
proof (induction ns arbitrary: ns')
  case (Cons n ns)
  show ?case
  proof (cases "s \<le> mn_size_avail n")
    case True
    with Cons.prems show ?thesis by (intro exI [of _ "[]"]) (auto simp: take_node_def)
  next
    case False
    with Cons.prems obtain r where "alloc_chain s ns = Some (mem, r)" "ns' = n # r" by auto
    with Cons.IH obtain ys m zs where "ns = ys @ m # zs" "s \<le> mn_size_avail m"
      "mem = mn_first_avail m" "r = ys @ take_node s m # zs" by blast
    with \<open>ns' = n # r\<close> show ?thesis by (intro exI [of _ "n # ys"]) auto
  qed
qed simp

lemma alloc_slots_Some:
  "alloc_slots s ss = Some (mem, ss') \<Longrightarrow>
     \<exists>j ys n zs. j < length ss \<and> ss ! j = ys @ n # zs \<and> s \<le> mn_size_avail n \<and>
       mem = mn_first_avail n \<and> ss' = ss[j := ys @ take_node s n # zs]"
proof (induction ss arbitrary: ss')
  case (Cons c ss)
  show ?case
  proof (cases "alloc_chain s c")
    case None
    with Cons.prems obtain r where "alloc_slots s ss = Some (mem, r)" "ss' = c # r" by auto
    with Cons.IH obtain j ys n zs where "j < length ss" "ss ! j = ys @ n # zs"
      "s \<le> mn_size_avail n" "mem = mn_first_avail n" "r = ss[j := ys @ take_node s n # zs]"
      by blast
    with \<open>ss' = c # r\<close> show ?thesis by (intro exI [of _ "Suc j"]) auto
  next
    case (Some a)
    then obtain m c' where "alloc_chain s c = Some (m, c')" by (cases a) auto
    with Cons.prems have "alloc_chain s c = Some (mem, c')" "ss' = c' # ss" by auto
    with alloc_chain_Some show ?thesis by (intro exI [of _ 0]) fastforce
  qed
qed simp

lemma alloc_slots_drop:
  assumes "alloc_slots s (drop k nodes) = Some (mem, slots)"
  obtains j ys n zs where "j < length nodes" "nodes ! j = ys @ n # zs" "s \<le> mn_size_avail n"
    "mem = mn_first_avail n" "take k nodes @ slots = nodes[j := ys @ take_node s n # zs]"
proof -
  from alloc_slots_Some [OF assms] obtain i ys n zs where i: "i < length (drop k nodes)"
    "drop k nodes ! i = ys @ n # zs" "s \<le> mn_size_avail n" "mem = mn_first_avail n"
    "slots = (drop k nodes)[i := ys @ take_node s n # zs]" by blast
  then have k: "k + i < length nodes" by simp
  have "take k nodes @ slots = (take k nodes @ drop k nodes)[k + i := ys @ take_node s n # zs]"
    using i k by (simp only: list_update_append) simp
  then show thesis using i k by (intro that [of "k + i"]) (simp_all add: ac_simps)
qed

text \<open>Replacing one node of a chain, and putting a new node in front of one.\<close>

lemma concat_replace:
  assumes "j < length nodes" "nodes ! j = ys @ n # zs"
  obtains A B where "concat nodes = A @ n # B" "concat (nodes[j := ys @ m # zs]) = A @ m # B"
proof
  show "concat nodes = (concat (take j nodes) @ ys) @ n # (zs @ concat (drop (Suc j) nodes))"
    using assms by (subst id_take_nth_drop [OF assms(1)]) simp
  show "concat (nodes[j := ys @ m # zs]) =
      (concat (take j nodes) @ ys) @ m # (zs @ concat (drop (Suc j) nodes))"
    using assms by (simp add: upd_conv_take_nth_drop)
qed

lemma concat_prepend:
  assumes "j < length nodes"
  obtains A B where "concat nodes = A @ B" "concat (nodes[j := m # nodes ! j]) = A @ m # B"
proof
  show "concat nodes = concat (take j nodes) @ (nodes ! j @ concat (drop (Suc j) nodes))"
    using assms by (subst id_take_nth_drop [OF assms(1)]) simp
  show "concat (nodes[j := m # nodes ! j]) =
      concat (take j nodes) @ m # (nodes ! j @ concat (drop (Suc j) nodes))"
    using assms by (simp add: upd_conv_take_nth_drop)
qed

lemma nodes_ok_mem: "nodes_ok page live nodes \<Longrightarrow> j < length nodes \<Longrightarrow> n \<in> set (nodes ! j) \<Longrightarrow>
    node_ok live n \<and> mn_dealloc_size n = of_nat (Suc j) * page"
  by (auto simp: nodes_ok_def)

lemma nodes_ok_live:
  assumes "nodes_ok page live nodes"
  shows "\<forall>n\<in>set (concat nodes). mn_addr n \<in> fst ` set live"
proof
  fix n assume "n \<in> set (concat nodes)"
  with assms have "node_ok live n" unfolding nodes_ok_def by blast
  then have "(mn_addr n, mn_dealloc_size n) \<in> set live" by (simp add: node_ok_def)
  then show "mn_addr n \<in> fst ` set live" by (rule image_eqI [rotated]) simp
qed

lemma nodes_ok_replace:
  assumes ok: "nodes_ok page live nodes" and j: "j < length nodes" "nodes ! j = ys @ n # zs"
    and s: "s \<le> mn_size_avail n"
  shows "nodes_ok page live (nodes[j := ys @ take_node s n # zs])"
proof -
  obtain A B where AB: "concat nodes = A @ n # B"
    "concat (nodes[j := ys @ take_node s n # zs]) = A @ take_node s n # B"
    using concat_replace [OF j] by blast
  have "\<forall>i<FPX_MAX_POOL_SLOT. \<forall>m\<in>set (nodes[j := ys @ take_node s n # zs] ! i).
      mn_dealloc_size m = of_nat (Suc i) * page"
    using ok j by (auto simp: nodes_ok_def nth_list_update)
  moreover have "node_ok live (take_node s n)"
    using ok AB s by (intro take_node_ok) (auto simp: nodes_ok_def)
  ultimately show ?thesis using ok AB by (auto simp: nodes_ok_def)
qed

lemma nodes_ok_prepend:
  assumes ok: "nodes_ok page live nodes" and j: "j < length nodes"
    and m: "node_ok ((mn_addr m, mn_dealloc_size m) # live) m"
      "mn_dealloc_size m = of_nat (Suc j) * page" "mn_addr m \<notin> fst ` set live"
  shows "nodes_ok page ((mn_addr m, mn_dealloc_size m) # live) (nodes[j := m # nodes ! j])"
proof -
  obtain A B where AB: "concat nodes = A @ B" "concat (nodes[j := m # nodes ! j]) = A @ m # B"
    using concat_prepend [OF j] by blast
  have "\<forall>i<FPX_MAX_POOL_SLOT. \<forall>n\<in>set (nodes[j := m # nodes ! j] ! i).
      mn_dealloc_size n = of_nat (Suc i) * page"
    using ok j m(2) by (auto simp: nodes_ok_def nth_list_update)
  moreover have "\<forall>n\<in>set (A @ B). node_ok ((mn_addr m, mn_dealloc_size m) # live) n"
    using ok AB unfolding nodes_ok_def by (metis node_ok_mono set_subset_Cons)
  moreover have "mn_addr m \<notin> mn_addr ` set (A @ B)"
    using nodes_ok_live [OF ok] AB m(3) by auto
  ultimately show ?thesis using ok AB m(1) by (auto simp: nodes_ok_def)
qed

text \<open>A block fresh from the system allocator is a well-formed node with nothing handed out.\<close>

lemma memnode_allocate_ok:
  assumes m: "malloc_ok (w_malloc w)" and s: "48 \<le> unat s"
    and a: "fpx_memnode_allocate w s = (w', Some n)"
  shows "w' = w\<lparr>w_live := (mn_addr n, mn_dealloc_size n) # w_live w, w_counter := w_counter w + s\<rparr>"
    "mn_dealloc_size n = s" "mn_addr n \<notin> fst ` set (w_live w)"
    "node_ok ((mn_addr n, mn_dealloc_size n) # w_live w) n"
    "unat (mn_size_avail n) = unat s - 48" "mn_first_avail n = mn_begin n"
    "live_ok (w_live w) \<Longrightarrow> live_ok ((mn_addr n, mn_dealloc_size n) # w_live w)"
proof -
  define mem where "mem = w_malloc w (w_live w) s"
  from a have mem: "mem \<noteq> 0" and w': "w' = w\<lparr>w_live := (mem, s) # w_live w, w_counter := w_counter w + s\<rparr>"
    and n: "n = \<lparr>mn_addr = mem, mn_begin = mem + 48, mn_first_avail = mem + 48,
       mn_size = s - 48, mn_size_avail = s - 48, mn_dealloc_size = s\<rparr>"
    by (auto simp: fpx_memnode_allocate_def fpx_malloc1_def mem_def Let_def split: if_splits)
  from m mem have b: "unat mem + unat s < 18446744073709551616"
    and d: "\<forall>(b, t)\<in>set (w_live w). mem \<noteq> b \<and> apart mem s b t"
    unfolding malloc_ok_def mem_def by (auto dest!: spec [of _ "w_live w"] spec [of _ s])
  have p: "unat (mem + 48) = unat mem + 48" using b s by (simp add: unat_word_ariths)
  have q: "unat (s - 48) = unat s - 48" using s unat_minus64 [of 48 s] by simp
  have z: "0 < unat mem" using mem by (simp add: unat_gt_0)
  show "w' = w\<lparr>w_live := (mn_addr n, mn_dealloc_size n) # w_live w, w_counter := w_counter w + s\<rparr>"
    "mn_dealloc_size n = s" "unat (mn_size_avail n) = unat s - 48" "mn_first_avail n = mn_begin n"
    using w' n q by simp_all
  show "mn_addr n \<notin> fst ` set (w_live w)" using d n by auto
  show "node_ok ((mn_addr n, mn_dealloc_size n) # w_live w) n"
    using b s p q z by (simp add: n node_ok_def)
  show "live_ok ((mn_addr n, mn_dealloc_size n) # w_live w)" if "live_ok (w_live w)"
    using that d n by (auto simp: live_ok_def apart_def)
qed

lemma used_replace:
  assumes ok: "nodes_ok page live nodes" and l: "live_ok live"
    and j: "j < length nodes" "nodes ! j = ys @ n # zs" and s: "s \<le> mn_size_avail n"
  shows "used (nodes[j := ys @ take_node s n # zs]) = used nodes \<union> span (mn_first_avail n) s"
    "used nodes \<inter> span (mn_first_avail n) s = {}"
proof -
  obtain A B where AB: "concat nodes = A @ n # B"
    "concat (nodes[j := ys @ take_node s n # zs]) = A @ take_node s n # B"
    using concat_replace [OF j] by blast
  have n: "node_ok live n" using ok AB by (simp add: nodes_ok_def)
  show "used (nodes[j := ys @ take_node s n # zs]) = used nodes \<union> span (mn_first_avail n) s"
    unfolding used_def AB using take_node_used(1) [OF n s] by auto
  have "node_used m \<inter> span (mn_first_avail n) s = {}" if "m \<in> set (A @ n # B)" for m
  proof (cases "mn_addr m = mn_addr n")
    case True
    moreover have "distinct (map mn_addr (A @ n # B))" using ok AB by (simp add: nodes_ok_def)
    ultimately have "m = n" using that by (metis in_set_conv_decomp distinct_map inj_onD)
    then show ?thesis using take_node_used(2) [OF n s] by simp
  next
    case False
    have m: "node_ok live m" using ok that unfolding nodes_ok_def AB by blast
    then have "span (mn_addr m) (mn_dealloc_size m) \<inter> span (mn_addr n) (mn_dealloc_size n) = {}"
      using n False by (intro live_ok_apart [OF l]) (simp_all add: node_ok_def)
    then show ?thesis using node_used_block [OF m] node_avail_block [OF n s] by blast
  qed
  then show "used nodes \<inter> span (mn_first_avail n) s = {}" unfolding used_def AB by blast
qed

lemma used_prepend:
  assumes "j < length nodes" "mn_first_avail n = mn_begin n"
    and "unat (mn_first_avail (take_node s n)) = unat (mn_first_avail n) + unat s"
  shows "used (nodes[j := take_node s n # nodes ! j]) = used nodes \<union> span (mn_first_avail n) s"
proof -
  obtain A B where AB: "concat nodes = A @ B"
    "concat (nodes[j := take_node s n # nodes ! j]) = A @ take_node s n # B"
    using concat_prepend [OF assms(1)] by blast
  show ?thesis unfolding used_def AB
    using assms(2,3) by (auto simp: node_used_def span_def)
qed

lemma used_fresh:
  assumes ok: "nodes_ok page live nodes" and l: "live_ok ((a, s) # live)"
    and a: "a \<notin> fst ` set live"
  shows "used nodes \<inter> span a s = {}"
proof -
  have "node_used m \<inter> span a s = {}" if "m \<in> set (concat nodes)" for m
  proof -
    have m: "node_ok live m" using ok that unfolding nodes_ok_def by blast
    then have b: "(mn_addr m, mn_dealloc_size m) \<in> set live" by (simp add: node_ok_def)
    with a have "mn_addr m \<noteq> a" by force
    with b have "span (mn_addr m) (mn_dealloc_size m) \<inter> span a s = {}"
      by (intro live_ok_apart [OF l]) simp_all
    then show ?thesis using node_used_block [OF m] by blast
  qed
  then show ?thesis unfolding used_def by blast
qed

text \<open>
  The effect of one served request: the nodes handed out exactly one new piece, which was
  free before and lies in a live block.
\<close>

definition served :: "world \<Rightarrow> addr \<Rightarrow> size_t \<Rightarrow> world \<Rightarrow> addr \<Rightarrow> bool" where
  "served w p s w' mem \<longleftrightarrow> (\<exists>pool nodes.
     w_pools w p = Some pool \<and> w_pools w' = (w_pools w)(p \<mapsto> pool\<lparr>p_nodes := nodes\<rparr>) \<and>
     used nodes = used (p_nodes pool) \<union> span mem s \<and> used (p_nodes pool) \<inter> span mem s = {} \<and>
     (\<exists>(a, t)\<in>set (w_live w'). span mem s \<subseteq> span a t))"

lemma node_ok_live_span:
  "node_ok live n \<Longrightarrow> s \<le> mn_size_avail n \<Longrightarrow>
     \<exists>(a, t)\<in>set live. span (mn_first_avail n) s \<subseteq> span a t"
  by (rule bexI [of _ "(mn_addr n, mn_dealloc_size n)"])
    (use node_avail_block in \<open>auto simp: node_ok_def\<close>)

lemma set_pool_sel [simp]:
  "w_locks (set_pool w p pool) = w_locks w" "w_live (set_pool w p pool) = w_live w"
  "w_page (set_pool w p pool) = w_page w" "w_malloc (set_pool w p pool) = w_malloc w"
  "w_pools (set_pool w p pool) = (w_pools w)(p \<mapsto> pool)"
  "w_thread (set_pool w p pool) = w_thread w" "w_calls (set_pool w p pool) = w_calls w"
  by (simp_all add: set_pool_def)

lemma mutex_sel [simp]:
  "w_live (mutex_lock w m) = w_live w" "w_page (mutex_lock w m) = w_page w"
  "w_malloc (mutex_lock w m) = w_malloc w" "w_pools (mutex_lock w m) = w_pools w"
  "w_thread (mutex_lock w m) = w_thread w" "w_calls (mutex_lock w m) = w_calls w"
  "w_live (mutex_unlock w m) = w_live w" "w_page (mutex_unlock w m) = w_page w"
  "w_malloc (mutex_unlock w m) = w_malloc w" "w_pools (mutex_unlock w m) = w_pools w"
  "w_thread (mutex_unlock w m) = w_thread w" "w_calls (mutex_unlock w m) = w_calls w"
  "w_locks (mutex_lock w m) = (w_locks w)(m := Suc (w_locks w m))"
  "w_locks (mutex_unlock w m) = (w_locks w)(m := w_locks w m - 1)"
  by (simp_all add: mutex_lock_def mutex_unlock_def)

lemma palloc_nodes_reuse:
  assumes ok: "pool_ok w p" and pool: "w_pools w p = Some pool"
    and a: "alloc_slots s (drop (unat (fpx_get_npages (w_page w) s - 1)) (p_nodes pool)) = Some (mem, slots)"
  shows "\<exists>w'. palloc_nodes w p s = Some (w', mem) \<and> pool_ok w' p \<and> served w p s w' mem \<and>
     w_locks w' = w_locks w \<and> w_live w' = w_live w"
proof -
  let ?k = "unat (fpx_get_npages (w_page w) s - 1)"
  from ok pool have n: "nodes_ok 4096 (w_live w) (p_nodes pool)" and l: "live_ok (w_live w)"
    by (simp_all add: pool_ok_def)
  from alloc_slots_drop [OF a] obtain j ys nd zs where j: "j < length (p_nodes pool)"
    "p_nodes pool ! j = ys @ nd # zs" "s \<le> mn_size_avail nd" "mem = mn_first_avail nd"
    and eq: "take ?k (p_nodes pool) @ slots = (p_nodes pool)[j := ys @ take_node s nd # zs]" .
  define w' where "w' = mutex_unlock (set_pool (mutex_lock w (p_mutex pool)) p
     (pool\<lparr>p_nodes := take ?k (p_nodes pool) @ slots\<rparr>)) (p_mutex pool)"
  have r: "palloc_nodes w p s = Some (w', mem)"
    using pool a by (simp add: palloc_nodes_def Let_def w'_def)
  have nd: "node_ok (w_live w) nd" using nodes_ok_mem [OF n j(1), of nd] j(2) by simp
  have "pool_ok w' p" using ok nodes_ok_replace [OF n j(1,2,3)]
    unfolding w'_def eq by (simp add: pool_ok_def)
  moreover have "served w p s w' mem"
    unfolding served_def w'_def eq
    using pool used_replace [OF n l j(1,2,3)] node_ok_live_span [OF nd j(3)]
    by (auto simp: j(4))
  ultimately show ?thesis using r by (simp add: w'_def)
qed

lemma palloc_nodes_fresh:
  assumes ok: "pool_ok w p" and pool: "w_pools w p = Some pool" and m: "malloc_ok (w_malloc w)"
    and k: "unat s + 48 < 81920"
    and a: "alloc_slots s (drop (unat (fpx_get_npages (w_page w) s - 1)) (p_nodes pool)) = None"
  shows "\<exists>w' mem. palloc_nodes w p s = Some (w', mem) \<and> pool_ok w' p \<and> w_locks w' = w_locks w \<and>
     (if mem = NULL then w_pools w' = w_pools w \<and> w_live w' = w_live w
      else served w p s w' mem \<and> set (w_live w) \<subseteq> set (w_live w'))"
proof -
  define np where "np = fpx_get_npages (w_page w) s"
  from ok pool have n: "nodes_ok 4096 (w_live w) (p_nodes pool)" and l: "live_ok (w_live w)"
    and page: "w_page w = 4096" by (simp_all add: pool_ok_def)
  have np: "unat np = (unat s + 48) div 4096 + 1" using fpx_get_npages_unat [of s "w_page w"] k page
    by (simp add: np_def)
  then have i: "unat (np - 1) = (unat s + 48) div 4096" using unat_minus64 [of 1 np] by simp
  then have i20: "unat (np - 1) < 20" using k by simp
  have len: "length (p_nodes pool) = 20" using n by (simp add: nodes_ok_def FPX_MAX_POOL_SLOT_def)
  have npw: "np = of_nat (Suc (unat (np - 1)))" by simp
  have sz: "unat (np * 4096) = ((unat s + 48) div 4096 + 1) * 4096"
    using np k by (simp add: unat_word_ariths)
  have room: "unat s + 48 \<le> unat (np * 4096)"
    unfolding sz using div_mult_mod_eq [of "unat s + 48" 4096] mod_less_divisor [of 4096 "unat s + 48"]
    by simp
  let ?w = "mutex_lock w (p_mutex pool)"
  show ?thesis
  proof (cases "fpx_memnode_allocate ?w (np * 4096)")
    case (Pair w1 res)
    show ?thesis
    proof (cases res)
      case None
      with Pair have "w1 = ?w"
        by (auto simp: fpx_memnode_allocate_def fpx_malloc1_def Let_def split: if_splits)
      with None Pair pool a page ok show ?thesis
        by (simp add: palloc_nodes_def Let_def np_def pool_ok_def)
    next
      case (Some nd)
      have mw: "malloc_ok (w_malloc ?w)" using m by simp
      note f = memnode_allocate_ok [OF mw _ Pair [unfolded Some]]
      have s48: "48 \<le> unat (np * 4096)" using room by simp
      define nodes where "nodes = (p_nodes pool)[unat (np - 1) := take_node s nd # p_nodes pool ! unat (np - 1)]"
      define w' where "w' = mutex_unlock (set_pool w1 p (pool\<lparr>p_nodes := nodes\<rparr>)) (p_mutex pool)"
      have r: "palloc_nodes w p s = Some (w', mn_first_avail nd)"
        using pool a page Pair Some i20
        by (simp add: palloc_nodes_def Let_def np_def w'_def nodes_def take_node_def
            FPX_MAX_POOL_SLOT_def)
      have fit: "s \<le> mn_size_avail nd" using f(5) [OF s48] room by (simp add: word_le_nat_alt)
      have ndok: "node_ok (w_live w1) nd" using f(4) [OF s48] f(1) [OF s48] by simp
      have lw: "w_live w1 = (mn_addr nd, mn_dealloc_size nd) # w_live w" using f(1) [OF s48] by simp
      have "nodes_ok 4096 (w_live w1) nodes"
        unfolding nodes_def lw
        using nodes_ok_prepend [OF n, of "unat (np - 1)" "take_node s nd"] len i20
          take_node_ok [OF ndok fit] f(2) [OF s48] f(3) [OF s48] npw by (simp add: lw)
      then have ok': "pool_ok w' p" using f(7) [OF s48] l page f(1) [OF s48]
        by (simp add: pool_ok_def w'_def lw)
      have fst: "mn_first_avail nd \<noteq> NULL" using ndok by (auto simp: node_ok_def)
      have u: "used nodes = used (p_nodes pool) \<union> span (mn_first_avail nd) s"
        unfolding nodes_def using len i20 f(6) [OF s48] take_node_unat(1) [OF ndok fit]
        by (intro used_prepend) simp_all
      have "used (p_nodes pool) \<inter> span (mn_addr nd) (mn_dealloc_size nd) = {}"
        using f(3) [OF s48] f(7) [OF s48] l by (intro used_fresh [OF n]) simp_all
      then have "used (p_nodes pool) \<inter> span (mn_first_avail nd) s = {}"
        using node_avail_block [OF ndok fit] by blast
      then have "served w p s w' (mn_first_avail nd)"
        unfolding served_def using pool u node_ok_live_span [OF ndok fit] f(1) [OF s48]
        by (auto simp: w'_def)
      moreover have "w_locks w' = w_locks w" using f(1) [OF s48]
        by (simp add: w'_def)
      ultimately show ?thesis using r ok' fst lw by (auto simp: w'_def)
    qed
  qed
qed

lemma fpx_align_allocation_small:
  assumes "unat sz \<le> 81864"
  shows "unat (fpx_align_allocation sz) + 48 < 81920" "fpx_align_allocation sz \<noteq> 0"
    "unat sz \<le> unat (fpx_align_allocation sz)"
proof -
  have a: "unat (fpx_align_allocation sz) = max 16 ((unat sz + 7) div 8 * 8)"
    using assms by (simp add: fpx_align_allocation_unat)
  have "(unat sz + 7) div 8 \<le> 10233" using assms by simp
  with a show "unat (fpx_align_allocation sz) + 48 < 81920" by simp
  show "fpx_align_allocation sz \<noteq> 0" using a by force
  show "unat sz \<le> unat (fpx_align_allocation sz)" using a by simp
qed

lemma fpx_palloc1_small:
  assumes "unat sz \<le> 81864" "w_page w = 4096" "w_pools w p \<noteq> None"
  shows "fpx_palloc1 w p sz = palloc_nodes w p (fpx_align_allocation sz)"
proof -
  let ?a = "fpx_align_allocation sz"
  have "unat (fpx_get_npages 4096 ?a) = (unat ?a + 48) div 4096 + 1"
    using fpx_align_allocation_small(1) [OF assms(1)] by (intro fpx_get_npages_unat) simp_all
  then have "unat (fpx_get_npages 4096 ?a - 1) = (unat ?a + 48) div 4096"
    using unat_minus64 [of 1 "fpx_get_npages 4096 ?a"] by simp
  then have "\<not> fpx_get_npages 4096 ?a - 1 > of_nat FPX_MAX_POOL_SLOT"
    using fpx_align_allocation_small(1) [OF assms(1)]
    by (simp add: word_less_nat_alt FPX_MAX_POOL_SLOT_def)
  then show ?thesis using assms fpx_align_allocation_small(2) [OF assms(1)]
    by (auto simp: fpx_palloc1_def Let_def)
qed

text \<open>A bump allocator, to evaluate the model and to show that \<open>malloc_ok\<close> can hold.\<close>

definition bump_malloc :: "(addr \<times> size_t) list \<Rightarrow> size_t \<Rightarrow> addr" where
  "bump_malloc live s =
     (let top = foldr (\<lambda>(a, t) m. max m (unat a + unat t)) live 4080 + 16 in
      if top + unat s < 2 ^ 62 then of_nat top else NULL)"

lemma foldr_max_upper:
  "(a, t) \<in> set live \<Longrightarrow> unat a + unat t \<le> foldr (\<lambda>(a, t) m. max m (unat a + unat t)) live (z :: nat)"
  by (induction live) (auto simp: max.coboundedI1)

lemma bump_malloc_ok: "malloc_ok bump_malloc"
proof -
  have "unat (bump_malloc live s) + unat s < 2 ^ 64 \<and>
      (\<forall>(b, t)\<in>set live. bump_malloc live s \<noteq> b \<and> apart (bump_malloc live s) s b t)"
    if "bump_malloc live s \<noteq> NULL" for live s
  proof -
    define top where "top = foldr (\<lambda>(a, t) m. max m (unat a + unat t)) live (4080 :: nat) + 16"
    from that have t: "top + unat s < 2 ^ 62" and r: "bump_malloc live s = of_nat top"
      by (auto simp: bump_malloc_def top_def Let_def split: if_splits)
    have u: "unat (of_nat top :: addr) = top" using t by (simp add: unat_of_nat)
    have "unat b + unat q + 16 \<le> top" if "(b, q) \<in> set live" for b q
      using foldr_max_upper [OF that, of 4080] by (simp add: top_def)
    then show ?thesis using u t unfolding r apart_def by force
  qed
  then show ?thesis by (simp add: malloc_ok_def)
qed

definition world0 :: world where
  "world0 = \<lparr>w_page = 4096, w_malloc = bump_malloc, w_live = [], w_counter = 0,
     w_pools = (\<lambda>_. None), w_locks = (\<lambda>_. 0), w_thread = 1, w_errno = 12, w_mutex_init = FPX_OK,
     w_calls = [], w_bytes = (\<lambda>_. 0)\<rparr>"

text \<open>
  C1 (fpx_palloc1_serves). Allocating from a well-formed pool, for sizes up to the 81864
  bytes that fit the largest slot: the call is defined, releases every lock it took, keeps
  the pool well-formed and either returns NULL with the pool unchanged, or hands out a piece
  of at least the requested size that was free before, lies inside a live block, and is the
  only thing added to what the pool has handed out; no two allocations overlap.
\<close>

theorem fpx_palloc1_serves:
  assumes "pool_ok w p" "malloc_ok (w_malloc w)" "unat sz \<le> 81864"
  shows "\<exists>w' mem. fpx_palloc1 w p sz = Some (w', mem) \<and> pool_ok w' p \<and> w_locks w' = w_locks w \<and>
     unat sz \<le> unat (fpx_align_allocation sz) \<and>
     (if mem = NULL then w_pools w' = w_pools w \<and> w_live w' = w_live w
      else served w p (fpx_align_allocation sz) w' mem \<and> set (w_live w) \<subseteq> set (w_live w'))"
proof -
  let ?s = "fpx_align_allocation sz"
  from assms obtain pool where pool: "w_pools w p = Some pool" and page: "w_page w = 4096"
    by (auto simp: pool_ok_def split: option.splits)
  note small = fpx_align_allocation_small [OF assms(3)]
  have eq: "fpx_palloc1 w p sz = palloc_nodes w p ?s"
    using assms(3) page pool by (intro fpx_palloc1_small) simp_all
  show ?thesis
  proof (cases "alloc_slots ?s (drop (unat (fpx_get_npages (w_page w) ?s - 1)) (p_nodes pool))")
    case None
    from palloc_nodes_fresh [OF assms(1) pool assms(2) small(1) this] show ?thesis
      unfolding eq using small(3) by simp
  next
    case (Some r)
    obtain mem slots where "r = (mem, slots)" by (cases r)
    with Some palloc_nodes_reuse [OF assms(1) pool] obtain w' where w':
      "palloc_nodes w p ?s = Some (w', mem)" "pool_ok w' p" "served w p ?s w' mem"
      "w_locks w' = w_locks w" "w_live w' = w_live w" by blast
    have "mem \<noteq> NULL"
    proof -
      from alloc_slots_drop [OF Some [unfolded \<open>r = (mem, slots)\<close>]] obtain j ys nd zs where
        "j < length (p_nodes pool)" "p_nodes pool ! j = ys @ nd # zs" "mem = mn_first_avail nd" .
      then show ?thesis using assms(1) pool nodes_ok_mem [of 4096 "w_live w" "p_nodes pool" j nd]
        by (auto simp: pool_ok_def node_ok_def)
    qed
    with w' small(3) show ?thesis unfolding eq by auto
  qed
qed

definition demo_pool :: fpx_pool where
  "demo_pool = \<lparr>p_nodes = (replicate 20 [])[0 := [\<lparr>mn_addr = 4096, mn_begin = 4400,
       mn_first_avail = 4400, mn_size = 3792, mn_size_avail = 3792, mn_dealloc_size = 4096\<rparr>]],
     p_parent = 0, p_brother = 0, p_child = 0, p_cleanups = [], p_free_cleanups = [],
     p_mutex = 4360, p_owner = 1\<rparr>"

definition demo_world :: world where
  "demo_world = world0\<lparr>w_live := [(4096, 4096)], w_pools := [4144 \<mapsto> demo_pool]\<rparr>"

lemma demo_world_ok: "pool_ok demo_world 4144" "malloc_ok (w_malloc demo_world)"
  "live_ok (w_live demo_world)" "w_page demo_world = 4096" "w_pools demo_world 4144 = Some demo_pool"
proof -
  have c: "p_nodes demo_pool = [\<lparr>mn_addr = 4096, mn_begin = 4400, mn_first_avail = 4400,
      mn_size = 3792, mn_size_avail = 3792, mn_dealloc_size = 4096\<rparr>] # replicate 19 []"
    by (simp add: demo_pool_def numeral_eq_Suc)
  have "nodes_ok 4096 [(4096, 4096)] (p_nodes demo_pool)"
    unfolding c by (auto simp: nodes_ok_def node_ok_def FPX_MAX_POOL_SLOT_def nth_Cons split: nat.splits)
  then show "pool_ok demo_world 4144"
    by (simp add: pool_ok_def demo_world_def world0_def live_ok_def)
  show "malloc_ok (w_malloc demo_world)" using bump_malloc_ok by (simp add: demo_world_def world0_def)
  show "live_ok (w_live demo_world)" by (simp add: demo_world_def live_ok_def)
  show "w_page demo_world = 4096" "w_pools demo_world 4144 = Some demo_pool"
    by (simp_all add: demo_world_def world0_def)
qed

theorem fpx_palloc1_serves_witness:
  "pool_ok demo_world 4144 \<and> malloc_ok (w_malloc demo_world) \<and>
   (\<exists>w' mem. fpx_palloc1 demo_world 4144 100 = Some (w', mem) \<and> pool_ok w' 4144 \<and>
     w_locks w' = w_locks demo_world \<and> unat (100 :: size_t) \<le> unat (fpx_align_allocation 100) \<and>
     (if mem = NULL then w_pools w' = w_pools demo_world \<and> w_live w' = w_live demo_world
      else served demo_world 4144 (fpx_align_allocation 100) w' mem \<and>
        set (w_live demo_world) \<subseteq> set (w_live w')))"
  by (intro conjI demo_world_ok fpx_palloc1_serves) simp

section \<open>Requests that the nodes cannot serve\<close>

lemma alloc_chain_too_big:
  "\<forall>n\<in>set ns. mn_size_avail n < s \<Longrightarrow> alloc_chain s ns = None"
  by (induction ns) (auto simp: leD)

lemma alloc_slots_too_big:
  "\<forall>n\<in>set (concat ss). mn_size_avail n < s \<Longrightarrow> alloc_slots s ss = None"
  by (induction ss) (auto simp: alloc_chain_too_big)

lemma cleanup_node_request:
  assumes "w_page w = 4096" "w_pools w p \<noteq> None"
  shows "fpx_palloc1 w p sizeof_cleanup_node = palloc_nodes w p 24"
  using fpx_palloc1_small [of sizeof_cleanup_node w p] assms
  by (simp add: sizeof_cleanup_node_def sizeof_aligned(4) [unfolded sizeof_cleanup_node_def])

lemma pool_ok_cong:
  assumes "pool_ok w p" "w_pools w p = Some pool" "w_live w' = w_live w" "w_page w' = w_page w"
    "w_pools w' p = Some pool'" "p_nodes pool' = p_nodes pool"
  shows "pool_ok w' p"
  using assms by (simp add: pool_ok_def)

text \<open>Registering a handler puts it in front; only a failing allocation makes it undefined.\<close>

lemma fpx_pool_cleanup_add1_ok:
  assumes ok: "pool_ok w p" and pool: "w_pools w p = Some pool" and m: "malloc_ok (w_malloc w)"
    and r: "fpx_pool_cleanup_add1 w p data handler = Some w'"
  shows "\<exists>a pool'. w_pools w' p = Some pool' \<and>
      p_cleanups pool' = \<lparr>cn_addr = a, cn_data = data, cn_handler = handler\<rparr> # p_cleanups pool \<and>
      p_mutex pool' = p_mutex pool \<and> pool_ok w' p \<and> w_locks w' = w_locks w \<and>
      set (w_live w) \<subseteq> set (w_live w')"
proof (cases "p_free_cleanups pool")
  case (Cons n rest)
  with pool r show ?thesis
    by (auto simp: fpx_pool_cleanup_add1_def Let_def split: if_splits intro!: pool_ok_cong [OF ok pool])
next
  case Nil
  let ?w = "mutex_lock w (p_mutex pool)"
  have ok': "pool_ok ?w p" "w_pools ?w p = Some pool" "malloc_ok (w_malloc ?w)"
    using m pool by (auto intro!: pool_ok_cong [OF ok pool])
  have "\<exists>w1 a. palloc_nodes ?w p 24 = Some (w1, a) \<and> pool_ok w1 p \<and> w_locks w1 = w_locks ?w \<and>
      (a \<noteq> NULL \<longrightarrow> served ?w p 24 w1 a \<and> set (w_live w) \<subseteq> set (w_live w1))"
  proof (cases "alloc_slots 24 (drop (unat (fpx_get_npages (w_page ?w) 24 - 1)) (p_nodes pool))")
    case None
    from palloc_nodes_fresh [OF ok' _ this] show ?thesis by (fastforce split: if_splits)
  next
    case (Some x)
    then obtain mem slots where "alloc_slots 24
      (drop (unat (fpx_get_npages (w_page ?w) 24 - 1)) (p_nodes pool)) = Some (mem, slots)" by (cases x) auto
    from palloc_nodes_reuse [OF ok'(1,2) this] show ?thesis by force
  qed
  then obtain w1 a where w1: "palloc_nodes ?w p 24 = Some (w1, a)" "pool_ok w1 p"
    "w_locks w1 = w_locks ?w" "a \<noteq> NULL \<longrightarrow> served ?w p 24 w1 a \<and> set (w_live w) \<subseteq> set (w_live w1)"
    by blast
  from r Nil pool w1(1) have a: "a \<noteq> NULL"
    by (auto simp: fpx_pool_cleanup_add1_def Let_def split: if_splits)
  with w1(4) obtain nodes where p1: "w_pools w1 p = Some (pool\<lparr>p_nodes := nodes\<rparr>)"
    using pool by (auto simp: served_def)
  from r Nil pool w1(1) a p1 have w': "w' = mutex_unlock (set_pool w1 p (pool\<lparr>p_nodes := nodes,
      p_cleanups := \<lparr>cn_addr = a, cn_data = data, cn_handler = handler\<rparr> # p_cleanups pool\<rparr>)) (p_mutex pool)"
    by (simp add: fpx_pool_cleanup_add1_def Let_def)
  then have "pool_ok w' p" by (auto intro!: pool_ok_cong [OF w1(2) p1])
  with w' w1(3,4) a show ?thesis by auto
qed

lemma fpx_get_npages_index:
  assumes "unat s + 48 < 2 ^ 64"
  shows "unat (fpx_get_npages 4096 s - 1) = (unat s + 48) div 4096"
  using fpx_get_npages_unat [OF assms refl] unat_minus64 [of 1 "fpx_get_npages 4096 s"] by simp

lemma fpx_get_npages_wrap:
  assumes "2 ^ 64 \<le> unat s + 48"
  shows "fpx_get_npages 4096 s = 1"
proof -
  have "unat (s + 48) < 48"
    using assms unat64_less [of s] by (simp add: unat_word_ariths mod_if) linarith
  then show ?thesis by (simp add: fpx_get_npages_def Let_def word_less_nat_alt)
qed

text \<open>
  A request for more than the largest slot takes a block of its own
  from the system allocator and registers \<open>fpx_free\<close> for it as the newest cleanup handler of
  the pool, so that clearing or destroying the pool gives the block back. The pool stays
  well-formed. The function releases the pool's mutex without having locked it: a caller
  that holds the mutex loses one level of it.
\<close>

theorem fpx_palloc1_large:
  assumes "pool_ok w p" "w_pools w p = Some pool" "malloc_ok (w_malloc w)"
    and "85968 < unat sz" "unat sz < 2 ^ 64 - 56"
    and "w_malloc w (w_live w) (fpx_align_allocation sz) \<noteq> NULL"
    and "fpx_palloc1 w p sz = Some (w', mem)"
  shows "mem = w_malloc w (w_live w) (fpx_align_allocation sz) \<and>
     (mem, fpx_align_allocation sz) \<in> set (w_live w') \<and> pool_ok w' p \<and>
     (\<exists>a pool'. w_pools w' p = Some pool' \<and>
        p_cleanups pool' = \<lparr>cn_addr = a, cn_data = mem, cn_handler = fpx_free_handler\<rparr> # p_cleanups pool) \<and>
     w_locks w' = (w_locks w)(p_mutex pool := w_locks w (p_mutex pool) - 1)"
proof -
  let ?s = "fpx_align_allocation sz"
  have s: "unat ?s = (unat sz + 7) div 8 * 8"
    using assms(4,5) by (simp add: fpx_align_allocation_unat)
  then have s_lo: "85968 < unat ?s" and s_hi: "unat ?s + 48 < 2 ^ 64"
    using assms(4,5) round8 [of "unat sz"] by linarith+
  define m where "m = w_malloc w (w_live w) ?s"
  define w1 where "w1 = w\<lparr>w_live := (m, ?s) # w_live w, w_counter := w_counter w + ?s\<rparr>"
  have page: "w_page w = 4096" using assms(1) by (simp add: pool_ok_def)
  have big: "fpx_get_npages 4096 ?s - 1 > of_nat FPX_MAX_POOL_SLOT"
    using fpx_get_npages_index [OF s_hi] s_lo by (simp add: word_less_nat_alt FPX_MAX_POOL_SLOT_def)
  have "?s \<noteq> 0" using s_lo by auto
  then obtain w2 where w2: "fpx_pool_cleanup_add1 w1 p m fpx_free_handler = Some w2"
    and r: "w' = mutex_unlock w2 (p_mutex pool)" "mem = m"
    using assms(2,6,7) page big
    by (auto simp: fpx_palloc1_def fpx_malloc1_def Let_def m_def w1_def split: Option.bind_splits)
  have f: "unat m + unat ?s < 2 ^ 64" "\<forall>(b, t)\<in>set (w_live w). m \<noteq> b \<and> apart m ?s b t"
    using assms(3,6) unfolding malloc_ok_def m_def by blast+
  have "nodes_ok 4096 ((m, ?s) # w_live w) (p_nodes pool)"
    using assms(1,2) node_ok_mono [of "w_live w" _ "(m, ?s) # w_live w"]
    unfolding pool_ok_def nodes_ok_def by auto
  moreover have "live_ok ((m, ?s) # w_live w)"
    using assms(1) f(2) by (auto simp: pool_ok_def live_ok_def apart_def)
  ultimately have "pool_ok w1 p" using assms(2) page by (simp add: pool_ok_def w1_def)
  from fpx_pool_cleanup_add1_ok [OF this _ _ w2] assms(2,3) show ?thesis
    by (auto simp: r w1_def m_def intro: pool_ok_cong)
qed

definition large_world :: world where
  "large_world = demo_world\<lparr>w_pools := [4144 \<mapsto> demo_pool\<lparr>p_free_cleanups :=
     [\<lparr>cn_addr = 4400, cn_data = 0, cn_handler = 0\<rparr>]\<rparr>]\<rparr>"

lemma large_world_ok: "pool_ok large_world 4144" "malloc_ok (w_malloc large_world)"
  using demo_world_ok by (simp_all add: pool_ok_def large_world_def)

lemma large_request:
  "fpx_align_allocation 100000 = 100000" "fpx_get_npages 4096 100000 = 25"
  "bump_malloc [(4096, 4096)] 100000 = 8208"
  by (code_simp, code_simp, simp add: bump_malloc_def)

lemma large_world_run:
  "\<exists>w'. fpx_palloc1 large_world 4144 100000 = Some (w', 8208)"
  by (simp add: fpx_palloc1_def large_request fpx_malloc1_def large_world_def demo_world_def
      world0_def FPX_MAX_POOL_SLOT_def fpx_pool_cleanup_add1_def Let_def set_pool_def mutex_lock_def)

theorem fpx_palloc1_large_witness:
  "\<exists>w'. fpx_palloc1 large_world 4144 100000 = Some (w', 8208) \<and>
     (8208, 100000) \<in> set (w_live w') \<and> pool_ok w' 4144"
proof -
  obtain w' where r: "fpx_palloc1 large_world 4144 100000 = Some (w', 8208)"
    using large_world_run by blast
  have "w_malloc large_world (w_live large_world) (fpx_align_allocation 100000) \<noteq> NULL"
    by (simp add: large_request large_world_def demo_world_def world0_def)
  with fpx_palloc1_large [OF large_world_ok(1) _ large_world_ok(2) _ _ _ r]
  show ?thesis using r by (simp add: large_world_def large_request)
qed

lemma palloc_slot_20:
  assumes "pool_ok w p" "w_malloc w (w_live w) 86016 \<noteq> NULL"
    and a: "81872 \<le> unat (fpx_align_allocation sz)" "unat (fpx_align_allocation sz) < 85968"
  shows "fpx_palloc1 w p sz = None"
proof -
  let ?s = "fpx_align_allocation sz"
  obtain pool where pool: "w_pools w p = Some pool" and page: "w_page w = 4096"
    and n: "length (p_nodes pool) = 20"
    using assms(1) by (auto simp: pool_ok_def nodes_ok_def FPX_MAX_POOL_SLOT_def split: option.splits)
  have "unat (fpx_get_npages 4096 ?s) = 21" using a fpx_get_npages_unat [of ?s 4096] by simp
  then have i: "fpx_get_npages 4096 ?s = 21" by (simp add: word_unat_eq_iff)
  have "?s \<noteq> 0" using a by auto
  then show ?thesis using pool page n i assms(2)
    by (simp add: fpx_palloc1_def palloc_nodes_def Let_def FPX_MAX_POOL_SLOT_def
        fpx_memnode_allocate_def fpx_malloc1_def)
qed

lemma palloc_wrapped:
  assumes "pool_ok w p" "w_malloc w (w_live w) 4096 \<noteq> NULL"
    and a: "2 ^ 64 - 48 \<le> unat (fpx_align_allocation sz)"
  shows "\<exists>w' a. fpx_palloc1 w p sz = Some (w', a + 48) \<and> (a, 4096) \<in> set (w_live w')"
proof -
  let ?s = "fpx_align_allocation sz"
  obtain pool where pool: "w_pools w p = Some pool" and page: "w_page w = 4096"
    and n: "nodes_ok 4096 (w_live w) (p_nodes pool)"
    using assms(1) by (auto simp: pool_ok_def split: option.splits)
  have i: "fpx_get_npages 4096 ?s = 1" using a by (intro fpx_get_npages_wrap) simp
  have "mn_size_avail nd < ?s" if "nd \<in> set (concat (p_nodes pool))" for nd
  proof -
    have "node_ok (w_live w) nd" using n that unfolding nodes_ok_def by blast
    then show ?thesis using a by (simp add: node_ok_def word_less_nat_alt)
  qed
  then have f: "alloc_slots ?s (p_nodes pool) = None" by (intro alloc_slots_too_big) blast
  have "?s \<noteq> 0" using a by auto
  then show ?thesis using pool page i f assms(2)
    by (auto simp: fpx_palloc1_def palloc_nodes_def Let_def FPX_MAX_POOL_SLOT_def
        fpx_memnode_allocate_def fpx_malloc1_def)
qed

text \<open>
  C26 (fpx_palloc1_unsafe_sizes). Two ranges of sizes break the function on every well-formed
  pool while memory is available. Aligned sizes from 81872 to 85967 give slot index 20, which
  the guard \<open>index > FPX_MAX_POOL_SLOT\<close> lets pass, and the store to \<open>nodes[20]\<close> is outside the
  array. For sizes whose sum with the node header exceeds 64 bits the page count wraps to 1:
  the call "succeeds" and returns the 4048 usable bytes of a one-page block.
\<close>

theorem fpx_palloc1_unsafe_sizes:
  assumes "pool_ok w p" "w_malloc w (w_live w) 86016 \<noteq> NULL" "w_malloc w (w_live w) 4096 \<noteq> NULL"
  shows "(81872 \<le> unat (fpx_align_allocation sz) \<and> unat (fpx_align_allocation sz) < 85968 \<longrightarrow>
            fpx_palloc1 w p sz = None) \<and>
         (2 ^ 64 - 48 \<le> unat (fpx_align_allocation sz) \<longrightarrow>
            (\<exists>w' a. fpx_palloc1 w p sz = Some (w', a + 48) \<and> (a, 4096) \<in> set (w_live w')))"
  using assms palloc_slot_20 palloc_wrapped by blast

theorem fpx_palloc1_unsafe_sizes_witness:
  "fpx_palloc1 demo_world 4144 82000 = None \<and>
   (\<exists>w' a. fpx_palloc1 demo_world 4144 (- 16) = Some (w', a + 48) \<and> (a, 4096) \<in> set (w_live w'))"
proof -
  have m: "w_malloc demo_world (w_live demo_world) 86016 \<noteq> NULL"
    "w_malloc demo_world (w_live demo_world) 4096 \<noteq> NULL"
    by (simp_all add: demo_world_def world0_def bump_malloc_def)
  have "unat (fpx_align_allocation 82000) = 82000" "unat (fpx_align_allocation (- 16)) = 2 ^ 64 - 16"
    by (simp_all add: fpx_align_allocation_unat)
  with fpx_palloc1_unsafe_sizes [OF demo_world_ok(1) m, of 82000]
    fpx_palloc1_unsafe_sizes [OF demo_world_ok(1) m, of "- 16"]
  show ?thesis by simp
qed

section \<open>Creating pools\<close>

text \<open>The node that carries the pool structure, with \<open>k\<close> bytes taken off its front.\<close>

definition carve :: "size_t \<Rightarrow> memnode \<Rightarrow> memnode" where
  "carve k n = n\<lparr>mn_begin := mn_begin n + k, mn_size := mn_size n - k,
     mn_first_avail := mn_begin n + k, mn_size_avail := mn_size n - k\<rparr>"

lemma carve_ok:
  assumes n: "node_ok live n" and k: "unat k \<le> unat (mn_size n)"
  shows "node_ok live (carve k n)" "node_used (carve k n) = {}"
    "mn_addr (carve k n) = mn_addr n" "mn_dealloc_size (carve k n) = mn_dealloc_size n"
    "unat (mn_size_avail (carve k n)) = unat (mn_size n) - unat k"
proof -
  have "unat (mn_begin n + k) = unat (mn_begin n) + unat k"
    using n k by (intro unat_plus64) (simp add: node_ok_def)
  moreover have "unat (mn_size n - k) = unat (mn_size n) - unat k"
    using k by (rule unat_minus64)
  ultimately show "node_ok live (carve k n)"
    "unat (mn_size_avail (carve k n)) = unat (mn_size n) - unat k"
    using n k by (simp_all add: node_ok_def carve_def)
qed (simp_all add: carve_def node_used_def)

lemma nodes_ok_single:
  assumes "node_ok live n" "k < 20" "mn_dealloc_size n = of_nat (Suc k) * page"
  shows "nodes_ok page live ((replicate 20 [])[k := [n]])" "concat ((replicate 20 [])[k := [n]]) = [n]"
proof -
  show c: "concat ((replicate 20 [])[k := [n]]) = [n]"
    using assms(2) by (simp add: upd_conv_take_nth_drop)
  show "nodes_ok page live ((replicate 20 [])[k := [n]])"
    unfolding nodes_ok_def c using assms by (auto simp: FPX_MAX_POOL_SLOT_def nth_list_update)
qed

lemma fpx_pool_add_child_eq:
  assumes "w_pools w parent = Some pp" "w_pools w c = Some cp" "c \<noteq> parent"
  shows "fpx_pool_add_child w parent c = Some (w\<lparr>w_pools := (w_pools w)
     (parent \<mapsto> pp\<lparr>p_child := c\<rparr>, c \<mapsto> cp\<lparr>p_parent := parent, p_brother := p_child pp\<rparr>)\<rparr>)"
  using assms by (auto simp: fpx_pool_add_child_def Let_def set_pool_def fun_upd_twist)

text \<open>
  The pool that \<open>fpx_pool_create\<close> makes of a fresh node: the structure and, for a root pool,
  its mutex at the start of the node, and everything after them free.
\<close>

definition new_pool :: "world \<Rightarrow> nat \<Rightarrow> memnode \<Rightarrow> addr \<Rightarrow> fpx_pool" where
  "new_pool w k n parent =
     \<lparr>p_nodes = (replicate 20 [])[k := [carve (if parent = NULL then 256 else 216) n]],
      p_parent = NULL, p_brother = NULL, p_child = NULL, p_cleanups = [], p_free_cleanups = [],
      p_mutex = (if parent = NULL then mn_begin n + 216 else p_mutex (the (w_pools w parent))),
      p_owner = w_thread w\<rparr>"

lemma fpx_pool_create_eq:
  assumes "w_page w = 4096" "w_mutex_init w = FPX_OK"
    and k: "unat (fpx_align_allocation sz) + 264 < 81920" "fpx_align_allocation sz \<noteq> 0"
    and parent: "parent \<noteq> NULL \<Longrightarrow> w_pools w parent \<noteq> None"
  defines "np \<equiv> fpx_get_npages 4096 (fpx_align_allocation sz + 216)"
  shows "fpx_pool_create w sz parent =
    (case fpx_memnode_allocate w (np * 4096) of
       (w, None) \<Rightarrow> Some (w_errno w, NULL, w)
     | (w, Some n) \<Rightarrow>
         map_option (\<lambda>w'. (FPX_OK, mn_begin n, w'))
           (let w1 = set_pool w (mn_begin n) (new_pool w (unat (np - 1)) n parent) in
            if parent \<noteq> NULL then fpx_pool_add_child w1 parent (mn_begin n) else Some w1))"
    and "unat np = (unat (fpx_align_allocation sz) + 264) div 4096 + 1" "unat (np - 1) < 20"
proof -
  have a: "unat (fpx_align_allocation sz + 216) = unat (fpx_align_allocation sz) + 216"
    using k by (simp add: unat_word_ariths)
  then show np: "unat np = (unat (fpx_align_allocation sz) + 264) div 4096 + 1"
    unfolding np_def using k fpx_get_npages_unat [of "fpx_align_allocation sz + 216" 4096] by simp
  then show i: "unat (np - 1) < 20" using unat_minus64 [of 1 np] k by simp
  then have "\<not> np - 1 > of_nat FPX_MAX_POOL_SLOT" "\<not> unat (np - 1) \<ge> FPX_MAX_POOL_SLOT"
    by (simp_all add: FPX_MAX_POOL_SLOT_def word_less_nat_alt)
  moreover have "w_pools w1 parent = w_pools w parent \<and> w_mutex_init w1 = FPX_OK \<and> w_thread w1 = w_thread w"
    if "fpx_memnode_allocate w s = (w1, r)" for w1 r s
    using that assms(2) by (auto simp: fpx_memnode_allocate_def fpx_malloc1_def Let_def split: if_splits)
  ultimately show "fpx_pool_create w sz parent =
    (case fpx_memnode_allocate w (np * 4096) of
       (w, None) \<Rightarrow> Some (w_errno w, NULL, w)
     | (w, Some n) \<Rightarrow>
         map_option (\<lambda>w'. (FPX_OK, mn_begin n, w'))
           (let w1 = set_pool w (mn_begin n) (new_pool w (unat (np - 1)) n parent) in
            if parent \<noteq> NULL then fpx_pool_add_child w1 parent (mn_begin n) else Some w1))"
    using assms(1,4) parent
    by (auto simp: fpx_pool_create_def Let_def np_def [symmetric] new_pool_def carve_def
        FPX_MAX_POOL_SLOT_def split: prod.splits option.splits Option.bind_splits)
      (simp_all add: add.commute)
qed

lemma in_block_apart:
  assumes "apart a s b t" "in_block a s x" "in_block b t y"
  shows "x \<noteq> y"
  using assms by (auto simp: apart_def in_block_def)

text \<open>
  Creating a pool of up to 81648 bytes, as a root or under
  a live parent, is defined; when the system has no memory it reports errno and changes
  nothing, and otherwise it gives a well-formed pool owned by the calling thread from which
  nothing has been handed out, with no cleanup handlers and no children, linked as the first
  child of its parent in front of the parent's former first child and sharing its mutex.
\<close>

theorem fpx_pool_create_establishes:
  assumes "malloc_ok (w_malloc w)" "live_ok (w_live w)" "w_page w = 4096" "w_mutex_init w = FPX_OK"
    and "unat sz \<le> 81648"
    and "parent = NULL \<or> (\<exists>a t. w_pools w parent = Some pp \<and> (a, t) \<in> set (w_live w) \<and> in_block a t parent)"
  shows "\<exists>err p w'. fpx_pool_create w sz parent = Some (err, p, w') \<and>
    (if p = NULL then err = w_errno w \<and> w' = w
     else err = FPX_OK \<and> pool_ok w' p \<and>
       (\<exists>pool. w_pools w' p = Some pool \<and> used (p_nodes pool) = {} \<and> p_cleanups pool = [] \<and>
          p_free_cleanups pool = [] \<and> p_child pool = NULL \<and> p_parent pool = parent \<and>
          p_owner pool = w_thread w \<and>
          (parent \<noteq> NULL \<longrightarrow> p_brother pool = p_child pp \<and> p_mutex pool = p_mutex pp \<and>
             w_pools w' parent = Some (pp\<lparr>p_child := p\<rparr>))))"
proof -
  let ?a = "fpx_align_allocation sz"
  define np where "np = fpx_get_npages 4096 (?a + 216)"
  have "(unat sz + 7) div 8 \<le> 10206" using assms(5) by simp
  then have k: "unat ?a + 264 < 81920" "?a \<noteq> 0"
    using assms(5) fpx_align_allocation_small(2) [of sz] by (simp_all add: fpx_align_allocation_unat)
  have par: "w_pools w parent \<noteq> None" if "parent \<noteq> NULL" using assms(6) that by auto
  note eq = fpx_pool_create_eq [OF assms(3,4) k par, folded np_def]
  have size: "unat (np * 4096) = (unat np) * 4096" using eq(2) k by (simp add: unat_word_ariths)
  then have big: "4096 \<le> unat (np * 4096)" using eq(2) by simp
  then have s48: "48 \<le> unat (np * 4096)" by simp
  show ?thesis
  proof (cases "fpx_memnode_allocate w (np * 4096)")
    case (Pair w1 res)
    show ?thesis
    proof (cases res)
      case None
      with Pair have "w1 = w"
        by (auto simp: fpx_memnode_allocate_def fpx_malloc1_def Let_def split: if_splits)
      with Pair None eq(1) show ?thesis by simp
    next
      case (Some n)
      note f = memnode_allocate_ok [OF assms(1) s48 Pair [unfolded Some]]
      let ?live = "(mn_addr n, mn_dealloc_size n) # w_live w"
      define c0 :: size_t where "c0 = (if parent = NULL then 256 else 216)"
      have "unat (mn_size n) = unat (mn_size_avail n)" using f(4,6) by (auto simp: node_ok_def)
      then have c: "unat c0 \<le> unat (mn_size n)" using f(5) big
        by (cases "parent = NULL") (simp_all add: c0_def)
      note cv = carve_ok [OF f(4) c]
      have "mn_dealloc_size (carve c0 n) = of_nat (Suc (unat (np - 1))) * 4096"
        using cv(4) f(2) by simp
      note single = nodes_ok_single [OF cv(1) eq(3) this]
      define pool where "pool = new_pool w1 (unat (np - 1)) n parent"
      have nodes: "p_nodes pool = (replicate 20 [])[unat (np - 1) := [carve c0 n]]"
        by (simp add: pool_def new_pool_def c0_def)
      have "concat (p_nodes pool) = [carve c0 n]" using nodes single(2) by simp
      then have u: "used (p_nodes pool) = {}" using cv(2) by (simp only: used_def) simp
      have p: "mn_begin n \<noteq> NULL" using f(4) by (auto simp: node_ok_def)
      have lw: "w_live w1 = ?live" "w_page w1 = 4096" "w_pools w1 = w_pools w" "w_thread w1 = w_thread w"
        using f(1) assms(3) by simp_all
      have ok: "pool_ok w' (mn_begin n)" if "w_live w' = ?live" "w_page w' = 4096"
        "w_pools w' (mn_begin n) = Some q" "p_nodes q = p_nodes pool" for w' q
        using that single(1) f(7) [OF assms(2)] by (simp add: pool_ok_def nodes)
      show ?thesis
      proof (cases "parent = NULL")
        case True
        have "fpx_pool_create w sz parent = Some (FPX_OK, mn_begin n, set_pool w1 (mn_begin n) pool)"
          using eq(1) Pair Some True by (simp add: pool_def)
        with ok [of "set_pool w1 (mn_begin n) pool" pool] lw p u True show ?thesis
          by (auto simp: pool_def new_pool_def)
      next
        case False
        with assms(6) obtain a t where pp: "w_pools w parent = Some pp" "(a, t) \<in> set (w_live w)"
          "in_block a t parent" by blast
        have "a \<noteq> mn_addr n" using pp(2) f(3) by force
        then have "apart (mn_addr n) (mn_dealloc_size n) a t"
          using f(7) [OF assms(2)] pp(2) by (auto simp: live_ok_def)
        moreover have "in_block (mn_addr n) (mn_dealloc_size n) (mn_begin n)"
          using f(4) c by (auto simp: node_ok_def in_block_def c0_def split: if_splits)
        ultimately have ne: "mn_begin n \<noteq> parent" using pp(3) in_block_apart by blast
        define w' where "w' = w1\<lparr>w_pools := (w_pools w1)(mn_begin n \<mapsto> pool,
           parent \<mapsto> pp\<lparr>p_child := mn_begin n\<rparr>,
           mn_begin n \<mapsto> pool\<lparr>p_parent := parent, p_brother := p_child pp\<rparr>)\<rparr>"
        have "fpx_pool_create w sz parent = Some (FPX_OK, mn_begin n, w')"
          using eq(1) Pair Some False ne pp(1) lw(3)
            fpx_pool_add_child_eq [of "set_pool w1 (mn_begin n) pool" parent pp "mn_begin n" pool]
          by (simp add: pool_def [symmetric] w'_def set_pool_def)
        with ok [of w' "pool\<lparr>p_parent := parent, p_brother := p_child pp\<rparr>"] lw p u False ne pp(1)
        show ?thesis by (auto simp: w'_def pool_def new_pool_def)
      qed
    qed
  qed
qed

theorem fpx_pool_create_establishes_witness:
  "\<exists>err p w'. fpx_pool_create demo_world 1000 4144 = Some (err, p, w') \<and>
     (if p = NULL then err = w_errno demo_world \<and> w' = demo_world
      else err = FPX_OK \<and> pool_ok w' p \<and> w_pools w' 4144 = Some (demo_pool\<lparr>p_child := p\<rparr>))"
proof -
  have i: "w_mutex_init demo_world = FPX_OK" by (simp add: demo_world_def world0_def)
  have "(4096, 4096) \<in> set (w_live demo_world) \<and> in_block 4096 4096 4144"
    by (simp add: demo_world_def in_block_def)
  then have "(4144 :: addr) = NULL \<or> (\<exists>a t. w_pools demo_world 4144 = Some demo_pool \<and>
      (a, t) \<in> set (w_live demo_world) \<and> in_block a t 4144)"
    using demo_world_ok(5) by blast
  from fpx_pool_create_establishes [OF demo_world_ok(2,3,4) i _ this, of 1000]
  show ?thesis by (auto split: if_splits)
qed

section \<open>Cleanup handlers\<close>

lemma unlink_cleanup_found:
  "is_cleanup data handler n \<Longrightarrow> \<forall>m\<in>set A. \<not> is_cleanup data handler m \<Longrightarrow>
     unlink_cleanup data handler (A @ n # B) = Some (n, A @ B)"
  by (induction A) auto

lemma unlink_cleanup_none:
  "\<forall>m\<in>set ns. \<not> is_cleanup data handler m \<Longrightarrow> unlink_cleanup data handler ns = None"
  by (induction ns) auto

text \<open>
  C27 (fpx_pool_cleanup_run_remove). Running or removing a registration takes the newest
  matching one out of the list, keeps the order of the others, reserves its node for reuse,
  and \<open>fpx_pool_cleanup_run\<close> calls its handler exactly once; both leave the lock as it was.
  When nothing matches, both return with the mutex of the pool still held.
\<close>

theorem fpx_pool_cleanup_run_remove:
  assumes "w_pools w p = Some pool" "handler \<noteq> fpx_free_handler"
  shows "(\<forall>A n B. p_cleanups pool = A @ n # B \<and> is_cleanup data handler n \<and>
            (\<forall>m\<in>set A. \<not> is_cleanup data handler m) \<longrightarrow>
          (\<exists>w'. fpx_pool_cleanup_run1 w p data handler = Some w' \<and>
             w_calls w' = w_calls w @ [(handler, data)] \<and> w_locks w' = w_locks w \<and>
             w_pools w' = (w_pools w)(p \<mapsto> pool\<lparr>p_cleanups := A @ B,
                p_free_cleanups := n # p_free_cleanups pool\<rparr>)) \<and>
          (\<exists>w'. fpx_pool_cleanup_remove1 w p data handler = Some w' \<and>
             w_calls w' = w_calls w \<and> w_locks w' = w_locks w \<and>
             w_pools w' = (w_pools w)(p \<mapsto> pool\<lparr>p_cleanups := A @ B,
                p_free_cleanups := n # p_free_cleanups pool\<rparr>))) \<and>
         ((\<forall>m\<in>set (p_cleanups pool). \<not> is_cleanup data handler m) \<longrightarrow>
            fpx_pool_cleanup_run1 w p data handler = Some (mutex_lock w (p_mutex pool)) \<and>
            fpx_pool_cleanup_remove1 w p data handler = Some (mutex_lock w (p_mutex pool)) \<and>
            w_locks (mutex_lock w (p_mutex pool)) (p_mutex pool) = Suc (w_locks w (p_mutex pool)))"
proof (intro conjI allI impI)
  fix A n B
  assume a: "p_cleanups pool = A @ n # B \<and> is_cleanup data handler n \<and>
    (\<forall>m\<in>set A. \<not> is_cleanup data handler m)"
  then have u: "unlink_cleanup data handler (p_cleanups pool) = Some (n, A @ B)"
    by (simp add: unlink_cleanup_found)
  show "\<exists>w'. fpx_pool_cleanup_run1 w p data handler = Some w' \<and>
     w_calls w' = w_calls w @ [(handler, data)] \<and> w_locks w' = w_locks w \<and>
     w_pools w' = (w_pools w)(p \<mapsto> pool\<lparr>p_cleanups := A @ B, p_free_cleanups := n # p_free_cleanups pool\<rparr>)"
    using assms a u
    by (simp add: fpx_pool_cleanup_run1_def Let_def call_handler_def is_cleanup_def)
  show "\<exists>w'. fpx_pool_cleanup_remove1 w p data handler = Some w' \<and>
     w_calls w' = w_calls w \<and> w_locks w' = w_locks w \<and>
     w_pools w' = (w_pools w)(p \<mapsto> pool\<lparr>p_cleanups := A @ B, p_free_cleanups := n # p_free_cleanups pool\<rparr>)"
    using assms u by (simp add: fpx_pool_cleanup_remove1_def Let_def)
qed (use assms in \<open>simp_all add: fpx_pool_cleanup_run1_def fpx_pool_cleanup_remove1_def Let_def
    unlink_cleanup_none\<close>)

definition cleanup_demo :: world where
  "cleanup_demo = demo_world\<lparr>w_pools := [4144 \<mapsto> demo_pool\<lparr>p_cleanups :=
     [\<lparr>cn_addr = 4448, cn_data = 7, cn_handler = 9\<rparr>, \<lparr>cn_addr = 4424, cn_data = 5, cn_handler = 9\<rparr>]\<rparr>]\<rparr>"

theorem fpx_pool_cleanup_run_remove_witness:
  "(\<exists>w'. fpx_pool_cleanup_run1 cleanup_demo 4144 5 9 = Some w' \<and> w_calls w' = [(9, 5)]) \<and>
   (\<exists>w'. fpx_pool_cleanup_run1 cleanup_demo 4144 6 9 = Some w' \<and> w_locks w' 4360 = 1)"
proof -
  let ?pool = "demo_pool\<lparr>p_cleanups :=
     [\<lparr>cn_addr = 4448, cn_data = 7, cn_handler = 9\<rparr>, \<lparr>cn_addr = 4424, cn_data = 5, cn_handler = 9\<rparr>]\<rparr>"
  have p: "w_pools cleanup_demo 4144 = Some ?pool" "(9 :: handler) \<noteq> fpx_free_handler"
    by (simp_all add: cleanup_demo_def fpx_free_handler_def)
  from fpx_pool_cleanup_run_remove [OF p, of 5, THEN conjunct1, THEN spec [of _ "[\<lparr>cn_addr = 4448, cn_data = 7, cn_handler = 9\<rparr>]"],
      THEN spec [of _ "\<lparr>cn_addr = 4424, cn_data = 5, cn_handler = 9\<rparr>"], THEN spec [of _ "[]"]]
  have 1: "\<exists>w'. fpx_pool_cleanup_run1 cleanup_demo 4144 5 9 = Some w' \<and> w_calls w' = [(9, 5)]"
    by (auto simp: is_cleanup_def cleanup_demo_def demo_world_def world0_def)
  from fpx_pool_cleanup_run_remove [OF p, of 6, THEN conjunct2] show ?thesis
    using 1 by (simp add: is_cleanup_def cleanup_demo_def demo_world_def world0_def demo_pool_def)
qed

section \<open>Clearing a tree of pools\<close>

text \<open>
  A tree of pools linked through \<open>child\<close> and \<open>brother\<close>, all owned by the calling thread; the
  handler calls that clearing it makes, in order; and the world after clearing it.
\<close>

datatype ptree = Pool (root: addr) (kids: "ptree list")

primrec addrs :: "ptree \<Rightarrow> addr list" where
  "addrs (Pool a ts) = a # concat (map addrs ts)"

abbreviation addrs_of :: "ptree list \<Rightarrow> addr list" where
  "addrs_of ts \<equiv> concat (map addrs ts)"

definition cleanup_calls :: "cleanup_node list \<Rightarrow> (handler \<times> addr) list" where
  "cleanup_calls ns = map (\<lambda>n. (cn_handler n, cn_data n)) ns"

primrec tree_calls :: "(addr \<rightharpoonup> fpx_pool) \<Rightarrow> ptree \<Rightarrow> (handler \<times> addr) list" where
  "tree_calls P (Pool a ts) = cleanup_calls (p_cleanups (the (P a))) @ concat (map (tree_calls P) ts)"

abbreviation calls_of :: "(addr \<rightharpoonup> fpx_pool) \<Rightarrow> ptree list \<Rightarrow> (handler \<times> addr) list" where
  "calls_of P ts \<equiv> concat (map (tree_calls P) ts)"

fun chain_ok :: "(addr \<rightharpoonup> fpx_pool) \<Rightarrow> addr \<Rightarrow> addr list \<Rightarrow> bool" where
  "chain_ok P b [] \<longleftrightarrow> b = NULL"
| "chain_ok P b (a # as) \<longleftrightarrow> b = a \<and> chain_ok P (p_brother (the (P a))) as"

primrec tree_ok :: "(addr \<rightharpoonup> fpx_pool) \<Rightarrow> thread \<Rightarrow> ptree \<Rightarrow> bool" where
  "tree_ok P t (Pool a ts) \<longleftrightarrow> a \<noteq> NULL \<and> P a \<noteq> None \<and> p_owner (the (P a)) = t \<and>
     chain_ok P (p_child (the (P a))) (map root ts) \<and> list_all (tree_ok P t) ts"

definition forest_ok :: "(addr \<rightharpoonup> fpx_pool) \<Rightarrow> thread \<Rightarrow> addr \<Rightarrow> ptree list \<Rightarrow> bool" where
  "forest_ok P t b ts \<longleftrightarrow> chain_ok P b (map root ts) \<and> list_all (tree_ok P t) ts"

definition clear_pool :: "fpx_pool \<Rightarrow> fpx_pool" where
  "clear_pool pool = pool\<lparr>p_nodes := map (map reset_node) (p_nodes pool), p_cleanups := [],
     p_free_cleanups := rev (p_cleanups pool) @ p_free_cleanups pool\<rparr>"

definition clear_world :: "addr list \<Rightarrow> (handler \<times> addr) list \<Rightarrow> world \<Rightarrow> world" where
  "clear_world as cs w = w\<lparr>
     w_pools := (\<lambda>q. if q \<in> set as then map_option clear_pool (w_pools w q) else w_pools w q),
     w_calls := w_calls w @ cs,
     w_live := filter (\<lambda>(a, _). (fpx_free_handler, a) \<notin> set cs) (w_live w)\<rparr>"

text \<open>The blocks that the calls give back are live, different, and hold no pool structure.\<close>

definition freeable :: "world \<Rightarrow> (handler \<times> addr) list \<Rightarrow> bool" where
  "freeable w cs \<longleftrightarrow> distinct (map snd (filter (\<lambda>c. fst c = fpx_free_handler) cs)) \<and>
     (\<forall>(h, d)\<in>set cs. h = fpx_free_handler \<longrightarrow> d \<noteq> NULL \<and>
        (\<exists>s. map_of (w_live w) d = Some s \<and> (\<forall>q. w_pools w q \<noteq> None \<longrightarrow> \<not> in_block d s q)))"

lemma root_in_addrs [simp]: "root t \<in> set (addrs t)"
  by (cases t) simp

lemma map_of_filter_key: "P k \<Longrightarrow> map_of (filter (\<lambda>(a, _). P a) xs) k = map_of xs k"
  by (induction xs) auto

lemma freeableD:
  assumes "freeable w cs" "(fpx_free_handler, d) \<in> set cs"
  shows "d \<noteq> NULL \<and> (\<exists>s. map_of (w_live w) d = Some s \<and> (\<forall>q. w_pools w q \<noteq> None \<longrightarrow> \<not> in_block d s q))"
  using bspec [OF assms(1) [unfolded freeable_def, THEN conjunct2] assms(2)] by simp

lemma freeable_append:
  assumes "freeable w (cs @ ds)"
    and "w_live w' = filter (\<lambda>(a, _). (fpx_free_handler, a) \<notin> set cs) (w_live w)"
    and "\<And>q. w_pools w' q \<noteq> None \<Longrightarrow> w_pools w q \<noteq> None"
  shows "freeable w cs" "freeable w' ds"
proof -
  show "freeable w cs" using assms(1) by (auto simp: freeable_def)
  have "d \<noteq> NULL \<and> (\<exists>s. map_of (w_live w') d = Some s \<and> (\<forall>q. w_pools w' q \<noteq> None \<longrightarrow> \<not> in_block d s q))"
    if d: "(fpx_free_handler, d) \<in> set ds" for d
  proof -
    have "(fpx_free_handler, d) \<notin> set cs"
      using assms(1) d by (force simp: freeable_def)
    then have "map_of (w_live w') d = map_of (w_live w) d"
      unfolding assms(2) by (rule map_of_filter_key)
    moreover from assms(1) d have "d \<noteq> NULL \<and> (\<exists>s. map_of (w_live w) d = Some s \<and>
        (\<forall>q. w_pools w q \<noteq> None \<longrightarrow> \<not> in_block d s q))"
      by (intro freeableD [OF assms(1)]) simp
    ultimately show ?thesis using assms(3) by metis
  qed
  then show "freeable w' ds" using assms(1) by (auto simp: freeable_def)
qed

lemma fpx_free_freeable:
  assumes "freeable w ((fpx_free_handler, d) # cs)"
  shows "fpx_free w d = Some (w\<lparr>w_live := filter (\<lambda>(a, _). a \<noteq> d) (w_live w)\<rparr>)"
proof -
  from assms obtain s where "d \<noteq> NULL" "map_of (w_live w) d = Some s"
    and q: "\<forall>q. w_pools w q \<noteq> None \<longrightarrow> \<not> in_block d s q"
    by (auto simp: freeable_def)
  moreover have "(\<lambda>p. if in_block d s p then None else w_pools w p) = w_pools w"
    using q by (intro ext) (metis (full_types))
  ultimately show ?thesis by (simp add: fpx_free_def)
qed

lemma run_cleanups_eq:
  "w_pools w p = Some pool \<Longrightarrow> freeable w (cleanup_calls ns) \<Longrightarrow>
   run_cleanups w p ns = Some (w\<lparr>
     w_pools := (w_pools w)(p \<mapsto> pool\<lparr>p_free_cleanups := rev ns @ p_free_cleanups pool\<rparr>),
     w_calls := w_calls w @ cleanup_calls ns,
     w_live := filter (\<lambda>(a, _). (fpx_free_handler, a) \<notin> set (cleanup_calls ns)) (w_live w)\<rparr>)"
proof (induction ns arbitrary: w pool)
  case Nil
  then show ?case by (simp add: cleanup_calls_def map_upd_triv)
next
  case (Cons n ns)
  have c: "cleanup_calls (n # ns) = [(cn_handler n, cn_data n)] @ cleanup_calls ns"
    by (simp add: cleanup_calls_def)
  define w1 where "w1 = w\<lparr>w_calls := w_calls w @ [(cn_handler n, cn_data n)],
     w_live := filter (\<lambda>(a, _). (fpx_free_handler, a) \<notin> {(cn_handler n, cn_data n)}) (w_live w)\<rparr>"
  have h: "call_handler w (cn_handler n) (cn_data n) = Some w1"
  proof (cases "cn_handler n = fpx_free_handler")
    case True
    have "freeable (w\<lparr>w_calls := w_calls w @ [(cn_handler n, cn_data n)]\<rparr>)
        ((fpx_free_handler, cn_data n) # cleanup_calls ns)"
      using Cons.prems(2) True c by (simp add: freeable_def)
    from fpx_free_freeable [OF this] True show ?thesis
      by (simp add: call_handler_def w1_def Let_def)
  next
    case False
    then show ?thesis by (simp add: call_handler_def w1_def)
  qed
  define w2 where "w2 = set_pool w1 p (pool\<lparr>p_free_cleanups := n # p_free_cleanups pool\<rparr>)"
  have fr: "freeable w2 (cleanup_calls ns)"
    using Cons.prems(1)
    by (intro freeable_append(2) [OF Cons.prems(2) [unfolded c]]) (auto simp: w2_def w1_def split: if_splits)
  have "w_pools w2 p = Some (pool\<lparr>p_free_cleanups := n # p_free_cleanups pool\<rparr>)"
    by (simp add: w2_def)
  note IH = Cons.IH [OF this fr]
  have "run_cleanups w2 p ns = Some (w2\<lparr>
     w_pools := (w_pools w2)(p \<mapsto> pool\<lparr>p_free_cleanups := rev ns @ n # p_free_cleanups pool\<rparr>),
     w_calls := w_calls w2 @ cleanup_calls ns,
     w_live := filter (\<lambda>(a, _). (fpx_free_handler, a) \<notin> set (cleanup_calls ns)) (w_live w2)\<rparr>)"
    using IH by (simp add: fun_upd_def)
  moreover have "run_cleanups w p (n # ns) = run_cleanups w2 p ns"
    using h Cons.prems(1) by (simp add: w2_def w1_def)
  ultimately show ?case
    by (simp add: w2_def w1_def c set_pool_def case_prod_beta conj_commute fun_upd_def cong: if_cong)
qed

text \<open>Clearing changes no link of the tree, so the walk sees the tree it started with.\<close>

definition same_links :: "(addr \<rightharpoonup> fpx_pool) \<Rightarrow> (addr \<rightharpoonup> fpx_pool) \<Rightarrow> addr set \<Rightarrow> bool" where
  "same_links P Q A \<longleftrightarrow> (\<forall>a\<in>A. (P a = None \<longleftrightarrow> Q a = None) \<and> p_owner (the (P a)) = p_owner (the (Q a)) \<and>
     p_child (the (P a)) = p_child (the (Q a)) \<and> p_brother (the (P a)) = p_brother (the (Q a)))"

lemma same_links_subset: "same_links P Q A \<Longrightarrow> B \<subseteq> A \<Longrightarrow> same_links P Q B"
  by (auto simp: same_links_def)

lemma chain_ok_cong: "same_links P Q (set as) \<Longrightarrow> chain_ok P b as \<Longrightarrow> chain_ok Q b as"
  by (induction as arbitrary: b) (auto simp: same_links_def)

lemma root_subset: "root ` set ts \<subseteq> set (addrs_of ts)"
  by (induction ts) auto

lemma tree_ok_cong: "tree_ok P th t \<Longrightarrow> same_links P Q (set (addrs t)) \<Longrightarrow> tree_ok Q th t"
proof (induction t)
  case (Pool a ts)
  have "list_all (tree_ok Q th) ts"
    using Pool by (fastforce simp: list_all_iff intro: same_links_subset)
  moreover have "chain_ok Q (p_child (the (P a))) (map root ts)"
  proof (rule chain_ok_cong)
    show "same_links P Q (set (map root ts))"
      using Pool.prems(2) by (rule same_links_subset) (use root_subset [of ts] in auto)
  qed (use Pool.prems(1) in simp)
  ultimately show ?case using Pool.prems by (auto simp: same_links_def)
qed

lemma forest_ok_cong:
  "forest_ok P th b ts \<Longrightarrow> same_links P Q (set (addrs_of ts)) \<Longrightarrow> forest_ok Q th b ts"
  unfolding forest_ok_def
proof (elim conjE, intro conjI)
  assume l: "same_links P Q (set (addrs_of ts))"
  show "chain_ok Q b (map root ts)" if "chain_ok P b (map root ts)"
    by (rule chain_ok_cong [OF same_links_subset [OF l] that]) (use root_subset [of ts] in simp)
  show "list_all (tree_ok Q th) ts" if "list_all (tree_ok P th) ts"
    using l that by (fastforce simp: list_all_iff intro: tree_ok_cong same_links_subset)
qed

lemma tree_calls_cong: "\<forall>a\<in>set (addrs t). P a = Q a \<Longrightarrow> tree_calls P t = tree_calls Q t"
  by (induction t) (auto intro!: arg_cong [where f = concat])

lemma calls_of_cong: "\<forall>a\<in>set (addrs_of ts). P a = Q a \<Longrightarrow> calls_of P ts = calls_of Q ts"
  by (induction ts) (auto intro: tree_calls_cong)

lemma clear_pool_links [simp]:
  "p_owner (clear_pool q) = p_owner q" "p_child (clear_pool q) = p_child q"
  "p_brother (clear_pool q) = p_brother q"
  by (simp_all add: clear_pool_def)

lemma clear_world_sel [simp]:
  "w_thread (clear_world as cs w) = w_thread w" "w_locks (clear_world as cs w) = w_locks w"
  "q \<notin> set as \<Longrightarrow> w_pools (clear_world as cs w) q = w_pools w q"
  "q \<in> set as \<Longrightarrow> w_pools (clear_world as cs w) q = map_option clear_pool (w_pools w q)"
  "w_live (clear_world as cs w) = filter (\<lambda>(a, _). (fpx_free_handler, a) \<notin> set cs) (w_live w)"
  by (simp_all add: clear_world_def)

lemma clear_world_append:
  "set as \<inter> set bs = {} \<Longrightarrow> clear_world bs ds (clear_world as cs w) = clear_world (as @ bs) (cs @ ds) w"
  by (auto simp: clear_world_def fun_eq_iff case_prod_beta conj_commute intro!: world.equality filter_cong)

lemma clear_world_Nil [simp]: "clear_world [] [] w = w"
  by (simp add: clear_world_def case_prod_beta)

lemma pool_clear_brothers:
  assumes tree: "\<And>t w. t \<in> set ts \<Longrightarrow> tree_ok (w_pools w) (w_thread w) t \<Longrightarrow> distinct (addrs t) \<Longrightarrow>
      freeable w (tree_calls (w_pools w) t) \<Longrightarrow>
      pool_clear False w (root t) = Some (clear_world (addrs t) (tree_calls (w_pools w) t) w)"
    and "forest_ok (w_pools w) (w_thread w) b ts" "distinct (addrs_of ts)"
    and "freeable w (calls_of (w_pools w) ts)"
  shows "pool_clear True w b = Some (clear_world (addrs_of ts) (calls_of (w_pools w) ts) w)"
  using assms
proof (induction ts arbitrary: w b)
  case Nil
  then show ?case by (simp add: pool_clear.simps [of True] forest_ok_def)
next
  case (Cons t ts)
  let ?P = "w_pools w" and ?cs = "tree_calls (w_pools w) t"
  let ?w = "clear_world (addrs t) ?cs w"
  have t: "tree_ok ?P (w_thread w) t" and b: "b = root t"
    and f: "forest_ok ?P (w_thread w) (p_brother (the (?P (root t)))) ts"
    using Cons.prems(2) by (auto simp: forest_ok_def)
  obtain pool where pool: "?P (root t) = Some pool" "root t \<noteq> NULL" using t by (cases t) auto
  have d: "set (addrs t) \<inter> set (addrs_of ts) = {}" using Cons.prems(3) by auto
  have ne: "\<forall>a\<in>set (addrs_of ts). a \<notin> set (addrs t)" using d by blast
  have fr: "freeable w ?cs" "freeable ?w (calls_of ?P ts)"
  proof -
    have "freeable w (?cs @ calls_of ?P ts)" using Cons.prems(4) by simp
    note fa = freeable_append [OF this, of ?w]
    have q: "w_pools ?w q \<noteq> None \<Longrightarrow> ?P q \<noteq> None" for q by (cases "q \<in> set (addrs t)") auto
    show "freeable w ?cs" "freeable ?w (calls_of ?P ts)" using fa q by simp_all
  qed
  have c: "calls_of (w_pools ?w) ts = calls_of ?P ts"
    using ne by (intro calls_of_cong) auto
  have "forest_ok (w_pools ?w) (w_thread ?w) (p_brother pool) ts"
    using forest_ok_cong [OF f, of "w_pools ?w"] ne pool by (simp add: same_links_def)
  then have rest: "pool_clear True ?w (p_brother pool) =
      Some (clear_world (addrs_of ts) (calls_of (w_pools ?w) ts) ?w)"
    using Cons.prems fr c by (intro Cons.IH) auto
  have "pool_clear False w (root t) = Some ?w"
    using Cons.prems(1,3) t fr(1) by simp
  then have "pool_clear True w b = pool_clear True ?w (p_brother pool)"
    using pool b by (subst pool_clear.simps) simp
  with rest c clear_world_append [OF d] show ?case by simp
qed

lemma pool_clear_tree:
  "tree_ok (w_pools w) (w_thread w) t \<Longrightarrow> distinct (addrs t) \<Longrightarrow> freeable w (tree_calls (w_pools w) t) \<Longrightarrow>
     pool_clear False w (root t) = Some (clear_world (addrs t) (tree_calls (w_pools w) t) w)"
proof (induction t arbitrary: w)
  case (Pool a ts)
  obtain pool where pool: "w_pools w a = Some pool" "p_owner pool = w_thread w" "a \<noteq> NULL"
    and ch: "chain_ok (w_pools w) (p_child pool) (map root ts)"
      "list_all (tree_ok (w_pools w) (w_thread w)) ts"
    using Pool.prems(1) by auto
  have a: "a \<notin> set (addrs_of ts)" "distinct (addrs_of ts)" using Pool.prems(2) by auto
  let ?cs = "cleanup_calls (p_cleanups pool)" and ?ds = "calls_of (w_pools w) ts"
  have fa: "freeable w (?cs @ ?ds)" using Pool.prems(3) pool by simp
  let ?p1 = "pool\<lparr>p_cleanups := [], p_free_cleanups := rev (p_cleanups pool) @ p_free_cleanups pool\<rparr>"
  define w1 where "w1 = w\<lparr>w_pools := (w_pools w)(a \<mapsto> ?p1), w_calls := w_calls w @ ?cs,
     w_live := filter (\<lambda>(a, _). (fpx_free_handler, a) \<notin> set ?cs) (w_live w)\<rparr>"
  define w2 where "w2 = mutex_lock w1 (p_mutex pool)"
  have "freeable (mutex_lock w (p_mutex pool)) ?cs"
    using fa by (auto simp: freeable_def)
  then have r: "fpx_pool_cleanup_run_all (mutex_lock w (p_mutex pool)) a = Some w2"
    using run_cleanups_eq [of "mutex_lock w (p_mutex pool)" a pool "p_cleanups pool"] pool
    by (auto simp: fpx_pool_cleanup_run_all_def w2_def w1_def set_pool_def mutex_lock_def
        intro!: world.equality)
  have c: "calls_of (w_pools w2) ts = ?ds"
    using a by (intro calls_of_cong) (auto simp: w2_def w1_def)
  have fo: "forest_ok (w_pools w2) (w_thread w2) (p_child pool) ts"
    using forest_ok_cong [of "w_pools w" "w_thread w" "p_child pool" ts "w_pools w2"] ch a
    by (auto simp: forest_ok_def same_links_def w2_def w1_def)
  have "freeable w2 ?ds"
    by (rule freeable_append(2) [OF fa]) (auto simp: w2_def w1_def pool split: if_splits)
  then have kids: "pool_clear True w2 (p_child pool) = Some (clear_world (addrs_of ts) ?ds w2)"
    using pool_clear_brothers [of ts w2 "p_child pool"] Pool.IH fo a c by simp
  then have none: "clear_world (addrs_of ts) ?ds w2 = w2" if "p_child pool = NULL"
    using that by (simp add: pool_clear.simps [of True w2 NULL])
  have p2: "w_pools w2 a = Some ?p1" by (simp add: w2_def w1_def)
  have p3: "w_pools (clear_world (addrs_of ts) ?ds w2) a = Some ?p1" using p2 a by simp
  have "pool_clear False w a = Some (mutex_unlock (set_pool (clear_world (addrs_of ts) ?ds w2) a
      (?p1\<lparr>p_nodes := map (map reset_node) (p_nodes pool)\<rparr>)) (p_mutex pool))"
    using pool r kids none p2 p3
    by (subst pool_clear.simps, cases "p_child pool = NULL") (simp_all add: Let_def)
  moreover have "mutex_unlock (set_pool (clear_world (addrs_of ts) ?ds w2) a
      (?p1\<lparr>p_nodes := map (map reset_node) (p_nodes pool)\<rparr>)) (p_mutex pool) =
      clear_world (a # addrs_of ts) (?cs @ ?ds) w"
    using pool a
    by (auto simp: clear_world_def w2_def w1_def set_pool_def mutex_lock_def mutex_unlock_def
        clear_pool_def fun_eq_iff case_prod_beta conj_commute intro!: world.equality filter_cong)
  ultimately show ?case using pool by simp
qed

text \<open>A node as it was when it was made: the same block, with all of it available again.\<close>

definition node_reset :: "memnode \<Rightarrow> memnode \<Rightarrow> bool" where
  "node_reset n n' \<longleftrightarrow> mn_addr n' = mn_addr n \<and> mn_dealloc_size n' = mn_dealloc_size n \<and>
     mn_begin n' = mn_begin n \<and> mn_size n' = mn_size n \<and> mn_first_avail n' = mn_begin n \<and> mn_size_avail n' = mn_size n"

text \<open>A pool with every node in its place and reset, nothing handed out and no handlers left.\<close>

definition emptied :: "fpx_pool \<Rightarrow> fpx_pool \<Rightarrow> bool" where
  "emptied pool pool' \<longleftrightarrow> list_all2 (list_all2 node_reset) (p_nodes pool) (p_nodes pool') \<and>
     used (p_nodes pool') = {} \<and> fpx_pool_get_free_size pool' = fpx_pool_get_size pool \<and> p_cleanups pool' = []"

lemma reset_node_reset: "node_reset n (reset_node n)"
  by (simp add: node_reset_def reset_node_def)

lemma reset_node_sizes: "mn_size_avail (reset_node n) = mn_size n" "mn_first_avail (reset_node n) = mn_begin n"
  by (simp_all add: reset_node_def)

lemma clear_pool_emptied: "emptied pool (clear_pool pool)"
proof -
  have "used (map (map reset_node) ns) = {}" for ns by (auto simp: used_def node_used_def reset_node_def)
  moreover have "list_all2 (list_all2 node_reset) ns (map (map reset_node) ns)" for ns
    by (auto simp: list_all2_conv_all_nth reset_node_reset)
  ultimately show ?thesis
    by (simp add: emptied_def clear_pool_def fpx_pool_get_free_size_def fpx_pool_get_size_def fold_map comp_def reset_node_sizes)
qed

text \<open>
  C8 (fpx_pool_clear_tree). Clearing the root of a finite tree of pools owned by the calling
  thread returns, with every lock as before. It runs every registered handler of the whole
  tree exactly once, newest first in each pool and each parent before its children, gives
  back exactly the blocks registered with \<open>fpx_free\<close>, and empties every pool of the tree: each
  node keeps its place and its block, its free part starts at its beginning and is all of it, nothing
  is handed out, no handler is left, and the links between the pools are unchanged.
\<close>

theorem fpx_pool_clear_tree:
  assumes "tree_ok (w_pools w) (w_thread w) t" "distinct (addrs t)"
    and "freeable w (tree_calls (w_pools w) t)"
  shows "\<exists>w'. fpx_pool_clear w (root t) = Some w' \<and> w_locks w' = w_locks w \<and>
     w_calls w' = w_calls w @ tree_calls (w_pools w) t \<and>
     w_live w' = filter (\<lambda>(a, _). (fpx_free_handler, a) \<notin> set (tree_calls (w_pools w) t)) (w_live w) \<and>
     (\<forall>q. q \<notin> set (addrs t) \<longrightarrow> w_pools w' q = w_pools w q) \<and>
     (\<forall>q\<in>set (addrs t). \<exists>pool pool'. w_pools w q = Some pool \<and> w_pools w' q = Some pool' \<and>
        emptied pool pool' \<and> p_child pool' = p_child pool \<and> p_brother pool' = p_brother pool)"
proof -
  have all: "\<forall>q\<in>set (addrs t). w_pools w q \<noteq> None"
    using assms(1) by (induction t) (auto simp: list_all_iff)
  show ?thesis using pool_clear_tree [OF assms] all clear_pool_emptied
    by (auto simp: fpx_pool_clear_def clear_world_def clear_pool_def)
qed

text \<open>A request that fits one of the nodes from its slot on, whatever was taken from that node.\<close>

definition fits :: "size_t \<Rightarrow> fpx_pool \<Rightarrow> size_t \<Rightarrow> bool" where
  "fits page pool sz \<longleftrightarrow>
     (let align_size = fpx_align_allocation sz; index = fpx_get_npages page align_size - 1 in
      align_size \<noteq> 0 \<and> index \<le> of_nat FPX_MAX_POOL_SLOT \<and>
      (\<exists>n\<in>set (concat (drop (unat index) (p_nodes pool))). align_size \<le> mn_size n))"

lemma alloc_chain_reset:
  "n \<in> set ns \<Longrightarrow> k \<le> mn_size n \<Longrightarrow> \<exists>m ns'. alloc_chain k (map reset_node ns) = Some (mn_begin m, ns') \<and> m \<in> set ns"
  by (induction ns) (fastforce simp: reset_node_sizes)+

lemma alloc_chain_reset_in:
  "alloc_chain k (map reset_node ns) = Some (mem, ns') \<Longrightarrow> \<exists>m\<in>set ns. mem = mn_begin m"
  by (induction ns arbitrary: ns') (auto simp: reset_node_sizes split: if_splits)

lemma alloc_slots_reset:
  "n \<in> set (concat nss) \<Longrightarrow> k \<le> mn_size n \<Longrightarrow>
     \<exists>m nss'. alloc_slots k (map (map reset_node) nss) = Some (mn_begin m, nss') \<and> m \<in> set (concat nss)"
proof (induction nss)
  case (Cons ns nss)
  show ?case
  proof (cases "alloc_chain k (map reset_node ns)")
    case None
    then have "n \<notin> set ns" using alloc_chain_reset [of n ns k] Cons.prems(2) by auto
    then show ?thesis using Cons None by fastforce
  next
    case (Some r)
    then obtain mem ns' where r: "r = (mem, ns')" by (cases r)
    with Some alloc_chain_reset_in [of k ns mem ns'] show ?thesis by auto
  qed
qed simp

text \<open>What a cleared pool can serve without new memory.\<close>

lemma palloc_cleared:
  assumes "w_pools w p = Some (clear_pool pool)" "fits (w_page w) pool sz"
  shows "\<exists>w' m. fpx_palloc1 w p sz = Some (w', mn_begin m) \<and> m \<in> set (concat (p_nodes pool)) \<and> w_live w' = w_live w"
proof -
  let ?a = "fpx_align_allocation sz"
  let ?i = "unat (fpx_get_npages (w_page w) ?a - 1)"
  have f: "?a \<noteq> 0" "\<not> of_nat FPX_MAX_POOL_SLOT < fpx_get_npages (w_page w) ?a - 1"
    using assms(2) by (simp_all add: fits_def Let_def not_less)
  obtain n where n: "n \<in> set (concat (drop ?i (p_nodes pool)))" "?a \<le> mn_size n"
    using assms(2) unfolding fits_def Let_def by blast
  obtain m nss' where m: "alloc_slots ?a (map (map reset_node) (drop ?i (p_nodes pool))) = Some (mn_begin m, nss')"
    "m \<in> set (concat (drop ?i (p_nodes pool)))" using alloc_slots_reset [OF n] by blast
  have "m \<in> set (concat (p_nodes pool))" using m(2) set_drop_subset by fastforce
  moreover have "\<exists>w'. fpx_palloc1 w p sz = Some (w', mn_begin m) \<and> w_live w' = w_live w"
    using assms(1) f m(1)
    by (simp add: fpx_palloc1_def palloc_nodes_def clear_pool_def drop_map Let_def set_pool_def
        mutex_lock_def mutex_unlock_def)
  ultimately show ?thesis by blast
qed

text \<open>A tree of two pools; the only node of the first has nothing left.\<close>

definition full_nodes :: "memnode list list" where
  "full_nodes = (replicate 20 [])[0 := [\<lparr>mn_addr = 4096, mn_begin = 4400, mn_first_avail = 8192, mn_size = 3792,
     mn_size_avail = 0, mn_dealloc_size = 4096\<rparr>]]"

definition tree_demo :: world where
  "tree_demo = demo_world\<lparr>w_live := [(20000, 100000), (4096, 4096), (8208, 4096)],
     w_pools := [4144 \<mapsto> demo_pool\<lparr>p_nodes := full_nodes, p_child := 8256, p_cleanups :=
         [\<lparr>cn_addr = 4448, cn_data = 7, cn_handler = 9\<rparr>, \<lparr>cn_addr = 4424, cn_data = 20000, cn_handler = 1\<rparr>]\<rparr>,
       8256 \<mapsto> demo_pool\<lparr>p_parent := 4144, p_cleanups := [\<lparr>cn_addr = 8500, cn_data = 3, cn_handler = 9\<rparr>]\<rparr>]\<rparr>"

theorem fpx_pool_clear_tree_witness:
  "\<exists>w'. fpx_pool_clear tree_demo 4144 = Some w' \<and> w_calls w' = [(9, 7), (1, 20000), (9, 3)] \<and>
     w_live w' = [(4096, 4096), (8208, 4096)]"
proof -
  let ?t = "Pool 4144 [Pool 8256 []]"
  have c: "tree_calls (w_pools tree_demo) ?t = [(9, 7), (1, 20000), (9, 3)]"
    by (simp add: tree_demo_def cleanup_calls_def)
  have "tree_ok (w_pools tree_demo) (w_thread tree_demo) ?t" "distinct (addrs ?t)"
    by (simp_all add: tree_demo_def demo_pool_def demo_world_def world0_def)
  moreover have "freeable tree_demo (tree_calls (w_pools tree_demo) ?t)"
    unfolding c by (auto simp: freeable_def fpx_free_handler_def tree_demo_def in_block_def split: if_splits)
  ultimately have "\<exists>w'. fpx_pool_clear tree_demo (root ?t) = Some w' \<and>
     w_calls w' = w_calls tree_demo @ tree_calls (w_pools tree_demo) ?t \<and>
     w_live w' = filter (\<lambda>(a, _). (fpx_free_handler, a) \<notin> set (tree_calls (w_pools tree_demo) ?t)) (w_live tree_demo)"
    using fpx_pool_clear_tree [of tree_demo ?t] by blast
  then show ?thesis unfolding c
    by (simp add: tree_demo_def demo_world_def world0_def fpx_free_handler_def)
qed

section \<open>Destroying a pool\<close>

lemma fpx_free_pools: "fpx_free w a = Some w' \<Longrightarrow> w_pools w p = None \<Longrightarrow> w_pools w' p = None"
  by (auto simp: fpx_free_def split: if_splits option.splits)

lemma free_chain_pools: "free_chain w ns = Some w' \<Longrightarrow> w_pools w p = None \<Longrightarrow> w_pools w' p = None"
  by (induction ns arbitrary: w) (auto simp: fpx_memnode_deallocate_def split: Option.bind_splits dest: fpx_free_pools)

lemma live_ok_filter:
  assumes "live_ok live"
  shows "live_ok (filter P live)"
  unfolding live_ok_def
proof
  show "distinct (map fst (filter P live))" using assms by (simp add: live_ok_def distinct_map_filter)
  show "\<forall>(a, s)\<in>set (filter P live). \<forall>(b, t)\<in>set (filter P live). a \<noteq> b \<longrightarrow> apart a s b t"
    using assms unfolding live_ok_def by fastforce
qed

lemma fpx_free_other:
  assumes "fpx_free w b = Some w1" "b \<noteq> a" "live_ok (w_live w)" "(a, s) \<in> set (w_live w)"
  shows "live_ok (w_live w1) \<and> (a, s) \<in> set (w_live w1) \<and> (w_pools w1 p = None \<or> w_pools w1 p = w_pools w p)"
  using assms by (auto simp: fpx_free_def live_ok_filter split: if_splits option.splits)

lemma free_chain_home:
  assumes "n \<in> set ns" "mn_addr n \<noteq> NULL" "in_block (mn_addr n) (mn_dealloc_size n) p"
    and "live_ok (w_live w)" "(mn_addr n, mn_dealloc_size n) \<in> set (w_live w)"
    and "distinct (map mn_addr ns)" "free_chain w ns = Some w'"
  shows "w_pools w' p = None"
  using assms
proof (induction ns arbitrary: w)
  case (Cons m ns)
  from Cons.prems(7) obtain w1 where w1: "fpx_free w (mn_addr m) = Some w1" "free_chain w1 ns = Some w'"
    by (auto simp: fpx_memnode_deallocate_def split: Option.bind_splits)
  show ?case
  proof (cases "n = m")
    case True
    have "map_of (w_live w) (mn_addr n) = Some (mn_dealloc_size n)"
      using Cons.prems(4,5) by (simp add: live_ok_def)
    with True w1(1) Cons.prems(2,3) have "w_pools w1 p = None" by (auto simp: fpx_free_def)
    with w1(2) show ?thesis by (rule free_chain_pools)
  next
    case False
    with Cons.prems(1) have "n \<in> set ns" by simp
    moreover from this Cons.prems(6) have "mn_addr n \<noteq> mn_addr m"
      by (metis distinct.simps(2) image_eqI list.map(2) list.set_map)
    ultimately have n: "n \<in> set ns" "mn_addr n \<noteq> mn_addr m" by blast+
    from fpx_free_other [OF w1(1) n(2) [symmetric] Cons.prems(4,5)]
    show ?thesis using Cons.IH [of w1] Cons.prems n w1 by simp
  qed
qed simp

lemma free_chain_other:
  "free_chain w ns = Some w1 \<Longrightarrow> a \<notin> mn_addr ` set ns \<Longrightarrow> live_ok (w_live w) \<Longrightarrow> (a, s) \<in> set (w_live w) \<Longrightarrow>
     live_ok (w_live w1) \<and> (a, s) \<in> set (w_live w1) \<and> (w_pools w1 p = None \<or> w_pools w1 p = w_pools w p)"
proof (induction ns arbitrary: w)
  case (Cons m ns)
  then obtain w2 where w2: "fpx_free w (mn_addr m) = Some w2" "free_chain w2 ns = Some w1"
    by (auto simp: fpx_memnode_deallocate_def split: Option.bind_splits)
  from Cons.prems have "mn_addr m \<noteq> a" by auto
  from fpx_free_other [OF w2(1) this Cons.prems(3,4), of p] Cons.IH [OF w2(2)] Cons.prems(2)
  show ?case by auto
qed simp

lemma free_slots_home:
  assumes home: "n \<in> set (p_nodes pool ! k)" "mn_addr n \<noteq> NULL"
      "in_block (mn_addr n) (mn_dealloc_size n) p"
    and chains: "distinct (map mn_addr (p_nodes pool ! k))"
      "\<And>i. i < 20 \<Longrightarrow> i \<noteq> k \<Longrightarrow> mn_addr n \<notin> mn_addr ` set (p_nodes pool ! i)"
  shows "w_pools w p = Some pool \<Longrightarrow> live_ok (w_live w) \<Longrightarrow>
    (mn_addr n, mn_dealloc_size n) \<in> set (w_live w) \<Longrightarrow> k \<in> set is \<Longrightarrow> last is \<noteq> k \<Longrightarrow>
    set is \<subseteq> {..<20} \<Longrightarrow> free_slots w p is = None"
proof (induction "is" arbitrary: w)
  case (Cons i "is")
  then have ne: "is \<noteq> []" by (auto split: if_splits)
  then have dead: "free_slots w1 p is = None" if "w_pools w1 p = None" for w1
    using that by (cases "is") auto
  show ?case
  proof (cases "free_chain w (p_nodes pool ! i)")
    case None
    then show ?thesis using Cons.prems(1) by simp
  next
    case (Some w1)
    have "free_slots w1 p is = None"
    proof (cases "i = k")
      case True
      have "w_pools w1 p = None"
        using free_chain_home [OF home Cons.prems(2,3) chains(1)] Some True by simp
      then show ?thesis by (rule dead)
    next
      case False
      then have "mn_addr n \<notin> mn_addr ` set (p_nodes pool ! i)" using chains(2) Cons.prems(6) by simp
      from free_chain_other [OF Some this Cons.prems(2,3), of p] dead Cons.IH [of w1] Cons.prems False ne
      show ?thesis by auto
    qed
    then show ?thesis using Some Cons.prems(1) by simp
  qed
qed simp

text \<open>
  A pool structure lives inside one of the pool's own
  blocks. Destroying a well-formed pool without children or handlers frees that block while
  the loop over the slots still has to read \<open>pool->nodes[i]\<close>: unless the block sits in the
  very last slot, the function reads freed memory.
\<close>

theorem fpx_pool_destroy_use_after_free:
  assumes "pool_ok w p" "w_pools w p = Some pool" "p_owner pool = w_thread w"
    and "p_child pool = NULL" "p_cleanups pool = []"
    and "k < 19" "n \<in> set (p_nodes pool ! k)" "in_block (mn_addr n) (mn_dealloc_size n) p"
  shows "fpx_pool_destroy w p = None"
proof -
  have n: "nodes_ok 4096 (w_live w) (p_nodes pool)" and l: "live_ok (w_live w)"
    using assms(1,2) by (simp_all add: pool_ok_def)
  then have len: "length (p_nodes pool) = 20" by (simp add: nodes_ok_def FPX_MAX_POOL_SLOT_def)
  have ok: "node_ok (w_live w) n" using nodes_ok_mem [OF n, of k n] assms(6,7) len by simp
  have d: "distinct (map mn_addr (concat (p_nodes pool)))" using n by (simp add: nodes_ok_def)
  obtain A B where AB: "p_nodes pool ! k = A @ n # B" using assms(7) by (metis split_list)
  have split: "concat (p_nodes pool) = concat (take k (p_nodes pool)) @ p_nodes pool ! k @ concat (drop (Suc k) (p_nodes pool))"
    using assms(6) len by (subst id_take_nth_drop [of k]) simp_all
  have other: "mn_addr n \<notin> mn_addr ` set (p_nodes pool ! i)" if "i < 20" "i \<noteq> k" for i
  proof -
    have "p_nodes pool ! i \<in> set (take k (p_nodes pool)) \<union> set (drop (Suc k) (p_nodes pool))"
    proof (cases "i < k")
      case True
      then have "take k (p_nodes pool) ! i \<in> set (take k (p_nodes pool))" using len that by (intro nth_mem) simp
      then show ?thesis using True by simp
    next
      case False
      then have "drop (Suc k) (p_nodes pool) ! (i - Suc k) \<in> set (drop (Suc k) (p_nodes pool))"
        using len that by (intro nth_mem) simp
      then show ?thesis using False that len by simp
    qed
    then show ?thesis using d unfolding split AB by auto
  qed
  have dk: "distinct (map mn_addr (p_nodes pool ! k))" using d unfolding split by simp
  have e: "set_pool w p (pool\<lparr>p_cleanups := []\<rparr>) = w"
    using assms(2,5) by (simp add: set_pool_def fun_upd_idem)
  have r: "fpx_pool_cleanup_run_all w p = Some w"
    using assms(2,5) e by (simp add: fpx_pool_cleanup_run_all_def)
  have "fpx_pool_destroy w p = free_slots w p [0..<20]"
    unfolding fpx_pool_destroy_def using assms(2-4) r
    by (subst pool_destroy.simps) (simp add: FPX_MAX_POOL_SLOT_def)
  also have "\<dots> = None"
    by (rule free_slots_home [OF assms(7) _ assms(8) dk other assms(2) l])
      (use ok assms(6) in \<open>auto simp: node_ok_def\<close>)
  finally show ?thesis .
qed

theorem fpx_pool_destroy_use_after_free_witness: "fpx_pool_destroy demo_world 4144 = None"
proof (rule fpx_pool_destroy_use_after_free [OF demo_world_ok(1,5), of 0])
  show "\<lparr>mn_addr = 4096, mn_begin = 4400, mn_first_avail = 4400, mn_size = 3792,
      mn_size_avail = 3792, mn_dealloc_size = 4096\<rparr> \<in> set (p_nodes demo_pool ! 0)"
    by (simp add: demo_pool_def)
qed (simp_all add: demo_pool_def demo_world_def world0_def in_block_def)

section \<open>Sizes\<close>

text \<open>
  The aligned size is the least multiple of 8 that is at
  least 16 and at least the request; the result is 0, the failure value, exactly for the last
  seven sizes below \<open>2 ^ 64\<close>, which cannot be rounded up.
\<close>

theorem fpx_align_allocation_exact:
  "(fpx_align_allocation sz = 0 \<longleftrightarrow> 2 ^ 64 - 8 < unat sz) \<and>
   (unat sz \<le> 2 ^ 64 - 8 \<longrightarrow>
      8 dvd unat (fpx_align_allocation sz) \<and> 16 \<le> unat (fpx_align_allocation sz) \<and>
      unat sz \<le> unat (fpx_align_allocation sz) \<and>
      (\<forall>m. 8 dvd m \<and> 16 \<le> m \<and> unat sz \<le> m \<longrightarrow> unat (fpx_align_allocation sz) \<le> m))"
proof -
  let ?r = "(unat sz + 7) div 8 * 8"
  have z: "fpx_align_allocation sz = 0 \<longleftrightarrow> unat (fpx_align_allocation sz) = 0"
    by (simp add: word_unat_eq_iff)
  have u: "unat (fpx_align_allocation sz) = (if unat sz \<le> 2 ^ 64 - 8 then max 16 ?r else 0)"
    by (auto simp: fpx_align_allocation_unat)
  have least: "?r \<le> m" if "8 dvd m" "unat sz \<le> m" for m using that by (auto elim!: dvdE)
  have d: "8 dvd max 16 ?r" by (auto simp: max_def)
  show ?thesis
  proof (cases "unat sz \<le> 2 ^ 64 - 8")
    case True
    then have r: "unat (fpx_align_allocation sz) = max 16 ?r" using u by simp
    have "unat sz \<le> max 16 ?r" using round8(1) [of "unat sz"] by simp
    with True d least show ?thesis unfolding z r by simp
  next
    case False
    then have "unat (fpx_align_allocation sz) = 0" using u by simp
    with False show ?thesis unfolding z by simp
  qed
qed

theorem fpx_align_allocation_exact_witness:
  "16 \<le> unat (fpx_align_allocation 100) \<and> unat (fpx_align_allocation 100) \<le> 104 \<and>
   unat (100 :: size_t) \<le> unat (fpx_align_allocation 100)"
  using fpx_align_allocation_exact [of 100, THEN conjunct2, THEN mp] by simp

lemma fold_add: "fold (\<lambda>n acc. acc + f n) ns (acc :: size_t) = acc + sum_list (map f ns)"
  by (induction ns arbitrary: acc) (simp_all add: ac_simps)

lemma fold_fold_add:
  "fold (fold (\<lambda>n acc. acc + f n)) nss (acc :: size_t) = acc + sum_list (map f (concat nss))"
  by (induction nss arbitrary: acc) (simp_all add: fold_add ac_simps)

lemma fold_slots_add:
  assumes "\<forall>j<length nss. \<forall>n\<in>set (nss ! j). mn_dealloc_size n = page * (of_nat (i + j) + 1)"
  shows "fold (\<lambda>(i, chain). fold (\<lambda>node sz. sz + page * (i + 1)) chain)
    (zip (map of_nat [i..<i + length nss]) nss) (acc :: size_t) =
    acc + sum_list (map mn_dealloc_size (concat nss))"
  using assms
proof (induction nss arbitrary: i acc)
  case (Cons ns nss)
  have "map mn_dealloc_size ns = map (\<lambda>_. page * (of_nat i + 1)) ns"
    using Cons.prems [rule_format, of 0] by simp
  then have "sum_list (map mn_dealloc_size ns) = sum_list (map (\<lambda>_. page * (of_nat i + 1)) ns)"
    by (rule arg_cong)
  then have "fold (\<lambda>node sz. sz + page * (of_nat i + 1)) ns acc = acc + sum_list (map mn_dealloc_size ns)"
    by (simp only: fold_add)
  moreover have "[i..<i + length (ns # nss)] = i # [Suc i..<Suc i + length nss]"
    by (simp add: upt_rec)
  moreover have "\<forall>j<length nss. \<forall>n\<in>set (nss ! j). mn_dealloc_size n = page * (of_nat (Suc i + j) + 1)"
  proof (intro allI impI ballI)
    fix j n assume "j < length nss" "n \<in> set (nss ! j)"
    then show "mn_dealloc_size n = page * (of_nat (Suc i + j) + 1)"
      using Cons.prems [rule_format, of "Suc j" n] by simp
  qed
  ultimately show ?case using Cons.IH [of "Suc i"] by (simp add: add.assoc del: upt_Suc)
qed simp

text \<open>
  For a well-formed pool the three size functions agree with
  the blocks: the total size is the sum of the sizes of the blocks taken from the system, and
  the size exceeds the free size by exactly the number of bytes handed out.
\<close>

theorem fpx_pool_sizes_consistent:
  assumes "pool_ok w p" "w_pools w p = Some pool"
  shows "fpx_pool_get_total_size (w_page w) pool = sum_list (map mn_dealloc_size (concat (p_nodes pool))) \<and>
    fpx_pool_get_size pool = fpx_pool_get_free_size pool +
      sum_list (map (\<lambda>n. mn_first_avail n - mn_begin n) (concat (p_nodes pool)))"
proof
  have n: "nodes_ok 4096 (w_live w) (p_nodes pool)" "w_page w = 4096"
    using assms by (simp_all add: pool_ok_def)
  have len: "length (p_nodes pool) = FPX_MAX_POOL_SLOT" using n by (simp add: nodes_ok_def)
  have "\<forall>j<length (p_nodes pool). \<forall>m\<in>set (p_nodes pool ! j).
      mn_dealloc_size m = w_page w * (of_nat (0 + j) + 1)"
    using n len by (auto simp: nodes_ok_def algebra_simps)
  from fold_slots_add [OF this, of 0]
  show "fpx_pool_get_total_size (w_page w) pool = sum_list (map mn_dealloc_size (concat (p_nodes pool)))"
    using len by (simp add: fpx_pool_get_total_size_def)
  have "mn_size m = mn_size_avail m + (mn_first_avail m - mn_begin m)" if "node_ok (w_live w) m" for m
  proof -
    have "of_nat (unat (mn_begin m) + unat (mn_size m)) =
        (of_nat (unat (mn_first_avail m) + unat (mn_size_avail m)) :: size_t)"
      using that by (simp add: node_ok_def)
    then have "mn_begin m + mn_size m = mn_first_avail m + mn_size_avail m" by simp
    then show ?thesis by (simp add: algebra_simps)
  qed
  then have "map mn_size (concat (p_nodes pool)) =
      map (\<lambda>m. mn_size_avail m + (mn_first_avail m - mn_begin m)) (concat (p_nodes pool))"
    using n unfolding nodes_ok_def by (intro map_cong) blast+
  then have "sum_list (map mn_size (concat (p_nodes pool))) = sum_list (map mn_size_avail (concat (p_nodes pool))) +
      sum_list (map (\<lambda>n. mn_first_avail n - mn_begin n) (concat (p_nodes pool)))"
    by (simp only: sum_list_addf)
  then show "fpx_pool_get_size pool = fpx_pool_get_free_size pool +
      sum_list (map (\<lambda>n. mn_first_avail n - mn_begin n) (concat (p_nodes pool)))"
    by (simp only: fpx_pool_get_size_def fpx_pool_get_free_size_def fold_fold_add add_0)
qed

theorem fpx_pool_sizes_consistent_witness:
  "fpx_pool_get_total_size 4096 demo_pool = sum_list (map mn_dealloc_size (concat (p_nodes demo_pool)))"
  using fpx_pool_sizes_consistent [OF demo_world_ok(1,5)] demo_world_ok(4) by simp

end
