(* ===== verification/Fpx_Utf8.thy ===== *)
theory Fpx_Utf8
  imports Fpx_Prelude
begin

unbundle bit_operations_syntax

text \<open>
  The conversion of paths from UTF-8 to UTF-16 in the Windows part of \<open>src/system/filesys.c\<close>:
  \<open>fpx_utf8_decode\<close> and \<open>fpx_path_to_wchar\<close>, the two functions there that compute. A pointer
  into the path is modelled by the bytes from it to the end of the object.
\<close>

section \<open>Decoding one character\<close>

text \<open>
  The loop over the continuation bytes, with the number of bytes left. The result is the value
  of \<open>u\<close>, or 0xffffffff from the early return, and where the pointer stands.
\<close>

fun decode_loop :: "byte list \<Rightarrow> 32 word \<Rightarrow> nat \<Rightarrow> (32 word option \<times> byte list) option" where
  "decode_loop p u 0 = Some (Some u, p)"
| "decode_loop [] u (Suc len) = None"
| "decode_loop (b # p) u (Suc len) =
     (let i = ucast b :: 32 word in
      if i < 0x80 then Some (None, p)
      else decode_loop p (push_bit 6 u OR (i AND 0x3F)) len)"

definition decode_rest :: "byte list \<Rightarrow> byte list \<Rightarrow> size_t \<Rightarrow> 32 word \<Rightarrow> 32 word \<Rightarrow> nat \<Rightarrow> (32 word \<times> byte list) option" where
  "decode_rest p0 p n u valid len =
     (if n - 1 < of_nat len then Some (0xFFFFFFFE, p0)
      else case decode_loop p u len of
        None \<Rightarrow> None
      | Some (None, p) \<Rightarrow> Some (0xFFFFFFFF, p)
      | Some (Some u, p) \<Rightarrow> Some (if u > valid then u else 0xFFFFFFFF, p))"

definition fpx_utf8_decode :: "byte list \<Rightarrow> size_t \<Rightarrow> (32 word \<times> byte list) option" where
  "fpx_utf8_decode p0 n =
     (case p0 of
        [] \<Rightarrow> None
      | b # p \<Rightarrow>
          let u = ucast b :: 32 word in
          if u \<ge> 0xF0 then decode_rest p0 p n (u AND 0x07) 0xFFFF 3
          else if u \<ge> 0xE0 then decode_rest p0 p n (u AND 0x0F) 0x7FF 2
          else if u \<ge> 0xC2 then decode_rest p0 p n (u AND 0x1F) 0x7F 1
          else Some (0xFFFFFFFF, p))"

section \<open>Converting a path\<close>

text \<open>
  \<open>cap\<close> is the number of elements that the destination really has, \<open>outlen\<close> the number that the
  caller states. A store behind the destination is undefined. The result tells whether a
  pointer to the converted path is returned.
\<close>

definition put :: "nat \<Rightarrow> 16 word list \<Rightarrow> 16 word \<Rightarrow> 16 word list option" where
  "put cap out w = (if length out < cap then Some (out @ [w]) else None)"

lemma put_length: "put cap out w = Some out' \<Longrightarrow> length out' = Suc (length out)"
  by (auto simp: put_def split: if_splits)

function wchar_loop :: "nat \<Rightarrow> nat \<Rightarrow> byte list \<Rightarrow> 16 word list \<Rightarrow> (bool \<times> 16 word list) option" where
  "wchar_loop cap outlen p out =
     (if length out < outlen then
        (case p of
           [] \<Rightarrow> None
         | b # p' \<Rightarrow>
             if b < 0x80 then do {
               out \<leftarrow> put cap out (ucast b);
               if b = 0 then Some (True, out) else wchar_loop cap outlen p' out
             }
             else if length out + 1 = outlen then Some (False, out)
             else do {
               (n, p) \<leftarrow> fpx_utf8_decode p 4;
               if n > 0x10FFFF then Some (False, out)
               else if n > 0xFFFF then do {
                 let n = n - 0x10000;
                 out \<leftarrow> put cap out (ucast (0xD800 + drop_bit 10 n));
                 out \<leftarrow> put cap out (ucast (0xDC00 + (n AND 0x03FF)));
                 wchar_loop cap outlen p out
               }
               else do {
                 out \<leftarrow> put cap out (ucast n);
                 wchar_loop cap outlen p out
               }
             })
      else Some (False, out))"
  by pat_completeness auto

termination
  by (relation "measure (\<lambda>(cap, outlen, p, out). outlen - length out)") (auto dest!: put_length)

declare wchar_loop.simps [simp del]

definition fpx_path_to_wchar :: "nat \<Rightarrow> nat \<Rightarrow> byte list \<Rightarrow> (bool \<times> 16 word list) option" where
  "fpx_path_to_wchar cap outlen instr = wchar_loop cap outlen instr []"

text \<open>
  How the file functions call it: \<open>wpath\<close> has \<open>FPX_MAX_PATH_LEN\<close> elements of two bytes, and
  \<open>sizeof(wpath)\<close> is passed as their number.
\<close>

definition wpath_of :: "nat \<Rightarrow> byte list \<Rightarrow> (bool \<times> 16 word list) option" where
  "wpath_of max_path_len path = fpx_path_to_wchar max_path_len (2 * max_path_len) path"

section \<open>The encodings\<close>

definition code_point :: "nat \<Rightarrow> bool" where
  "code_point c \<longleftrightarrow> 0 < c \<and> c < 0x110000"

definition enc8 :: "nat \<Rightarrow> byte list" where
  "enc8 c =
     (if c < 0x80 then [of_nat c]
      else if c < 0x800 then [of_nat (0xC0 + c div 64), of_nat (0x80 + c mod 64)]
      else if c < 0x10000 then
        [of_nat (0xE0 + c div 4096), of_nat (0x80 + c div 64 mod 64), of_nat (0x80 + c mod 64)]
      else
        [of_nat (0xF0 + c div 262144), of_nat (0x80 + c div 4096 mod 64), of_nat (0x80 + c div 64 mod 64),
         of_nat (0x80 + c mod 64)])"

definition enc16 :: "nat \<Rightarrow> 16 word list" where
  "enc16 c =
     (if c < 0x10000 then [of_nat c]
      else [of_nat (0xD800 + (c - 0x10000) div 1024), of_nat (0xDC00 + (c - 0x10000) mod 1024)])"

text \<open>The bit operations of the decoder on numbers: shifting in six bits, and masking the first byte.\<close>

lemma unat_take_of_nat:
  assumes "n \<le> 32"
  shows "unat (take_bit n (of_nat x :: 32 word)) = x mod 2 ^ n"
proof -
  have "unat (take_bit n (of_nat x :: 32 word)) = take_bit n x"
    using assms by (simp add: unsigned_take_bit_eq unsigned_of_nat)
  then show ?thesis by (simp add: take_bit_eq_mod)
qed

lemma take_of_nat:
  assumes "n \<le> 32" "x mod 2 ^ n = k"
  shows "take_bit n (of_nat x :: 32 word) = of_nat k"
proof -
  have "k < 2 ^ 32" using assms by (metis less_le_trans mod_less_divisor one_le_numeral power_increasing zero_less_numeral zero_less_power)
  then have "unat (of_nat k :: 32 word) = k" by (simp add: unsigned_of_nat take_bit_eq_mod)
  with unat_take_of_nat [OF assms(1), of x] assms(2) show ?thesis by (simp add: word_unat_eq_iff del: of_nat_add)
qed

lemma shift_in:
  assumes "k < 64"
  shows "push_bit 6 (of_nat a :: 32 word) OR (of_nat (0x80 + k) AND 0x3F) = of_nat (a * 64 + k)"
proof -
  let ?c = "of_nat (0x80 + k) :: 32 word"
  have m: "?c AND 0x3F = take_bit 6 ?c" by (simp add: take_bit_eq_mask mask_eq_exp_minus_1)
  have "(0x80 + k) mod 64 = k" using assms mod_mult_self1 [of k 2 64] by (simp add: add.commute)
  then have t: "take_bit 6 ?c = of_nat k" by (intro take_of_nat) simp_all
  have "push_bit 6 (of_nat a :: 32 word) AND take_bit 6 ?c = 0" by (auto simp: bit_eq_iff bit_simps)
  then have "push_bit 6 (of_nat a) OR take_bit 6 ?c = push_bit 6 (of_nat a) + take_bit 6 ?c"
    by (rule disjunctive_add_eq_or [symmetric])
  then show ?thesis by (simp only: m t) (simp add: push_bit_eq_mult)
qed

lemma mask_first:
  assumes "k < 2 ^ n" "n < 8" "2 ^ n dvd b"
  shows "(of_nat (b + k) :: 32 word) AND mask n = of_nat k"
proof -
  have "(b + k) mod 2 ^ n = k" using assms by (auto elim!: dvdE)
  then have "take_bit n (of_nat (b + k) :: 32 word) = of_nat k" using assms(2) by (intro take_of_nat) simp_all
  then show ?thesis by (simp only: take_bit_eq_mask)
qed

lemma ucast_byte: "k < 256 \<Longrightarrow> ucast (of_nat k :: byte) = (of_nat k :: 32 word)"
  by (simp add: word_unat_eq_iff unsigned_ucast_eq unsigned_of_nat take_bit_eq_mod)

lemma decode_loop_cont:
  assumes "k < 64"
  shows "decode_loop (of_nat (0x80 + k) # p) (of_nat a) (Suc len) = decode_loop p (of_nat (a * 64 + k)) len"
proof -
  have u: "ucast (of_nat (0x80 + k) :: byte) = (of_nat (0x80 + k) :: 32 word)" using assms by (intro ucast_byte) simp
  have "\<not> (of_nat (0x80 + k) :: 32 word) < 0x80" using assms by (simp add: word_less_nat_alt unsigned_of_nat take_bit_eq_mod del: of_nat_add)
  then show ?thesis using shift_in [OF assms, of a] u by (simp only: decode_loop.simps Let_def if_False)
qed

lemma valid_code:
  assumes "v < c" "c < 2 ^ 32"
  shows "(of_nat v :: 32 word) < of_nat c"
  using assms by (simp add: word_less_nat_alt unsigned_of_nat take_bit_eq_mod)

lemma ge_word: "b \<le> x \<Longrightarrow> x < 2 ^ 32 \<Longrightarrow> (of_nat b :: 32 word) \<le> of_nat x"
  by (simp add: word_le_nat_alt unsigned_of_nat take_bit_eq_mod)

lemma first_byte:
  assumes "k < 2 ^ n" "b + k < 256" "2 ^ n dvd b" "n < 8"
  shows "ucast (of_nat (b + k) :: byte) = (of_nat (b + k) :: 32 word)"
    and "(of_nat (b + k) :: 32 word) AND mask n = of_nat k"
  using assms by (intro ucast_byte mask_first; simp)+

lemma decode_rest_ok:
  assumes "decode_loop p u len = Some (Some (of_nat c), r)" "len < 4" "v < c" "c < 2 ^ 32"
  shows "decode_rest p0 p 4 u (of_nat v) len = Some (of_nat c, r)"
proof -
  have "\<not> (4 :: 64 word) - 1 < of_nat len" using assms(2) by (simp add: word_less_nat_alt unsigned_of_nat take_bit_eq_mod)
  then show ?thesis using assms valid_code [of v c] by (simp add: decode_rest_def)
qed

lemma decode_first:
  "k < 8 \<Longrightarrow> fpx_utf8_decode (of_nat (0xF0 + k) # p) n = decode_rest (of_nat (0xF0 + k) # p) p n (of_nat k) 0xFFFF 3"
  "k < 16 \<Longrightarrow> fpx_utf8_decode (of_nat (0xE0 + k) # p) n = decode_rest (of_nat (0xE0 + k) # p) p n (of_nat k) 0x7FF 2"
  "2 \<le> k \<Longrightarrow> k < 32 \<Longrightarrow> fpx_utf8_decode (of_nat (0xC0 + k) # p) n = decode_rest (of_nat (0xC0 + k) # p) p n (of_nat k) 0x7F 1"
proof -
  have masks: "(0x07 :: 32 word) = mask 3" "(0x0F :: 32 word) = mask 4" "(0x1F :: 32 word) = mask 5"
    by (simp_all add: mask_eq_exp_minus_1)
  {
    assume k: "k < 8"
    then have "(0xF0 :: 32 word) \<le> of_nat (0xF0 + k)" using ge_word [of "0xF0" "0xF0 + k"] by simp
    then show "fpx_utf8_decode (of_nat (0xF0 + k) # p) n = decode_rest (of_nat (0xF0 + k) # p) p n (of_nat k) 0xFFFF 3"
      using first_byte [of k 3 "0xF0"] k unfolding fpx_utf8_decode_def masks by (simp add: Let_def del: of_nat_add)
  next
    assume k: "k < 16"
    then have "(0xE0 :: 32 word) \<le> of_nat (0xE0 + k)" "\<not> (0xF0 :: 32 word) \<le> of_nat (0xE0 + k)"
      using ge_word [of "0xE0" "0xE0 + k"] valid_code [of "0xE0 + k" "0xF0"] by (simp_all add: not_le)
    then show "fpx_utf8_decode (of_nat (0xE0 + k) # p) n = decode_rest (of_nat (0xE0 + k) # p) p n (of_nat k) 0x7FF 2"
      using first_byte [of k 4 "0xE0"] k unfolding fpx_utf8_decode_def masks by (simp add: Let_def del: of_nat_add)
  next
    assume k: "2 \<le> k" "k < 32"
    then have "(0xC2 :: 32 word) \<le> of_nat (0xC0 + k)" "\<not> (0xF0 :: 32 word) \<le> of_nat (0xC0 + k)"
      "\<not> (0xE0 :: 32 word) \<le> of_nat (0xC0 + k)"
      using ge_word [of "0xC2" "0xC0 + k"] valid_code [of "0xC0 + k" "0xF0"] valid_code [of "0xC0 + k" "0xE0"] by (simp_all add: not_le)
    then show "fpx_utf8_decode (of_nat (0xC0 + k) # p) n = decode_rest (of_nat (0xC0 + k) # p) p n (of_nat k) 0x7F 1"
      using first_byte [of k 5 "0xC0"] k unfolding fpx_utf8_decode_def masks by (simp add: Let_def del: of_nat_add)
  }
qed

text \<open>Decoding undoes encoding, for every code that takes more than one byte.\<close>

lemma decode_enc8:
  assumes "0x80 \<le> c" "c < 0x110000"
  shows "fpx_utf8_decode (enc8 c @ r) 4 = Some (of_nat c, r)"
proof -
  let ?l = "of_nat (0x80 + c mod 64) :: byte" and ?m = "of_nat (0x80 + c div 64 mod 64) :: byte"
    and ?h = "of_nat (0x80 + c div 4096 mod 64) :: byte"
  have c1: "c div 64 * 64 + c mod 64 = c" by simp
  have c2: "(c div 4096 * 64 + c div 64 mod 64) = c div 64"
    using div_mult_mod_eq [of "c div 64" 64] by (simp add: div_mult2_eq [symmetric])
  have c3: "(c div 262144 * 64 + c div 4096 mod 64) = c div 4096"
    using div_mult_mod_eq [of "c div 4096" 64] by (simp add: div_mult2_eq [symmetric])
  have l1: "decode_loop (?l # r) (of_nat (c div 64)) (Suc 0) = Some (Some (of_nat c), r)"
    using decode_loop_cont [of "c mod 64" r "c div 64" 0] c1 by (simp del: of_nat_add)
  have l2: "decode_loop (?m # ?l # r) (of_nat (c div 4096)) 2 = Some (Some (of_nat c), r)"
    using decode_loop_cont [of "c div 64 mod 64" "?l # r" "c div 4096" "Suc 0"] c2 l1 by (simp add: numeral_2_eq_2 del: of_nat_add decode_loop.simps)
  have l3: "decode_loop (?h # ?m # ?l # r) (of_nat (c div 262144)) 3 = Some (Some (of_nat c), r)"
    using decode_loop_cont [of "c div 4096 mod 64" "?m # ?l # r" "c div 262144" 2] c3 l2
    by (simp add: numeral_3_eq_3 numeral_2_eq_2 del: of_nat_add decode_loop.simps)
  consider "c < 0x800" | "0x800 \<le> c" "c < 0x10000" | "0x10000 \<le> c" by linarith
  then show ?thesis
  proof cases
    case 1
    then show ?thesis
      using assms decode_rest_ok [OF l1, of "0x7F"] decode_first(3) [of "c div 64" "?l # r" 4]
      by (simp add: enc8_def div_le_mono del: of_nat_add decode_loop.simps)
  next
    case 2
    then show ?thesis
      using assms decode_rest_ok [OF l2, of "0x7FF"] decode_first(2) [of "c div 4096" "?m # ?l # r" 4]
      by (simp add: enc8_def del: of_nat_add decode_loop.simps)
  next
    case 3
    then show ?thesis
      using assms decode_rest_ok [OF l3, of "0xFFFF"] decode_first(1) [of "c div 262144" "?h # ?m # ?l # r" 4]
      by (simp add: enc8_def del: of_nat_add decode_loop.simps)
  qed
qed

section \<open>The converted path\<close>

lemma ucast_16: "(ucast (of_nat c :: 32 word) :: 16 word) = of_nat c"
  by (simp add: word_unat_eq_iff unsigned_ucast_eq unsigned_of_nat)

lemma drop_of_nat:
  assumes "x < 2 ^ 32"
  shows "drop_bit n (of_nat x :: 32 word) = of_nat (x div 2 ^ n)"
proof -
  have "x div 2 ^ n < 2 ^ 32" using assms by (meson div_le_dividend le_less_trans)
  then have "unat (of_nat (x div 2 ^ n) :: 32 word) = x div 2 ^ n" by (simp add: unsigned_of_nat take_bit_eq_mod)
  moreover have "unat (of_nat x :: 32 word) = x" using assms by (simp add: unsigned_of_nat take_bit_eq_mod)
  then have "unat (drop_bit n (of_nat x :: 32 word)) = x div 2 ^ n"
    using assms by (simp only: unsigned_drop_bit_eq) (simp add: take_bit_nat_eq_self drop_bit_eq_div)
  ultimately show ?thesis by (simp add: word_unat_eq_iff)
qed

lemma pair_units:
  assumes "0x10000 \<le> c" "c < 0x110000"
  shows "ucast (0xD800 + drop_bit 10 ((of_nat c :: 32 word) - 0x10000)) = (of_nat (0xD800 + (c - 0x10000) div 1024) :: 16 word)"
    and "ucast (0xDC00 + (((of_nat c :: 32 word) - 0x10000) AND 0x03FF)) = (of_nat (0xDC00 + (c - 0x10000) mod 1024) :: 16 word)"
proof -
  let ?n = "c - 0x10000"
  have n: "(of_nat c :: 32 word) - 0x10000 = of_nat ?n" using assms(1) by (simp add: of_nat_diff)
  have "drop_bit 10 (of_nat ?n :: 32 word) = of_nat (?n div 1024)" using drop_of_nat [of ?n 10] assms by simp
  then show "ucast (0xD800 + drop_bit 10 ((of_nat c :: 32 word) - 0x10000)) = (of_nat (0xD800 + ?n div 1024) :: 16 word)"
    using ucast_16 [of "0xD800 + ?n div 1024"] by (simp add: n del: of_nat_diff)
  have "(of_nat ?n :: 32 word) AND 0x03FF = take_bit 10 (of_nat ?n)" by (simp add: take_bit_eq_mask mask_eq_exp_minus_1)
  then have "(of_nat ?n :: 32 word) AND 0x03FF = of_nat (?n mod 1024)" using take_of_nat [of 10 ?n] by simp
  then show "ucast (0xDC00 + (((of_nat c :: 32 word) - 0x10000) AND 0x03FF)) = (of_nat (0xDC00 + ?n mod 1024) :: 16 word)"
    using ucast_16 [of "0xDC00 + ?n mod 1024"] by (simp add: n del: of_nat_diff)
qed

lemma enc8_first: "0x80 \<le> c \<Longrightarrow> c < 0x110000 \<Longrightarrow> \<exists>b p. enc8 c = b # p \<and> \<not> b < 0x80"
  by (auto simp: enc8_def word_less_nat_alt unsigned_of_nat take_bit_eq_mod simp del: of_nat_add)

lemma less_words:
  assumes "c < 0x110000"
  shows "\<not> (0x10FFFF :: 32 word) < of_nat c" "(0xFFFF :: 32 word) < of_nat c \<longleftrightarrow> 0x10000 \<le> c"
  using assms by (auto simp: word_less_nat_alt unsigned_of_nat take_bit_eq_mod)

definition units :: "nat list \<Rightarrow> 16 word list" where
  "units cs = concat (map enc16 cs)"

definition utf8 :: "nat list \<Rightarrow> byte list" where
  "utf8 cs = concat (map enc8 cs)"

lemma ascii_byte:
  assumes "0 < c" "c < 0x80"
  shows "(of_nat c :: byte) < 0x80" "(of_nat c :: byte) \<noteq> 0" "(ucast (of_nat c :: byte) :: 16 word) = of_nat c"
  using assms by (simp_all add: word_less_nat_alt word_unat_eq_iff unsigned_ucast_eq unsigned_of_nat take_bit_eq_mod)

lemma wchar_loop_utf8:
  assumes "list_all code_point cs" "length out + length (units cs) < outlen"
  shows "wchar_loop cap outlen (utf8 cs @ 0 # r) out =
    (if length out + length (units cs) < cap then Some (True, out @ units cs @ [0]) else None)"
  using assms
proof (induction cs arbitrary: out)
  case Nil
  then show ?case by (subst wchar_loop.simps) (simp add: utf8_def units_def put_def)
next
  case (Cons c cs)
  let ?p = "utf8 cs @ 0 # r"
  have c: "0 < c" "c < 0x110000" using Cons.prems(1) by (simp_all add: code_point_def)
  have u: "units (c # cs) = enc16 c @ units cs" "utf8 (c # cs) @ 0 # r = enc8 c @ ?p" by (simp_all add: units_def utf8_def)
  have IH: "length (out @ ws) + length (units cs) < outlen \<Longrightarrow> wchar_loop cap outlen ?p (out @ ws) =
      (if length (out @ ws) + length (units cs) < cap then Some (True, (out @ ws) @ units cs @ [0]) else None)" for ws
    using Cons.IH [of "out @ ws"] Cons.prems(1) by simp
  show ?case
  proof (cases "c < 0x80")
    case True
    then have e: "enc8 c = [of_nat c]" "enc16 c = [of_nat c]" by (simp_all add: enc8_def enc16_def)
    show ?thesis
      using IH [of "[of_nat c]"] Cons.prems(2) ascii_byte [OF c(1) True] e u
      by (subst wchar_loop.simps) (auto simp: put_def)
  next
    case False
    then have c8: "0x80 \<le> c" by simp
    obtain b p where b: "enc8 c = b # p" "\<not> b < 0x80" using enc8_first [OF c8 c(2)] by blast
    have d: "fpx_utf8_decode (b # p @ ?p) 4 = Some (of_nat c, ?p)" using decode_enc8 [OF c8 c(2), of ?p] b(1) by simp
    have "enc16 c \<noteq> []" by (simp add: enc16_def)
    then have more: "length out < outlen" "length out + 1 \<noteq> outlen"
      using Cons.prems(2) u(1) by (cases "enc16 c"; auto)+
    have step: "wchar_loop cap outlen (utf8 (c # cs) @ 0 # r) out =
        (if 0x10000 \<le> c then do {
           out \<leftarrow> put cap out (of_nat (0xD800 + (c - 0x10000) div 1024));
           out \<leftarrow> put cap out (of_nat (0xDC00 + (c - 0x10000) mod 1024));
           wchar_loop cap outlen ?p out
         }
         else do { out \<leftarrow> put cap out (of_nat c); wchar_loop cap outlen ?p out })"
      using b d more less_words [OF c(2)] pair_units [OF _ c(2)] ucast_16 [of c] u(2)
      by (subst wchar_loop.simps) (simp add: Let_def)
    show ?thesis
    proof (cases "0x10000 \<le> c")
      case True
      then have e: "enc16 c = [of_nat (0xD800 + (c - 0x10000) div 1024), of_nat (0xDC00 + (c - 0x10000) mod 1024)]"
        by (simp add: enc16_def)
      show ?thesis using IH [of "enc16 c"] Cons.prems(2) e u step True by (auto simp: put_def)
    next
      case False
      then have e: "enc16 c = [of_nat c]" by (simp add: enc16_def)
      show ?thesis using IH [of "[of_nat c]"] Cons.prems(2) e u step False by (auto simp: put_def)
    qed
  qed
qed

text \<open>
  C19 (fpx_path_to_wchar_converts). A path in UTF-8 is converted to the UTF-16 text of the same
  code points with its terminator, when the destination is as large as the caller says and has room.
  The file functions however state twice the room there is: a path that needs more elements than
  there are, but not more than stated, is written behind the end of the destination.
\<close>

theorem fpx_path_to_wchar_converts:
  assumes "list_all code_point cs"
  shows "(length (units cs) < outlen \<and> outlen \<le> cap \<longrightarrow>
      fpx_path_to_wchar cap outlen (utf8 cs @ 0 # r) = Some (True, units cs @ [0])) \<and>
    (length (units cs) < max_path_len \<longrightarrow> wpath_of max_path_len (utf8 cs @ 0 # r) = Some (True, units cs @ [0])) \<and>
    (max_path_len \<le> length (units cs) \<and> length (units cs) < 2 * max_path_len \<longrightarrow>
      wpath_of max_path_len (utf8 cs @ 0 # r) = None)"
  using wchar_loop_utf8 [OF assms, of "[]"] by (auto simp: fpx_path_to_wchar_def wpath_of_def)

theorem fpx_path_to_wchar_converts_witness:
  "fpx_path_to_wchar 8 8 (utf8 [0x43, 0xE4, 0x20AC, 0x1F600] @ [0]) = Some (True, [0x43, 0xE4, 0x20AC, 0xD83D, 0xDE00, 0]) \<and>
   wpath_of 2 (utf8 [0x43, 0x20AC] @ [0]) = None"
proof -
  have "list_all code_point [0x43, 0xE4, 0x20AC, 0x1F600]" "list_all code_point [0x43, 0x20AC]" by (simp_all add: code_point_def)
  moreover have "units [0x43, 0xE4, 0x20AC, 0x1F600] = [0x43, 0xE4, 0x20AC, 0xD83D, 0xDE00]" "length (units [0x43, 0x20AC]) = 2"
    by (simp_all add: units_def enc16_def)
  ultimately show ?thesis
    using fpx_path_to_wchar_converts [of "[0x43, 0xE4, 0x20AC, 0x1F600]" 8 8 "[]" 0]
      fpx_path_to_wchar_converts [of "[0x43, 0x20AC]" 0 0 "[]" 2] by simp
qed

end
