(* ===== verification/Fpx_String.thy ===== *)
theory Fpx_String
  imports Fpx_Prelude
begin

unbundle bit_operations_syntax

text \<open>
  The string routines of \<open>src/util/string.c\<close> and the character macros of \<open>string.h\<close>.
  A \<open>char *\<close> argument is the list of bytes from the pointer to the end of its object, a
  returned pointer into the argument is an offset. Of the pool the routines that allocate see
  whether a request of some size is served. Signed overflow is undefined in C, so the two
  number readers check every intermediate value against the range of their type.
\<close>

section \<open>Character macros (string.h)\<close>

definition fpx_isdigit :: "byte \<Rightarrow> bool" where
  "fpx_isdigit c \<longleftrightarrow> sint c \<ge> 48 \<and> sint c \<le> 57"

definition fpx_isalpha :: "byte \<Rightarrow> bool" where
  "fpx_isalpha c \<longleftrightarrow> (sint c \<ge> 65 \<and> sint c \<le> 90) \<or> (sint c \<ge> 97 \<and> sint c \<le> 122)"

definition fpx_isascii :: "byte \<Rightarrow> bool" where
  "fpx_isascii c \<longleftrightarrow> sint c \<ge> 0 \<and> uint c \<le> 127"

definition fpx_tolower :: "byte \<Rightarrow> byte" where
  "fpx_tolower c = (if sint c \<ge> 65 \<and> sint c \<le> 90 then c OR 0x20 else c)"

definition fpx_toupper :: "byte \<Rightarrow> byte" where
  "fpx_toupper c = (if sint c \<ge> 97 \<and> sint c \<le> 122 then c AND NOT 0x20 else c)"

section \<open>Reading decimal numbers\<close>

definition FPX_INT_T_MAX :: int where "FPX_INT_T_MAX = 2147483647"
definition FPX_SSIZE_T_MAX :: int where "FPX_SSIZE_T_MAX = 9223372036854775807"

text \<open>A value of a signed type with maximum \<open>m\<close>; leaving its range is undefined.\<close>

definition in_type :: "int \<Rightarrow> int \<Rightarrow> int option" where
  "in_type m v = (if - m - 1 \<le> v \<and> v \<le> m then Some v else None)"

fun ato_loop :: "int \<Rightarrow> int \<Rightarrow> int \<Rightarrow> byte list \<Rightarrow> nat \<Rightarrow> nat \<Rightarrow> int \<Rightarrow> int option" where
  "ato_loop m cutoff cutlim str i 0 value = Some value"
| "ato_loop m cutoff cutlim str i (Suc k) value = do {
     c \<leftarrow> rd str i;
     if sint c < 48 \<or> sint c > 57 then Some (-1)
     else do {
       temp \<leftarrow> in_type m (sint c - 48);
       if value \<ge> cutoff \<and> (value > cutoff \<or> temp > cutlim) then Some (-1)
       else do {
         v10 \<leftarrow> in_type m (value * 10);
         value \<leftarrow> in_type m (v10 + temp);
         ato_loop m cutoff cutlim str (Suc i) k value
       }
     }
   }"

definition fpx_atoi :: "byte list \<Rightarrow> nat \<Rightarrow> int option" where
  "fpx_atoi str n =
     (if n = 0 then Some (-1)
      else ato_loop FPX_INT_T_MAX (FPX_INT_T_MAX div 10) (FPX_INT_T_MAX mod 10) str 0 n 0)"

definition fpx_atosz :: "byte list \<Rightarrow> nat \<Rightarrow> int option" where
  "fpx_atosz str n =
     (if n = 0 then Some (-1)
      else ato_loop FPX_SSIZE_T_MAX (FPX_SSIZE_T_MAX div 10) (FPX_SSIZE_T_MAX mod 10) str 0 n 0)"

section \<open>Lengths, comparison and search\<close>

partial_function (option) strlen_loop :: "byte list \<Rightarrow> nat \<Rightarrow> nat option" where
  "strlen_loop str i = do {
     c \<leftarrow> rd str i;
     if c = 0 then Some i else strlen_loop str (Suc i)
   }"

lemma strlen_loop_code [code]:
  "strlen_loop str i = (case rd str i of None \<Rightarrow> None | Some c \<Rightarrow> if c = 0 then Some i else strlen_loop str (Suc i))"
  by (subst strlen_loop.simps) (simp split: option.split)

definition fpx_strlen :: "byte list \<Rightarrow> nat option" where
  "fpx_strlen str = strlen_loop str 0"

fun strnlen_loop :: "byte list \<Rightarrow> nat \<Rightarrow> nat \<Rightarrow> nat option" where
  "strnlen_loop str i 0 = Some i"
| "strnlen_loop str i (Suc k) = do {
     c \<leftarrow> rd str i;
     if c = 0 then Some i else strnlen_loop str (Suc i) k
   }"

definition fpx_strnlen :: "byte list \<Rightarrow> nat \<Rightarrow> nat option" where
  "fpx_strnlen str n = strnlen_loop str 0 n"

text \<open>\<open>(uint) *str\<close>: a signed char widened to 32 bits, then folded to lower case.\<close>

definition fold_case :: "byte \<Rightarrow> 32 word" where
  "fold_case b = (let c = (scast b :: 32 word) in if c \<ge> 65 \<and> c \<le> 90 then c OR 0x20 else c)"

partial_function (option) strcasecmp_loop :: "byte list \<Rightarrow> byte list \<Rightarrow> nat \<Rightarrow> int option" where
  "strcasecmp_loop str1 str2 i = do {
     b1 \<leftarrow> rd str1 i;
     b2 \<leftarrow> rd str2 i;
     let c1 = fold_case b1;
     let c2 = fold_case b2;
     if c1 = c2 then (if c1 \<noteq> 0 then strcasecmp_loop str1 str2 (Suc i) else Some 0)
     else Some (sint (c1 - c2))
   }"

definition fpx_strcasecmp :: "byte list \<Rightarrow> byte list \<Rightarrow> int option" where
  "fpx_strcasecmp str1 str2 = strcasecmp_loop str1 str2 0"

fun strncasecmp_loop :: "byte list \<Rightarrow> byte list \<Rightarrow> nat \<Rightarrow> nat \<Rightarrow> int option" where
  "strncasecmp_loop str1 str2 i 0 = Some 0"
| "strncasecmp_loop str1 str2 i (Suc n) = do {
     b1 \<leftarrow> rd str1 i;
     b2 \<leftarrow> rd str2 i;
     let c1 = fold_case b1;
     let c2 = fold_case b2;
     if c1 = c2 then (if c1 \<noteq> 0 then strncasecmp_loop str1 str2 (Suc i) n else Some 0)
     else Some (sint (c1 - c2))
   }"

definition fpx_strncasecmp :: "byte list \<Rightarrow> byte list \<Rightarrow> nat \<Rightarrow> int option" where
  "fpx_strncasecmp str1 str2 n = strncasecmp_loop str1 str2 0 n"

fun strchr_loop :: "byte list \<Rightarrow> int \<Rightarrow> nat \<Rightarrow> nat \<Rightarrow> nat option option" where
  "strchr_loop str c i 0 = Some None"
| "strchr_loop str c i (Suc k) = do {
     b \<leftarrow> rd str i;
     if sint b = c then Some (Some i) else strchr_loop str c (Suc i) k
   }"

definition fpx_strchr :: "byte list \<Rightarrow> int \<Rightarrow> nat option option" where
  "fpx_strchr str c = do { len \<leftarrow> fpx_strlen str; strchr_loop str c 0 len }"

text \<open>The index runs from \<open>len\<close>, the terminator, down to 0; argument \<open>k\<close> is \<open>i + 1\<close>.\<close>

fun strrchr_loop :: "byte list \<Rightarrow> int \<Rightarrow> nat \<Rightarrow> nat option option" where
  "strrchr_loop str c 0 = Some None"
| "strrchr_loop str c (Suc i) = do {
     b \<leftarrow> rd str i;
     if sint b = c then Some (Some i) else strrchr_loop str c i
   }"

definition fpx_strrchr :: "byte list \<Rightarrow> int \<Rightarrow> nat option option" where
  "fpx_strrchr str c = do { len \<leftarrow> fpx_strlen str; strrchr_loop str c (Suc len) }"

section \<open>Copies from a pool\<close>

text \<open>
  The result is the new block, or NULL (the inner \<^const>\<open>None\<close>) when the request is not served.
  A size that wraps gives a block that is too small, and writing to it is undefined.
\<close>

definition fpx_pstrdup :: "(size_t \<Rightarrow> bool) \<Rightarrow> byte list \<Rightarrow> byte list option option" where
  "fpx_pstrdup alloc str = do {
     n \<leftarrow> fpx_strlen str;
     let len = n + 1;
     if alloc (of_nat len) then Some (Some (take len str)) else Some None
   }"

definition fpx_pstrndup :: "(size_t \<Rightarrow> bool) \<Rightarrow> byte list \<Rightarrow> size_t \<Rightarrow> byte list option option" where
  "fpx_pstrndup alloc str n =
     (if \<not> alloc (n + 1) then Some None
      else if unat n < unat (n + 1) \<and> unat n \<le> length str then Some (Some (take (unat n) str @ [0]))
      else None)"

fun strcat_len :: "byte list list \<Rightarrow> size_t \<Rightarrow> size_t option" where
  "strcat_len [] len = Some len"
| "strcat_len (str # args) len = do {
     n \<leftarrow> fpx_strlen str;
     strcat_len args (len + of_nat n)
   }"

fun strcat_copy :: "byte list list \<Rightarrow> byte list \<Rightarrow> byte list option" where
  "strcat_copy [] mem = Some mem"
| "strcat_copy (str # args) mem = do {
     n \<leftarrow> fpx_strlen str;
     strcat_copy args (mem @ take n str)
   }"

definition fpx_pstrcat1 :: "(size_t \<Rightarrow> bool) \<Rightarrow> byte list list \<Rightarrow> byte list option option" where
  "fpx_pstrcat1 alloc args = do {
     len \<leftarrow> strcat_len args 0;
     if \<not> alloc (len + 1) then Some None
     else do {
       mem \<leftarrow> strcat_copy args [];
       if length mem = unat len \<and> unat len < unat (len + 1) then Some (Some (mem @ [0])) else None
     }
   }"

section \<open>Number readers: the specification\<close>

definition dec_value :: "int \<Rightarrow> byte list \<Rightarrow> int" where
  "dec_value v ds = foldl (\<lambda>v d. v * 10 + (sint d - 48)) v ds"

lemma dec_value_Nil [simp]: "dec_value v [] = v"
  by (simp add: dec_value_def)

lemma dec_value_Cons [simp]: "dec_value v (d # ds) = dec_value (v * 10 + (sint d - 48)) ds"
  by (simp add: dec_value_def)

lemma dec_value_mono:
  "0 \<le> v \<Longrightarrow> list_all fpx_isdigit ds \<Longrightarrow> v \<le> dec_value v ds"
proof (induction ds arbitrary: v)
  case (Cons d ds)
  have "v * 10 + (sint d - 48) \<le> dec_value (v * 10 + (sint d - 48)) ds"
    using Cons.prems by (intro Cons.IH) (auto simp: fpx_isdigit_def)
  with Cons.prems show ?case by (auto simp: fpx_isdigit_def)
qed simp

lemma cutoff_iff:
  fixes v t m :: int
  assumes "0 \<le> t" "t \<le> 9"
  shows "(v \<ge> m div 10 \<and> (v > m div 10 \<or> t > m mod 10)) \<longleftrightarrow> m < v * 10 + t"
proof -
  define q r where "q = m div 10" and "r = m mod 10"
  have m: "m = q * 10 + r" "0 \<le> r" "r < 10" by (simp_all add: q_def r_def)
  consider "v < q" | "v = q" | "v > q" by linarith
  then show ?thesis
    unfolding q_def [symmetric] r_def [symmetric] using assms m by cases auto
qed

lemma ato_loop_spec:
  assumes "i + k \<le> length str" "0 \<le> v" "v \<le> m" "9 \<le> m"
  shows "ato_loop m (m div 10) (m mod 10) str i k v =
    Some (let ds = take k (drop i str) in
          if list_all fpx_isdigit ds \<and> dec_value v ds \<le> m then dec_value v ds else -1)"
  using assms
proof (induction k arbitrary: i v)
  case (Suc k)
  define c where "c = str ! i"
  have ds: "take (Suc k) (drop i str) = c # take k (drop (Suc i) str)"
  proof -
    have "i < length str" using Suc.prems(1) by simp
    from Cons_nth_drop_Suc [OF this] show ?thesis by (metis c_def take_Suc_Cons)
  qed
  have rd: "rd str i = Some c" using Suc.prems(1) by (simp add: c_def)
  show ?case
  proof (cases "fpx_isdigit c")
    case False
    then have "sint c < 48 \<or> sint c > 57" by (auto simp: fpx_isdigit_def)
    with False rd ds show ?thesis by auto
  next
    case True
    then have t: "0 \<le> sint c - 48" "sint c - 48 \<le> 9" by (auto simp: fpx_isdigit_def)
    let ?v = "v * 10 + (sint c - 48)"
    show ?thesis
    proof (cases "m < ?v")
      case over: True
      have "list_all fpx_isdigit (take k (drop (Suc i) str)) \<longrightarrow> m < dec_value ?v (take k (drop (Suc i) str))"
        using dec_value_mono [of ?v] Suc.prems(2) t over by fastforce
      then have "(let ds = take (Suc k) (drop i str) in
          if list_all fpx_isdigit ds \<and> dec_value v ds \<le> m then dec_value v ds else -1) = -1"
        by (auto simp: ds Let_def)
      moreover have "in_type m (sint c - 48) = Some (sint c - 48)"
        using t Suc.prems(4) by (simp add: in_type_def)
      moreover have "v \<ge> m div 10 \<and> (v > m div 10 \<or> sint c - 48 > m mod 10)"
        using over cutoff_iff [OF t] by blast
      moreover have "\<not> (sint c < 48 \<or> sint c > 57)" using t by simp
      ultimately show ?thesis by (simp only: ato_loop.simps rd bind.bind_lunit if_True if_False simp_thms)
    next
      case fits: False
      have "ato_loop m (m div 10) (m mod 10) str (Suc i) k ?v =
        Some (let ds = take k (drop (Suc i) str) in
          if list_all fpx_isdigit ds \<and> dec_value ?v ds \<le> m then dec_value ?v ds else -1)"
        using Suc.prems t fits by (intro Suc.IH) auto
      moreover have "in_type m (sint c - 48) = Some (sint c - 48)"
        "in_type m (v * 10) = Some (v * 10)" "in_type m ?v = Some ?v"
        using fits t Suc.prems(2,4) by (auto simp: in_type_def)
      moreover have "\<not> (v \<ge> m div 10 \<and> (v > m div 10 \<or> sint c - 48 > m mod 10))"
        using fits cutoff_iff [OF t] by blast
      moreover have "\<not> (sint c < 48 \<or> sint c > 57)" using t by simp
      ultimately show ?thesis
        by (simp only: ato_loop.simps rd bind.bind_lunit if_False) (simp add: ds True Let_def)
    qed
  qed
qed simp

text \<open>
  The contract of the number readers: on \<open>n\<close> readable bytes they return the decimal value
  when all of them are digits and the value fits, and \<open>-1\<close> otherwise; they never overflow.
\<close>

locale decimal_reader =
  fixes ato :: "byte list \<Rightarrow> nat \<Rightarrow> int option" and maxv :: int
  assumes ato_spec: "n \<le> length str \<Longrightarrow> ato str n =
      Some (if 0 < n \<and> list_all fpx_isdigit (take n str) \<and> dec_value 0 (take n str) \<le> maxv
            then dec_value 0 (take n str) else -1)"
    and maxv_nonneg: "0 \<le> maxv"
begin

lemma ato_range: "n \<le> length str \<Longrightarrow> ato str n = Some v \<Longrightarrow> -1 \<le> v \<and> v \<le> maxv"
  using dec_value_mono [of 0] maxv_nonneg by (fastforce simp: ato_spec split: if_splits)

lemma ato_accepts:
  assumes "n \<le> length str" "ato str n = Some v" "v \<noteq> -1"
  shows "0 < n \<and> list_all fpx_isdigit (take n str) \<and> v = dec_value 0 (take n str) \<and> 0 \<le> v \<and> v \<le> maxv"
  using assms dec_value_mono [of 0] by (fastforce simp: ato_spec split: if_splits)

lemma ato_reads:
  assumes "n \<le> length str" "0 < n" "list_all fpx_isdigit (take n str)" "dec_value 0 (take n str) \<le> maxv"
  shows "ato str n = Some (dec_value 0 (take n str))"
  using assms by (simp add: ato_spec)

end

interpretation atoi: decimal_reader fpx_atoi FPX_INT_T_MAX
proof
  fix n and str :: "byte list"
  assume "n \<le> length str"
  then show "fpx_atoi str n =
      Some (if 0 < n \<and> list_all fpx_isdigit (take n str) \<and> dec_value 0 (take n str) \<le> FPX_INT_T_MAX
            then dec_value 0 (take n str) else -1)"
    using ato_loop_spec [of 0 n str 0 FPX_INT_T_MAX]
    by (simp add: fpx_atoi_def FPX_INT_T_MAX_def Let_def)
qed (simp add: FPX_INT_T_MAX_def)

interpretation atosz: decimal_reader fpx_atosz FPX_SSIZE_T_MAX
proof
  fix n and str :: "byte list"
  assume "n \<le> length str"
  then show "fpx_atosz str n =
      Some (if 0 < n \<and> list_all fpx_isdigit (take n str) \<and> dec_value 0 (take n str) \<le> FPX_SSIZE_T_MAX
            then dec_value 0 (take n str) else -1)"
    using ato_loop_spec [of 0 n str 0 FPX_SSIZE_T_MAX]
    by (simp add: fpx_atosz_def FPX_SSIZE_T_MAX_def Let_def)
qed (simp add: FPX_SSIZE_T_MAX_def)

section \<open>Lengths, comparison and search: the specification\<close>

lemma byte_cases256:
  assumes "list_all (\<lambda>n. P (of_nat n :: byte)) [0..<256]"
  shows "P b"
proof -
  have "unat b < 256" using unsigned_less [of b] by simp
  moreover have "\<forall>n\<in>{0..<256}. P (of_nat n)" using assms by (simp add: list_all_iff)
  ultimately have "P (of_nat (unat b))" by (meson atLeastLessThan_iff zero_le)
  then show ?thesis by simp
qed

lemma scast_byte_inject: "scast (a::byte) = (scast b :: 32 word) \<longleftrightarrow> a = b"
proof
  assume "scast a = (scast b :: 32 word)"
  then have "scast (scast a :: 32 word) = (scast (scast b :: 32 word) :: byte)" by simp
  then show "a = b" by (simp add: scast_up_scast_id is_up)
qed simp

lemma fold_case_tolower: "fold_case b = scast (fpx_tolower b)"
  by (rule byte_cases256) code_simp

lemma tolower_0_iff: "fpx_tolower b = 0 \<longleftrightarrow> b = 0"
  by (rule byte_cases256) code_simp

lemma fold_case_eq_iff: "fold_case a = fold_case b \<longleftrightarrow> fpx_tolower a = fpx_tolower b"
  by (simp add: fold_case_tolower scast_byte_inject)

lemma fold_case_0 [simp]: "fold_case 0 = 0"
  by (simp add: fold_case_def)

lemma fold_case_0_iff: "fold_case a = 0 \<longleftrightarrow> a = 0"
  by (metis fold_case_0 fold_case_eq_iff tolower_0_iff)

lemma sint_diff_0_iff: "sint (a - b :: 32 word) = 0 \<longleftrightarrow> a = b"
  by (metis right_minus_eq signed_0 signed_word_eqI)

lemma strlen_loop_cstr:
  "is_cstr b s \<Longrightarrow> i \<le> length s \<Longrightarrow> strlen_loop b i = Some (length s)"
proof (induction "length s - i" arbitrary: i)
  case 0
  then have "i = length s" by simp
  then show ?case using is_cstr_rd(2) [OF "0.prems"(1)] by (subst strlen_loop.simps) simp
next
  case (Suc k)
  then have "i < length s" by simp
  with Suc show ?case by (subst strlen_loop.simps) (simp add: is_cstr_rd is_cstr_nz)
qed

lemma fpx_strlen_cstr [simp]: "is_cstr b s \<Longrightarrow> fpx_strlen b = Some (length s)"
  by (simp add: fpx_strlen_def strlen_loop_cstr)

lemma strnlen_loop_cstr:
  "is_cstr b s \<Longrightarrow> i \<le> length s \<Longrightarrow> strnlen_loop b i k = Some (min (length s) (i + k))"
proof (induction k arbitrary: i)
  case (Suc k)
  show ?case
  proof (cases "i = length s")
    case False
    with Suc show ?thesis by (simp add: is_cstr_rd is_cstr_nz)
  qed (use Suc in \<open>simp add: is_cstr_rd\<close>)
qed simp

lemma strncasecmp_loop_cstr:
  assumes "is_cstr b1 s1" "is_cstr b2 s2"
  shows "i \<le> length s1 \<Longrightarrow> i \<le> length s2 \<Longrightarrow>
    \<exists>r. strncasecmp_loop b1 b2 i n = Some r
      \<and> (r = 0 \<longleftrightarrow> map fpx_tolower (take n (drop i s1)) = map fpx_tolower (take n (drop i s2)))"
proof (induction n arbitrary: i)
  case (Suc n)
  have d: "drop i s = s ! i # drop (Suc i) s" if "i < length s" for s :: "byte list"
    using that by (metis Cons_nth_drop_Suc)
  consider "i < length s1" "i < length s2" | "i = length s1" "i < length s2"
    | "i < length s1" "i = length s2" | "i = length s1" "i = length s2" using Suc.prems by linarith
  then show ?case
  proof cases
    case 1
    then show ?thesis
      using Suc.IH [of "Suc i"] is_cstr_rd [OF assms(1)] is_cstr_rd [OF assms(2)]
        is_cstr_nz [OF assms(1)] d [of s1] d [of s2]
      by (auto simp: Let_def fold_case_0_iff sint_diff_0_iff fold_case_eq_iff)
  next
    case 2
    then show ?thesis using is_cstr_rd [OF assms(1)] is_cstr_rd [OF assms(2)]
        is_cstr_nz [OF assms(2), of i] fold_case_0_iff [of "s2 ! i"]
      by (auto simp: Let_def sint_diff_0_iff simp flip: fold_case_0)
  next
    case 3
    then show ?thesis using is_cstr_rd [OF assms(1)] is_cstr_rd [OF assms(2)]
        is_cstr_nz [OF assms(1), of i] fold_case_0_iff [of "s1 ! i"]
      by (auto simp: Let_def sint_diff_0_iff simp flip: fold_case_0)
  next
    case 4
    then show ?thesis using is_cstr_rd [OF assms(1)] is_cstr_rd [OF assms(2)] by simp
  qed
qed simp

text \<open>The unbounded comparison agrees with the bounded one once the bound passes both strings.\<close>

lemma strcasecmp_loop_bounded:
  assumes "is_cstr b1 s1" "i \<le> length s1" "length s1 < i + n" "strncasecmp_loop b1 b2 i n = Some r"
  shows "strcasecmp_loop b1 b2 i = Some r"
  using assms
proof (induction n arbitrary: i)
  case (Suc n)
  obtain c where c: "rd b2 i = Some c" using Suc.prems(1,2,4) is_cstr_rd [OF Suc.prems(1)]
    by (cases "rd b2 i") (auto simp: le_less)
  show ?case
  proof (cases "i = length s1")
    case True
    then show ?thesis using Suc.prems c is_cstr_rd [OF Suc.prems(1)]
      by (subst strcasecmp_loop.simps) (auto simp: Let_def split: if_splits)
  next
    case False
    then have "i < length s1" using Suc.prems by simp
    then show ?thesis using Suc c is_cstr_rd [OF Suc.prems(1)]
      by (subst strcasecmp_loop.simps) (auto simp: Let_def split: if_splits)
  qed
qed simp

lemma strchr_loop_spec:
  "i + k \<le> length str \<Longrightarrow>
   strchr_loop str c i k = Some (find (\<lambda>j. sint (str ! j) = c) [i..<i + k])"
proof (induction k arbitrary: i)
  case (Suc k)
  then have "[i..<i + Suc k] = i # [Suc i..<Suc i + k]" by (simp add: upt_conv_Cons)
  with Suc show ?case by simp
qed simp

lemma strrchr_loop_spec:
  "k \<le> length str \<Longrightarrow> strrchr_loop str c k = Some (find (\<lambda>j. sint (str ! j) = c) (rev [0..<k]))"
  by (induction k) auto

lemma find_cong_mem: "(\<And>x. x \<in> set xs \<Longrightarrow> P x = Q x) \<Longrightarrow> find P xs = find Q xs"
  by (induction xs) auto

section \<open>Copies: the specification\<close>

lemma is_cstr_take: "is_cstr b s \<Longrightarrow> take (length s) b = s"
  by (auto simp: is_cstr_append)

lemma strcat_len_cstrs:
  "list_all2 is_cstr bs ss \<Longrightarrow> strcat_len bs len = Some (len + of_nat (length (concat ss)))"
  by (induction bs ss arbitrary: len rule: list_all2_induct) (simp_all add: add.assoc)

lemma strcat_copy_cstrs: "list_all2 is_cstr bs ss \<Longrightarrow> strcat_copy bs mem = Some (mem @ concat ss)"
  by (induction bs ss arbitrary: mem rule: list_all2_induct) (simp_all add: is_cstr_take)

lemma fpx_pstr_copies:
  assumes "\<And>n. alloc n" "is_cstr b s" "list_all2 is_cstr bs ss" "length (concat ss) + 1 < 2 ^ 64" "n \<le> length b" "n + 1 < 2 ^ 64"
  shows "fpx_pstrdup alloc b = Some (Some (s @ [0]))"
    and "fpx_pstrndup alloc b (of_nat n) = Some (Some (take n b @ [0]))"
    and "fpx_pstrcat1 alloc bs = Some (Some (concat ss @ [0]))"
proof -
  show "fpx_pstrdup alloc b = Some (Some (s @ [0]))"
    using assms(1,2) by (auto simp: fpx_pstrdup_def is_cstr_append)
  have n: "unat (of_nat m :: size_t) = m" "unat (of_nat m + 1 :: size_t) = m + 1" if "m + 1 < 2 ^ 64" for m
    using that by (simp_all add: unat_word_ariths unsigned_of_nat take_bit_eq_mod)
  show "fpx_pstrndup alloc b (of_nat n) = Some (Some (take n b @ [0]))"
    using assms(1,5) n [OF assms(6)] by (simp add: fpx_pstrndup_def)
  show "fpx_pstrcat1 alloc bs = Some (Some (concat ss @ [0]))"
    using assms(1) strcat_len_cstrs [OF assms(3), of 0] strcat_copy_cstrs [OF assms(3), of "[]"] n [OF assms(4)]
    by (simp add: fpx_pstrcat1_def)
qed

section \<open>Properties\<close>

text \<open>
  C25 (fpx_ato_exact). On \<open>n\<close> readable bytes \<open>fpx_atoi\<close> and \<open>fpx_atosz\<close> return the decimal
  value of the bytes when there is at least one, all are digits and the value fits the
  result type, and \<open>-1\<close> in every other case; the cutoff test rules out every overflow of
  the intermediate arithmetic and rejects no representable value.
\<close>

theorem fpx_ato_exact:
  assumes "n \<le> length str"
  shows "fpx_atoi str n =
      Some (if 0 < n \<and> list_all fpx_isdigit (take n str) \<and> dec_value 0 (take n str) \<le> 2147483647
            then dec_value 0 (take n str) else -1)
    \<and> fpx_atosz str n =
      Some (if 0 < n \<and> list_all fpx_isdigit (take n str) \<and> dec_value 0 (take n str) \<le> 9223372036854775807
            then dec_value 0 (take n str) else -1)"
  using atoi.ato_spec [OF assms] atosz.ato_spec [OF assms]
  by (simp add: FPX_INT_T_MAX_def FPX_SSIZE_T_MAX_def)

theorem fpx_ato_exact_witness:
  "fpx_atoi [50, 49, 52, 55, 52, 56, 51, 54, 52, 55, 0] 10 = Some 2147483647
   \<and> fpx_atoi [50, 49, 52, 55, 52, 56, 51, 54, 52, 56, 0] 10 = Some (-1)"
  using fpx_ato_exact [of 10 "[50, 49, 52, 55, 52, 56, 51, 54, 52, 55, 0]"]
    fpx_ato_exact [of 10 "[50, 49, 52, 55, 52, 56, 51, 54, 52, 56, 0]"]
  by (simp add: fpx_isdigit_def)

lemma strcasecmp_cstr:
  assumes "is_cstr b1 s1" "is_cstr b2 s2"
  shows "\<exists>r. fpx_strcasecmp b1 b2 = Some r \<and> (r = 0 \<longleftrightarrow> map fpx_tolower s1 = map fpx_tolower s2)"
proof -
  let ?m = "Suc (length s1 + length s2)"
  obtain r where r: "strncasecmp_loop b1 b2 0 ?m = Some r"
      "r = 0 \<longleftrightarrow> map fpx_tolower s1 = map fpx_tolower s2"
    using strncasecmp_loop_cstr [OF assms, of 0 ?m] by auto
  have "fpx_strcasecmp b1 b2 = Some r"
    unfolding fpx_strcasecmp_def by (rule strcasecmp_loop_bounded [OF assms(1) _ _ r(1)]) simp_all
  with r(2) show ?thesis by blast
qed

text \<open>
  On two C strings the case-insensitive comparisons stay inside
  both objects and return 0 exactly when the strings, or their first \<open>n\<close> characters, are
  equal after folding ASCII letters to lower case.
\<close>

theorem fpx_strcasecmp_correct:
  assumes "is_cstr b1 s1" "is_cstr b2 s2"
  shows "(\<exists>r. fpx_strcasecmp b1 b2 = Some r \<and> (r = 0 \<longleftrightarrow> map fpx_tolower s1 = map fpx_tolower s2))
    \<and> (\<exists>r. fpx_strncasecmp b1 b2 n = Some r
         \<and> (r = 0 \<longleftrightarrow> map fpx_tolower (take n s1) = map fpx_tolower (take n s2)))"
  using strcasecmp_cstr [OF assms] strncasecmp_loop_cstr [OF assms, of 0 n]
  by (simp add: fpx_strncasecmp_def)

theorem fpx_strcasecmp_correct_witness:
  "\<exists>r. fpx_strcasecmp [79, 110, 0] [111, 78, 0] = Some r \<and> (r = 0 \<longleftrightarrow> map fpx_tolower [79, 110] = map fpx_tolower [111, 78])"
  using fpx_strcasecmp_correct [of "[79, 110, 0]" "[79, 110]" "[111, 78, 0]" "[111, 78]"]
  by (simp add: is_cstr_def)

text \<open>
  On a C string \<open>fpx_strlen\<close> and \<open>fpx_strnlen\<close> return the distance
  to the terminator, \<open>fpx_strchr\<close> the first and \<open>fpx_strrchr\<close> the last position of a
  character, or NULL when there is none; the terminator itself is found by \<open>fpx_strrchr\<close>
  but never by \<open>fpx_strchr\<close>.
\<close>

theorem fpx_str_scan_correct:
  assumes "is_cstr b s"
  shows "fpx_strlen b = Some (length s) \<and> fpx_strnlen b n = Some (min (length s) n)
    \<and> fpx_strchr b c = Some (find (\<lambda>i. sint (s ! i) = c) [0..<length s])
    \<and> fpx_strrchr b c =
        Some (if c = 0 then Some (length s) else find (\<lambda>i. sint (s ! i) = c) (rev [0..<length s]))"
proof -
  have len: "length s < length b" using assms by (simp add: is_cstr_def)
  have nth: "b ! i = s ! i" if "i < length s" for i
    using is_cstr_rd(1) [OF assms that] len that by simp
  have nul: "b ! length s = 0" using is_cstr_rd(2) [OF assms] len by simp
  have eq: "find (\<lambda>i. sint (b ! i) = c) xs = find (\<lambda>i. sint (s ! i) = c) xs"
    if "set xs \<subseteq> {0..<length s}" for xs
    using that nth by (intro find_cong_mem) auto
  have "fpx_strchr b c = Some (find (\<lambda>i. sint (s ! i) = c) [0..<length s])"
    using len strchr_loop_spec [of 0 "length s" b c] eq [of "[0..<length s]"] assms
    by (simp add: fpx_strchr_def)
  moreover have "fpx_strrchr b c =
        Some (if c = 0 then Some (length s) else find (\<lambda>i. sint (s ! i) = c) (rev [0..<length s]))"
    using len strrchr_loop_spec [of "Suc (length s)" b c] eq [of "rev [0..<length s]"] assms nul
    by (auto simp: fpx_strrchr_def)
  ultimately show ?thesis
    using assms strnlen_loop_cstr [OF assms, of 0 n] by (simp add: fpx_strnlen_def)
qed

theorem fpx_str_scan_correct_witness:
  "fpx_strlen [47, 97, 47, 0, 9] = Some 3 \<and> fpx_strchr [47, 97, 47, 0, 9] 47 = Some (Some 0)
   \<and> fpx_strrchr [47, 97, 47, 0, 9] 47 = Some (Some 2)"
  using fpx_str_scan_correct [of "[47, 97, 47, 0, 9]" "[47, 97, 47]" 5 47]
  by (simp add: is_cstr_def upt_rec)

end
