(* ===== verification/Fpx_Filesys.thy ===== *)
theory Fpx_Filesys
  imports Fpx_String
begin

unbundle bit_operations_syntax

text \<open>
  The file layer of \<open>src/system/filesys.c\<close>, POSIX part: classification of \<open>st_mode\<close>, files,
  directories, globbing and path helpers. The system calls are the fields of a record over
  an abstract operating system state; what a theorem needs of them is stated as a named
  hypothesis. Log messages are left out: they do not influence the results.
\<close>

section \<open>System calls\<close>

type_synonym path = "byte list"
type_synonym fd = int
type_synonym mode_t = "32 word"

record dirent =
  d_name :: path
  d_type :: "8 word"

record 'os sys =
  s_errno :: "'os \<Rightarrow> fpx_err_t"
  s_open :: "path \<Rightarrow> 32 word \<Rightarrow> 32 word \<Rightarrow> 'os \<Rightarrow> fd \<times> 'os"
  s_close :: "fd \<Rightarrow> 'os \<Rightarrow> 'os"
  s_lseek :: "fd \<Rightarrow> int \<Rightarrow> nat \<Rightarrow> 'os \<Rightarrow> int \<times> 'os"
  s_read :: "fd \<Rightarrow> nat \<Rightarrow> 'os \<Rightarrow> (int \<times> byte list) \<times> 'os"
  s_write :: "fd \<Rightarrow> byte list \<Rightarrow> 'os \<Rightarrow> int \<times> 'os"
  s_stat :: "path \<Rightarrow> 'os \<Rightarrow> mode_t option"
  s_fstat :: "fd \<Rightarrow> 'os \<Rightarrow> mode_t option"
  s_opendir :: "path \<Rightarrow> 'os \<Rightarrow> addr \<times> 'os"
  s_readdir :: "addr \<Rightarrow> 'os \<Rightarrow> dirent option \<times> 'os"
  s_closedir :: "addr \<Rightarrow> 'os \<Rightarrow> 'os"
  s_glob :: "path \<Rightarrow> 'os \<Rightarrow> int \<times> path list \<times> 'os"

definition SEEK_SET :: nat where "SEEK_SET = 0"
definition SEEK_CUR :: nat where "SEEK_CUR = 1"
definition SEEK_END :: nat where "SEEK_END = 2"

definition FPX_FILE_RDONLY :: "32 word" where "FPX_FILE_RDONLY = 0"
definition FPX_FILE_OPEN :: "32 word" where "FPX_FILE_OPEN = 0"
definition FPX_FILE_DEFAULT_ACCESS :: "32 word" where "FPX_FILE_DEFAULT_ACCESS = 0x1A4"
definition FPX_INVALID_FILE :: fd where "FPX_INVALID_FILE = -1"
definition FPX_MAX_PATH_LEN :: nat where "FPX_MAX_PATH_LEN = 4096"

section \<open>File types and access bits\<close>

definition FPX_FILE_TYPE_UNKFILE :: "64 word" where "FPX_FILE_TYPE_UNKFILE = 0"
definition FPX_FILE_TYPE_PIPE :: "64 word" where "FPX_FILE_TYPE_PIPE = 1"
definition FPX_FILE_TYPE_CHR :: "64 word" where "FPX_FILE_TYPE_CHR = 2"
definition FPX_FILE_TYPE_DIR :: "64 word" where "FPX_FILE_TYPE_DIR = 4"
definition FPX_FILE_TYPE_BLK :: "64 word" where "FPX_FILE_TYPE_BLK = 6"
definition FPX_FILE_TYPE_FILE :: "64 word" where "FPX_FILE_TYPE_FILE = 8"
definition FPX_FILE_TYPE_LINK :: "64 word" where "FPX_FILE_TYPE_LINK = 10"
definition FPX_FILE_TYPE_SOCK :: "64 word" where "FPX_FILE_TYPE_SOCK = 12"

named_theorems file_types "the numeric values of the file types"

lemmas [file_types] = FPX_FILE_TYPE_UNKFILE_def FPX_FILE_TYPE_PIPE_def FPX_FILE_TYPE_CHR_def
  FPX_FILE_TYPE_DIR_def FPX_FILE_TYPE_BLK_def FPX_FILE_TYPE_FILE_def FPX_FILE_TYPE_LINK_def
  FPX_FILE_TYPE_SOCK_def

definition S_IFMT :: mode_t where "S_IFMT = 0xF000"

definition s_is :: "mode_t \<Rightarrow> mode_t \<Rightarrow> bool" where
  "s_is fmt mode \<longleftrightarrow> mode AND S_IFMT = fmt"

definition fpx_stat_get_file_type :: "mode_t \<Rightarrow> 64 word" where
  "fpx_stat_get_file_type mode =
     (let type = FPX_FILE_TYPE_UNKFILE;
          type = (if s_is 0x8000 mode then FPX_FILE_TYPE_FILE else type);
          type = (if s_is 0x4000 mode then FPX_FILE_TYPE_DIR else type);
          type = (if s_is 0x2000 mode then FPX_FILE_TYPE_CHR else type);
          type = (if s_is 0x6000 mode then FPX_FILE_TYPE_BLK else type);
          type = (if s_is 0x1000 mode then FPX_FILE_TYPE_PIPE else type);
          type = (if s_is 0xA000 mode then FPX_FILE_TYPE_LINK else type);
          type = (if s_is 0xC000 mode then FPX_FILE_TYPE_SOCK else type)
      in type)"

definition add_access :: "mode_t \<Rightarrow> mode_t \<Rightarrow> 64 word \<Rightarrow> 64 word \<Rightarrow> 64 word" where
  "add_access mode flag b access = (if mode AND flag \<noteq> 0 then access OR b else access)"

definition fpx_stat_get_access :: "mode_t \<Rightarrow> 64 word" where
  "fpx_stat_get_access mode =
     (let access = 0;
          access = add_access mode 0x800 0x8000 access;
          access = add_access mode 0x100 0x0400 access;
          access = add_access mode 0x080 0x0200 access;
          access = add_access mode 0x040 0x0100 access;
          access = add_access mode 0x400 0x4000 access;
          access = add_access mode 0x020 0x0040 access;
          access = add_access mode 0x010 0x0020 access;
          access = add_access mode 0x008 0x0010 access;
          access = add_access mode 0x200 0x2000 access;
          access = add_access mode 0x004 0x0004 access;
          access = add_access mode 0x002 0x0002 access;
          access = add_access mode 0x001 0x0001 access
      in access)"

section \<open>Files\<close>

record fpx_file =
  f_fd :: fd
  f_name :: "path option"
  f_offset :: size_t

record file_info =
  fi_type :: "64 word"
  fi_access :: "64 word"

definition zero_file :: fpx_file where
  "zero_file = \<lparr>f_fd = 0, f_name = None, f_offset = 0\<rparr>"

definition fpx_file_open ::
  "'os sys \<Rightarrow> path \<Rightarrow> 32 word \<Rightarrow> 32 word \<Rightarrow> 32 word \<Rightarrow> 'os \<Rightarrow> fpx_err_t \<times> fpx_file \<times> 'os" where
  "fpx_file_open S path mode create access os =
     (let (fd, os) = s_open S path (mode OR create) access os in
      if fd = FPX_INVALID_FILE then (s_errno S os, zero_file, os)
      else (FPX_OK, \<lparr>f_fd = fd, f_name = Some path, f_offset = 0\<rparr>, os))"

definition fpx_file_read ::
  "'os sys \<Rightarrow> fpx_file \<Rightarrow> nat \<Rightarrow> size_t \<Rightarrow> 'os \<Rightarrow> int \<times> byte list \<times> fpx_file \<times> 'os" where
  "fpx_file_read S file n offset os =
     (let (r, os) = s_lseek S (f_fd file) (sint offset) SEEK_SET os in
      if r = -1 then (-1, [], file, os)
      else
        let ((k, bs), os) = s_read S (f_fd file) n os in
        if k = -1 then (-1, [], file, os)
        else (k, bs, file\<lparr>f_offset := f_offset file + word_of_int k\<rparr>, os))"

text \<open>
  The loop of \<open>fpx_file_write\<close>: \<open>buf + written\<close> is the rest of the buffer and \<open>size\<close> its
  length. It does not end when \<open>write\<close> keeps returning 0.
\<close>

partial_function (option) write_loop ::
  "'os sys \<Rightarrow> fpx_file \<Rightarrow> byte list \<Rightarrow> int \<Rightarrow> 'os \<Rightarrow> (int \<times> fpx_file \<times> 'os) option" where
  "write_loop S file rest written os =
     (case s_write S (f_fd file) rest os of
        (n, os) \<Rightarrow>
          if n = -1 then Some (-1, file, os)
          else
            let file = file\<lparr>f_offset := f_offset file + word_of_int n\<rparr>; written = written + n in
            if n = int (length rest) then Some (written, file, os)
            else write_loop S file (drop (nat n) rest) written os)"

definition fpx_file_write ::
  "'os sys \<Rightarrow> fpx_file \<Rightarrow> byte list \<Rightarrow> size_t \<Rightarrow> 'os \<Rightarrow> (int \<times> fpx_file \<times> 'os) option" where
  "fpx_file_write S file buf offset os =
     (let (r, os) = s_lseek S (f_fd file) (sint offset) SEEK_SET os in
      if r = -1 then Some (-1, file, os)
      else write_loop S file buf 0 os)"

definition fpx_file_size :: "'os sys \<Rightarrow> fpx_file \<Rightarrow> 'os \<Rightarrow> int \<times> 'os" where
  "fpx_file_size S file os =
     (let (r, os) = s_lseek S (f_fd file) 0 SEEK_CUR os; off = (word_of_int r :: size_t) in
      if off = -1 then (-1, os)
      else
        let (r, os) = s_lseek S (f_fd file) 0 SEEK_END os; sz = (word_of_int r :: size_t) in
        if sz = -1 then (-1, os)
        else
          let (r, os) = s_lseek S (f_fd file) (sint off) SEEK_SET os in
          if r = -1 then (-1, os) else (sint sz, os))"

definition fpx_read_fd :: "'os sys \<Rightarrow> fd \<Rightarrow> nat \<Rightarrow> 'os \<Rightarrow> int \<times> byte list \<times> 'os" where
  "fpx_read_fd S fd n os =
     (let ((rv, bs), os) = s_read S fd n os in if rv = -1 then (-1, [], os) else (rv, bs, os))"

definition fpx_write_fd :: "'os sys \<Rightarrow> fd \<Rightarrow> byte list \<Rightarrow> 'os \<Rightarrow> int \<times> 'os" where
  "fpx_write_fd S fd buf os =
     (let (rv, os) = s_write S fd buf os in if rv = -1 then (-1, os) else (rv, os))"

definition fpx_write_stdout :: "'os sys \<Rightarrow> byte list \<Rightarrow> 'os \<Rightarrow> int \<times> 'os" where
  "fpx_write_stdout S str os = fpx_write_fd S 1 str os"

definition fpx_write_stderr :: "'os sys \<Rightarrow> byte list \<Rightarrow> 'os \<Rightarrow> int \<times> 'os" where
  "fpx_write_stderr S str os = fpx_write_fd S 2 str os"

text \<open>When \<open>stat\<close> fails the caller's structure keeps whatever it held.\<close>

definition fpx_file_info_by_path ::
  "'os sys \<Rightarrow> file_info \<Rightarrow> path \<Rightarrow> 'os \<Rightarrow> fpx_err_t \<times> file_info" where
  "fpx_file_info_by_path S info path os =
     (case s_stat S path os of
        None \<Rightarrow> (s_errno S os, info)
      | Some mode \<Rightarrow> (FPX_OK, \<lparr>fi_type = fpx_stat_get_file_type mode,
                              fi_access = fpx_stat_get_access mode\<rparr>))"

definition fpx_file_info :: "'os sys \<Rightarrow> file_info \<Rightarrow> fpx_file \<Rightarrow> 'os \<Rightarrow> fpx_err_t \<times> file_info" where
  "fpx_file_info S info file os =
     (case s_fstat S (f_fd file) os of
        None \<Rightarrow> (s_errno S os, info)
      | Some mode \<Rightarrow> (FPX_OK, \<lparr>fi_type = fpx_stat_get_file_type mode,
                              fi_access = fpx_stat_get_access mode\<rparr>))"

definition fpx_file_close :: "'os sys \<Rightarrow> fpx_file option \<Rightarrow> 'os \<Rightarrow> fpx_file option \<times> 'os" where
  "fpx_file_close S file os =
     (case file of
        None \<Rightarrow> (None, os)
      | Some f \<Rightarrow> (Some (f\<lparr>f_fd := FPX_INVALID_FILE, f_name := None, f_offset := 0\<rparr>), s_close S (f_fd f) os))"

section \<open>Directories and globbing\<close>

record fpx_dir =
  dir_dir :: addr
  dir_dirent :: "dirent option"
  dir_name :: "path option"
  dir_type :: "8 word"

definition fpx_dir_open :: "'os sys \<Rightarrow> path \<Rightarrow> 'os \<Rightarrow> fpx_err_t \<times> fpx_dir \<times> 'os" where
  "fpx_dir_open S path os =
     (let (d, os) = s_opendir S path os;
          dir = \<lparr>dir_dir = d, dir_dirent = None, dir_name = None, dir_type = 0\<rparr> in
      if d = NULL then (s_errno S os, dir, os)
      else (FPX_OK, dir\<lparr>dir_name := Some path\<rparr>, os))"

definition fpx_dir_read :: "'os sys \<Rightarrow> fpx_dir \<Rightarrow> 'os \<Rightarrow> fpx_err_t \<times> fpx_dir \<times> 'os" where
  "fpx_dir_read S dir os =
     (case s_readdir S (dir_dir dir) os of
        (None, os) \<Rightarrow>
          (let err = s_errno S os; dir = dir\<lparr>dir_dirent := None\<rparr> in
           if err \<noteq> FPX_OK then (err, dir, os) else (FPX_DONE, dir, os))
      | (Some e, os) \<Rightarrow> (FPX_OK, dir\<lparr>dir_dirent := Some e, dir_type := d_type e\<rparr>, os))"

definition fpx_dir_close :: "'os sys \<Rightarrow> fpx_dir option \<Rightarrow> 'os \<Rightarrow> 'os" where
  "fpx_dir_close S dir os =
     (case dir of None \<Rightarrow> os | Some d \<Rightarrow> s_closedir S (dir_dir d) os)"

definition fpx_dir_current_name :: "fpx_dir \<Rightarrow> path option" where
  "fpx_dir_current_name dir = map_option d_name (dir_dirent dir)"

definition fpx_dir_current_file_type :: "fpx_dir \<Rightarrow> 64 word" where
  "fpx_dir_current_file_type dir = ucast (dir_type dir)"

definition fpx_dir_current_is_file :: "fpx_dir \<Rightarrow> bool" where
  "fpx_dir_current_is_file dir \<longleftrightarrow> ucast (dir_type dir) = FPX_FILE_TYPE_FILE"

record fpx_glob =
  g_pathv :: "path list"
  g_pattern :: "path option"
  g_last :: nat

text \<open>When \<open>glob\<close> fails, the members of the caller's structure are not set.\<close>

definition fpx_glob_open :: "'os sys \<Rightarrow> fpx_glob \<Rightarrow> path \<Rightarrow> 'os \<Rightarrow> fpx_err_t \<times> fpx_glob \<times> 'os" where
  "fpx_glob_open S gl pattern os =
     (let (rv, pathv, os) = s_glob S pattern os; gl = gl\<lparr>g_pathv := pathv\<rparr> in
      if rv \<noteq> 0 then (s_errno S os, gl, os)
      else (FPX_OK, gl\<lparr>g_pattern := Some pattern, g_last := 0\<rparr>, os))"

text \<open>The result buffer has \<open>FPX_MAX_PATH_LEN\<close> bytes; a longer name does not fit.\<close>

definition fpx_glob_read :: "fpx_glob \<Rightarrow> (fpx_err_t \<times> path \<times> fpx_glob) option" where
  "fpx_glob_read gl =
     (if g_last gl \<ge> length (g_pathv gl) then Some (FPX_DONE, [], gl)
      else let p = g_pathv gl ! g_last gl in
        if length p + 1 > FPX_MAX_PATH_LEN then None
        else Some (FPX_OK, p, gl\<lparr>g_last := g_last gl + 1\<rparr>))"

section \<open>Paths\<close>

definition FPX_PATH_SEPARATOR :: byte where "FPX_PATH_SEPARATOR = 0x2F"

definition fpx_is_path_separator :: "byte \<Rightarrow> bool" where
  "fpx_is_path_separator c \<longleftrightarrow> c = FPX_PATH_SEPARATOR"

definition fpx_check_absolute_path :: "byte list \<Rightarrow> fpx_err_t option" where
  "fpx_check_absolute_path path = do {
     c \<leftarrow> rd path 0;
     Some (if c = FPX_PATH_SEPARATOR then FPX_OK else FPX_ERR_FILESYS_ABS_PATH)
   }"

fun wildcard_loop :: "byte list \<Rightarrow> nat \<Rightarrow> nat \<Rightarrow> bool option" where
  "wildcard_loop path i 0 = None"
| "wildcard_loop path i (Suc k) = do {
     c \<leftarrow> rd path i;
     if c = 0 then Some False
     else if c = 0x3F \<or> c = 0x2A then Some True
     else wildcard_loop path (Suc i) k
   }"

text \<open>The fuel is the size of the object, which the scan cannot leave without a fault.\<close>

definition fpx_is_path_has_wildcard :: "byte list \<Rightarrow> bool option" where
  "fpx_is_path_has_wildcard path = wildcard_loop path 0 (Suc (length path))"

text \<open>
  \<open>fpx_file_full_path\<close> writes into a buffer of \<open>cap\<close> bytes without a bound of its own; the
  result is the number of bytes before the terminator and the bytes written. \<open>sep\<close> is the
  path separator of the platform.
\<close>

definition full_path :: "byte \<Rightarrow> nat \<Rightarrow> byte list \<Rightarrow> byte list \<Rightarrow> (nat \<times> byte list) option" where
  "full_path sep cap path file = do {
     path_len \<leftarrow> fpx_strlen path;
     file_len \<leftarrow> fpx_strlen file;
     c \<leftarrow> (if path_len = 0 then None else rd path (path_len - 1));
     let path_len = (if c = sep then path_len - 1 else path_len);
     let out = take path_len path @ [sep] @ take file_len file @ [0];
     if length out > cap then None else Some (length out - 1, out)
   }"

definition fpx_file_full_path :: "nat \<Rightarrow> byte list \<Rightarrow> byte list \<Rightarrow> (nat \<times> byte list) option" where
  "fpx_file_full_path = full_path FPX_PATH_SEPARATOR"

text \<open>
  The variant for systems whose directory entries have no type: it asks for the mode of the full
  path, which has to fit its buffer. It does not look at the result of \<open>stat\<close>; \<open>fstat\<close> is the
  content of the uninitialised structure. The file types have numbers of their own then.
\<close>

definition plain_file_type :: "mode_t \<Rightarrow> 8 word" where
  "plain_file_type mode =
     (if s_is 0x8000 mode then 1 else if s_is 0x4000 mode then 2 else if s_is 0x2000 mode then 3
      else if s_is 0x6000 mode then 4 else if s_is 0x1000 mode then 5 else if s_is 0xA000 mode then 6
      else if s_is 0xC000 mode then 7 else 0)"

definition stat_dir_read :: "'os sys \<Rightarrow> mode_t \<Rightarrow> fpx_dir \<Rightarrow> 'os \<Rightarrow> (fpx_err_t \<times> fpx_dir \<times> 'os) option" where
  "stat_dir_read S fstat dir os =
     (case s_readdir S (dir_dir dir) os of
        (None, os) \<Rightarrow>
          (let err = s_errno S os; dir = dir\<lparr>dir_dirent := None\<rparr> in
           if err \<noteq> FPX_OK then Some (err, dir, os) else Some (FPX_DONE, dir, os))
      | (Some e, os) \<Rightarrow> do {
          name \<leftarrow> dir_name dir;
          (n, fullpath) \<leftarrow> fpx_file_full_path FPX_MAX_PATH_LEN (name @ [0]) (d_name e @ [0]);
          let mode = (case s_stat S (take n fullpath) os of None \<Rightarrow> fstat | Some mode \<Rightarrow> mode);
          Some (FPX_OK, dir\<lparr>dir_dirent := Some e, dir_type := plain_file_type mode\<rparr>, os)
        })"

section \<open>Classification of the mode\<close>

definition type_table :: "(mode_t \<times> 64 word) list" where
  "type_table = [(0x8000, FPX_FILE_TYPE_FILE), (0x4000, FPX_FILE_TYPE_DIR), (0x2000, FPX_FILE_TYPE_CHR),
     (0x6000, FPX_FILE_TYPE_BLK), (0x1000, FPX_FILE_TYPE_PIPE), (0xA000, FPX_FILE_TYPE_LINK),
     (0xC000, FPX_FILE_TYPE_SOCK)]"

text \<open>Bit positions in \<open>st_mode\<close> and in the access mask: setuid, setgid, sticky, rwx three times.\<close>

definition access_table :: "(nat \<times> nat) list" where
  "access_table = [(11, 15), (8, 10), (7, 9), (6, 8), (10, 14), (5, 6), (4, 5), (3, 4), (9, 13),
     (2, 2), (1, 1), (0, 0)]"

lemma and_power_iff: "(w :: 32 word) AND 2 ^ k \<noteq> 0 \<longleftrightarrow> bit w k"
  by (simp add: and_exp_eq_0_iff_not_bit)

lemma add_access_bit:
  assumes "k < 32" "j < 64"
  shows "bit (add_access mode (2 ^ k) (2 ^ j) a) n \<longleftrightarrow> bit a n \<or> (n = j \<and> bit mode k)"
  using assms and_power_iff [of mode k] unfolding add_access_def by (auto simp: bit_simps)

lemma fpx_stat_get_access_fold:
  "fpx_stat_get_access mode = fold (\<lambda>(k, j). add_access mode (2 ^ k) (2 ^ j)) access_table 0"
  by (simp add: fpx_stat_get_access_def access_table_def Let_def)

lemma fold_access_bit:
  "list_all (\<lambda>(k, j). k < 32 \<and> j < 64) t \<Longrightarrow>
   bit (fold (\<lambda>(k, j). add_access mode (2 ^ k) (2 ^ j)) t a) n \<longleftrightarrow>
     bit a n \<or> (\<exists>(k, j)\<in>set t. n = j \<and> bit mode k)"
  by (induction t arbitrary: a) (auto simp: add_access_bit)

text \<open>
  The file type follows the format bits of \<open>st_mode\<close> for each of the
  seven formats and is unknown for every other value; the access mask has exactly the bits
  that correspond to the permission bits set in \<open>st_mode\<close>.
\<close>

theorem fpx_stat_classified:
  "(\<forall>(fmt, type)\<in>set type_table. mode AND S_IFMT = fmt \<longrightarrow> fpx_stat_get_file_type mode = type) \<and>
   (mode AND S_IFMT \<notin> fst ` set type_table \<longrightarrow> fpx_stat_get_file_type mode = FPX_FILE_TYPE_UNKFILE) \<and>
   (\<forall>n. bit (fpx_stat_get_access mode) n \<longleftrightarrow> (\<exists>(k, j)\<in>set access_table. n = j \<and> bit mode k))"
proof (intro conjI)
  show "\<forall>n. bit (fpx_stat_get_access mode) n \<longleftrightarrow> (\<exists>(k, j)\<in>set access_table. n = j \<and> bit mode k)"
    unfolding fpx_stat_get_access_fold by (subst fold_access_bit) (simp_all add: access_table_def)
qed (auto simp: type_table_def fpx_stat_get_file_type_def s_is_def Let_def)

theorem fpx_stat_classified_witness:
  "fpx_stat_get_file_type 0x81A4 = FPX_FILE_TYPE_FILE \<and> bit (fpx_stat_get_access 0x81A4) 10"
proof -
  have t: "(0x8000, FPX_FILE_TYPE_FILE) \<in> set type_table" "(0x81A4 :: mode_t) AND S_IFMT = 0x8000"
    by (simp_all add: type_table_def S_IFMT_def)
  have "(8, 10) \<in> set access_table" "bit (0x81A4 :: mode_t) 8" by (simp_all add: access_table_def)
  with t fpx_stat_classified [of "0x81A4"] show ?thesis by fast
qed

section \<open>Writing and measuring files\<close>

text \<open>
  \<open>write_ok\<close>: \<open>write\<close> fails without an effect or appends a non-empty prefix of a non-empty
  buffer, and touches nothing else. \<open>seek_ok\<close>: a file has a position and a length, and \<open>lseek\<close>
  reads and sets the position. The functions \<open>content\<close>, \<open>pos\<close> and \<open>len\<close> observe the state.
\<close>

definition write_ok :: "'os sys \<Rightarrow> ('os \<Rightarrow> byte list) \<Rightarrow> fd \<Rightarrow> bool" where
  "write_ok S content fd \<longleftrightarrow> (\<forall>buf os. case s_write S fd buf os of (n, os') \<Rightarrow>
     n = -1 \<and> content os' = content os \<or>
     0 \<le> n \<and> n \<le> int (length buf) \<and> (buf \<noteq> [] \<longrightarrow> 0 < n) \<and> content os' = content os @ take (nat n) buf)"

definition seek_ok :: "'os sys \<Rightarrow> ('os \<Rightarrow> int) \<Rightarrow> ('os \<Rightarrow> int) \<Rightarrow> fd \<Rightarrow> bool" where
  "seek_ok S pos len fd \<longleftrightarrow> (\<forall>os. 0 \<le> pos os \<and> pos os < 2 ^ 63 \<and> 0 \<le> len os \<and> len os < 2 ^ 63 \<and>
     s_lseek S fd 0 SEEK_CUR os = (pos os, os) \<and>
     (case s_lseek S fd 0 SEEK_END os of (r, os') \<Rightarrow> r = len os \<and> pos os' = len os \<and> len os' = len os) \<and>
     (\<forall>off. 0 \<le> off \<and> off < 2 ^ 63 \<longrightarrow> (case s_lseek S fd off SEEK_SET os of (r, os') \<Rightarrow>
        r = off \<and> pos os' = off \<and> len os' = len os)))"

lemma seek_okD:
  assumes "seek_ok S pos len fd"
  shows "0 \<le> pos os" "pos os < 2 ^ 63" "0 \<le> len os" "len os < 2 ^ 63"
    and "s_lseek S fd 0 SEEK_CUR os = (pos os, os)"
    and "\<exists>os'. s_lseek S fd 0 SEEK_END os = (len os, os') \<and> pos os' = len os \<and> len os' = len os"
    and "0 \<le> off \<Longrightarrow> off < 2 ^ 63 \<Longrightarrow>
      \<exists>os'. s_lseek S fd off SEEK_SET os = (off, os') \<and> pos os' = off \<and> len os' = len os"
proof -
  note o = spec [OF assms [unfolded seek_ok_def], of os]
  show "0 \<le> pos os" "pos os < 2 ^ 63" "0 \<le> len os" "len os < 2 ^ 63"
    "s_lseek S fd 0 SEEK_CUR os = (pos os, os)" using o by blast+
  show "\<exists>os'. s_lseek S fd 0 SEEK_END os = (len os, os') \<and> pos os' = len os \<and> len os' = len os"
    using o by (cases "s_lseek S fd 0 SEEK_END os") simp
  show "\<exists>os'. s_lseek S fd off SEEK_SET os = (off, os') \<and> pos os' = off \<and> len os' = len os"
    if "0 \<le> off" "off < 2 ^ 63"
  proof -
    from o have "\<forall>off. 0 \<le> off \<and> off < 2 ^ 63 \<longrightarrow> (case s_lseek S fd off SEEK_SET os of (r, os') \<Rightarrow>
        r = off \<and> pos os' = off \<and> len os' = len os)" by (elim conjE)
    from mp [OF spec [OF this, of off]] that show ?thesis
      by (cases "s_lseek S fd off SEEK_SET os") simp
  qed
qed

lemma write_okD:
  assumes "write_ok S content fd" "s_write S fd buf os = (n, os')"
  shows "n = -1 \<and> content os' = content os \<or>
     0 \<le> n \<and> n \<le> int (length buf) \<and> (buf \<noteq> [] \<longrightarrow> 0 < n) \<and> content os' = content os @ take (nat n) buf"
proof -
  note spec [OF spec [OF assms(1) [unfolded write_ok_def], of buf], of os]
  then show ?thesis unfolding assms(2) by simp
qed

lemma write_loop_all:
  assumes ok: "write_ok S content fd"
  shows "f_fd fl = fd \<Longrightarrow> \<exists>ret fl' os'. write_loop S fl rest written os = Some (ret, fl', os') \<and>
    (ret = -1 \<and> (\<exists>k\<le>length rest. content os' = content os @ take k rest) \<or>
     ret = written + int (length rest) \<and> content os' = content os @ rest \<and>
     f_offset fl' = f_offset fl + of_nat (length rest))"
proof (induction "length rest" arbitrary: fl rest written os rule: less_induct)
  case less
  obtain n os1 where w: "s_write S (f_fd fl) rest os = (n, os1)" by fastforce
  note c = write_okD [OF ok w [unfolded less.prems]]
  let ?fl = "fl\<lparr>f_offset := f_offset fl + word_of_int n\<rparr>"
  show ?case
  proof (cases "n = -1")
    case True
    with c w show ?thesis by (subst write_loop.simps) (auto intro!: exI [of _ "0 :: nat"])
  next
    case m1: False
    show ?thesis
  proof (cases "n = int (length rest)")
    case True
    with c w m1 show ?thesis by (subst write_loop.simps) (simp add: Let_def)
  next
    case False
    with c m1 have n: "0 < n" "n < int (length rest)" "content os1 = content os @ take (nat n) rest"
      by auto
    then have "length (drop (nat n) rest) < length rest" by simp
    from less.hyps [OF this, of ?fl "written + n" os1] less.prems obtain ret fl' os' where
      r: "write_loop S ?fl (drop (nat n) rest) (written + n) os1 = Some (ret, fl', os')"
      and d: "ret = -1 \<and> (\<exists>k\<le>length (drop (nat n) rest). content os' = content os1 @ take k (drop (nat n) rest)) \<or>
        ret = written + n + int (length (drop (nat n) rest)) \<and> content os' = content os1 @ drop (nat n) rest \<and>
        f_offset fl' = f_offset ?fl + of_nat (length (drop (nat n) rest))" by auto
    have eq: "write_loop S fl rest written os = Some (ret, fl', os')"
      using w r False m1 by (subst write_loop.simps) (simp add: Let_def)
    from d show ?thesis
    proof
      assume "ret = -1 \<and> (\<exists>k\<le>length (drop (nat n) rest). content os' = content os1 @ take k (drop (nat n) rest))"
      then obtain k where "ret = -1" "k \<le> length rest - nat n" "content os' = content os @ take (nat n + k) rest"
        using n by (auto simp: take_add)
      moreover have "nat n + k \<le> length rest" using calculation(2) n by simp
      ultimately show ?thesis using eq by blast
    next
      assume a: "ret = written + n + int (length (drop (nat n) rest)) \<and> content os' = content os1 @ drop (nat n) rest \<and>
        f_offset fl' = f_offset ?fl + of_nat (length (drop (nat n) rest))"
      have "of_nat (length (drop (nat n) rest)) = (of_nat (length rest) - word_of_int n :: size_t)"
        using n by (simp add: of_nat_diff of_nat_nat)
      with a n eq show ?thesis by (simp add: of_nat_diff)
    qed
  qed
  qed
qed

text \<open>
  When \<open>write\<close> makes progress, \<open>fpx_file_write\<close> returns, despite short
  writes: either with -1 after a failed call, when a prefix of the buffer has been written,
  or with the size of the buffer, when the whole buffer has been written exactly once, in
  order, and the offset of the file advanced by that many bytes.
\<close>

theorem fpx_file_write_all:
  assumes "write_ok S content (f_fd fl)"
    and "s_lseek S (f_fd fl) (sint offset) SEEK_SET os = (r, os0)" "content os0 = content os"
  shows "\<exists>ret fl' os'. fpx_file_write S fl buf offset os = Some (ret, fl', os') \<and>
    (ret = -1 \<and> (\<exists>k\<le>length buf. content os' = content os @ take k buf) \<or>
     ret = int (length buf) \<and> content os' = content os @ buf \<and>
     f_offset fl' = f_offset fl + of_nat (length buf))"
proof (cases "r = -1")
  case True
  with assms show ?thesis by (auto simp: fpx_file_write_def intro!: exI [of _ "0 :: nat"])
next
  case False
  with write_loop_all [OF assms(1), of fl buf 0 os0] assms(2,3) show ?thesis
    by (auto simp: fpx_file_write_def)
qed

text \<open>A file in memory whose \<open>write\<close> takes at most three bytes at a time.\<close>

definition mem_sys :: "(byte list \<times> int) sys" where
  "mem_sys = \<lparr>s_errno = (\<lambda>_. 5), s_open = (\<lambda>_ _ _ os. (3, os)), s_close = (\<lambda>_ os. os),
     s_lseek = (\<lambda>_ off whence (c, p).
        if whence = SEEK_CUR then (p mod 2 ^ 63, (c, p))
        else if whence = SEEK_END then (int (length c) mod 2 ^ 63, (c, int (length c) mod 2 ^ 63))
        else (off, (c, off))),
     s_read = (\<lambda>_ n (c, p). ((int (min n (length c)), take n c), (c, p))),
     s_write = (\<lambda>_ buf (c, p). (int (min 3 (length buf)), (c @ take 3 buf, p))),
     s_stat = (\<lambda>_ _. None), s_fstat = (\<lambda>_ _. None), s_opendir = (\<lambda>_ os. (0, os)),
     s_readdir = (\<lambda>_ os. (None, os)), s_closedir = (\<lambda>_ os. os), s_glob = (\<lambda>_ os. (0, [], os))\<rparr>"

lemma mem_sys_write_ok: "write_ok mem_sys fst fd"
proof -
  have "take (nat (int (min 3 (length buf)))) buf = take 3 buf" for buf :: "byte list"
    by (simp only: nat_int) (simp add: min_def)
  then show ?thesis
    by (simp add: write_ok_def mem_sys_def split: prod.splits)
qed

theorem fpx_file_write_all_witness:
  "\<exists>ret fl' os'. fpx_file_write mem_sys \<lparr>f_fd = 3, f_name = None, f_offset = 0\<rparr> [1, 2, 3, 4, 5] 0 ([9], 1) =
     Some (ret, fl', os') \<and> (ret = -1 \<or> ret = 5 \<and> fst os' = [9, 1, 2, 3, 4, 5] \<and> f_offset fl' = 5)"
proof -
  let ?fl = "\<lparr>f_fd = 3, f_name = None, f_offset = 0\<rparr>"
  have "s_lseek mem_sys (f_fd ?fl) (sint (0 :: size_t)) SEEK_SET ([9], 1) = (0, ([9], 0))"
    by (simp add: mem_sys_def SEEK_SET_def SEEK_CUR_def SEEK_END_def)
  from fpx_file_write_all [OF mem_sys_write_ok this, of "[1, 2, 3, 4, 5]"] show ?thesis by auto
qed

text \<open>
  \<open>fpx_file_size\<close> returns the length of the file wherever its
  position is, and leaves the position where it was, as its comment promises.
\<close>

theorem fpx_file_size_restores:
  assumes "seek_ok S pos len (f_fd fl)"
  shows "\<exists>os'. fpx_file_size S fl os = (len os, os') \<and> pos os' = pos os \<and> len os' = len os"
proof -
  have small: "(word_of_int i :: size_t) \<noteq> -1 \<and> sint (word_of_int i :: size_t) = i" if "0 \<le> i" "i < 2 ^ 63" for i
  proof -
    have "sint (word_of_int i :: size_t) = i"
      using that by (simp add: sint_sbintrunc' signed_take_bit_int_eq_self)
    moreover have "sint (-1 :: size_t) = -1" by simp
    ultimately show ?thesis using that by force
  qed
  note ok = seek_okD [OF assms]
  note p = ok(1) [of os] ok(2) [of os] ok(3) [of os] ok(4) [of os] and c = ok(5) [of os]
  obtain os1 where e: "s_lseek S (f_fd fl) 0 SEEK_END os = (len os, os1)" "pos os1 = len os" "len os1 = len os"
    using ok(6) [of os] by blast
  obtain os2 where f: "s_lseek S (f_fd fl) (pos os) SEEK_SET os1 = (pos os, os2)" "pos os2 = pos os" "len os2 = len os1"
    using ok(7) [OF p(1,2), of os1] by blast
  show ?thesis
    using e f c p small [OF p(1,2)] small [OF p(3,4)] by (simp add: fpx_file_size_def Let_def)
qed

lemma mem_sys_seek_ok: "seek_ok mem_sys (\<lambda>os. snd os mod 2 ^ 63) (\<lambda>os. int (length (fst os)) mod 2 ^ 63) fd"
  by (auto simp: seek_ok_def mem_sys_def SEEK_SET_def SEEK_CUR_def SEEK_END_def)

theorem fpx_file_size_restores_witness:
  "\<exists>os'. fpx_file_size mem_sys \<lparr>f_fd = 3, f_name = None, f_offset = 0\<rparr> ([7, 8, 9], 1) = (3, os') \<and>
     snd os' mod 2 ^ 63 = 1"
  using fpx_file_size_restores [OF mem_sys_seek_ok, of "\<lparr>f_fd = 3, f_name = None, f_offset = 0\<rparr>" "([7, 8, 9], 1)"]
  by auto

section \<open>Paths\<close>

lemma wildcard_loop_cstr:
  assumes "is_cstr path s"
  shows "i \<le> length s \<Longrightarrow> length s - i < k \<Longrightarrow>
    wildcard_loop path i k = Some (\<exists>c\<in>set (drop i s). c = 0x3F \<or> c = 0x2A)"
proof (induction k arbitrary: i)
  case (Suc k)
  show ?case
  proof (cases "i = length s")
    case True
    then show ?thesis using is_cstr_rd(2) [OF assms] by simp
  next
    case False
    then have i: "i < length s" using Suc.prems by simp
    then have r: "rd path i = Some (s ! i)" "s ! i \<noteq> 0" "drop i s = s ! i # drop (Suc i) s"
      using is_cstr_rd(1) [OF assms] is_cstr_nz [OF assms] by (auto simp: Cons_nth_drop_Suc)
    have "wildcard_loop path (Suc i) k = Some (\<exists>c\<in>set (drop (Suc i) s). c = 0x3F \<or> c = 0x2A)"
      using Suc i by simp
    then show ?thesis using r by auto
  qed
qed simp

text \<open>
  On C strings: a path is absolute exactly when it starts with a slash,
  it has a wildcard exactly when it contains a question mark or an asterisk, and the full path
  of a file below a non-empty directory path is the directory without one trailing slash, a
  slash and the file name, provided it fits the buffer. An empty directory path reads before
  the start of the string, and a result that does not fit is written past the buffer.
\<close>

theorem fpx_path_helpers:
  assumes "is_cstr path p" "is_cstr file f"
  shows "fpx_check_absolute_path path =
      Some (if p \<noteq> [] \<and> hd p = FPX_PATH_SEPARATOR then FPX_OK else FPX_ERR_FILESYS_ABS_PATH) \<and>
    fpx_is_path_has_wildcard path = Some (0x3F \<in> set p \<or> 0x2A \<in> set p) \<and>
    (let dir = (if p \<noteq> [] \<and> last p = FPX_PATH_SEPARATOR then butlast p else p);
         out = dir @ [FPX_PATH_SEPARATOR] @ f @ [0] in
     fpx_file_full_path cap path file =
       (if p = [] \<or> cap < length out then None else Some (length dir + 1 + length f, out)))"
proof (intro conjI)
  obtain r where path: "path = p @ 0 # r" using assms(1) by (auto simp: is_cstr_append)
  obtain q where fl: "file = f @ 0 # q" using assms(2) by (auto simp: is_cstr_append)
  show "fpx_check_absolute_path path =
      Some (if p \<noteq> [] \<and> hd p = FPX_PATH_SEPARATOR then FPX_OK else FPX_ERR_FILESYS_ABS_PATH)"
    by (cases p) (auto simp: path fpx_check_absolute_path_def FPX_PATH_SEPARATOR_def)
  have "length p < Suc (length path)" by (simp add: path)
  then show "fpx_is_path_has_wildcard path = Some (0x3F \<in> set p \<or> 0x2A \<in> set p)"
    using wildcard_loop_cstr [OF assms(1), of 0 "Suc (length path)"]
    by (auto simp: fpx_is_path_has_wildcard_def)
  have "rd path (length p - 1) = Some (last p)" if "p \<noteq> []"
    using that by (simp add: path nth_append last_conv_nth)
  then show "let dir = (if p \<noteq> [] \<and> last p = FPX_PATH_SEPARATOR then butlast p else p);
         out = dir @ [FPX_PATH_SEPARATOR] @ f @ [0] in
     fpx_file_full_path cap path file =
       (if p = [] \<or> cap < length out then None else Some (length dir + 1 + length f, out))"
    using assms by (auto simp: fpx_file_full_path_def full_path_def Let_def fpx_is_path_separator_def path fl
        butlast_conv_take)
qed

theorem fpx_path_helpers_witness:
  "fpx_file_full_path 4096 [0x2F, 0x61, 0x2F, 0] [0x62, 0] = Some (4, [0x2F, 0x61, 0x2F, 0x62, 0]) \<and>
   fpx_is_path_has_wildcard [0x2F, 0x2A, 0] = Some True"
  using fpx_path_helpers [of "[0x2F, 0x61, 0x2F, 0]" "[0x2F, 0x61, 0x2F]" "[0x62, 0]" "[0x62]" 4096]
    fpx_path_helpers [of "[0x2F, 0x2A, 0]" "[0x2F, 0x2A]" "[0]" "[]" 4096]
  by (simp add: is_cstr_def FPX_PATH_SEPARATOR_def)

end
