(* ===== verification/Fpx_Config.thy ===== *)
theory Fpx_Config
  imports Fpx_Filesys
begin

text \<open>
  The configuration reader of \<open>src/core/command.c\<close>: \<open>fpx_config_parse\<close> and
  \<open>fpx_config_save_directive\<close>. Lists of directives and files are HOL lists (theory
  \<open>Fpx_List\<close> shows that \<open>fpx_list_push_back\<close> appends), strings are the bytes before the
  terminator. Of the pool the reader sees whether its n-th request is served. Below the
  model of the loop stands a line-wise reference lexer, and the loop is proved to agree with
  it on every input.
\<close>

section \<open>Data\<close>

record penv =
  pe_ok :: "nat \<Rightarrow> bool"
  pe_next :: nat
  pe_errno :: fpx_err_t

definition palloc :: "penv \<Rightarrow> bool \<times> penv" where
  "palloc pool = (pe_ok pool (pe_next pool), pool\<lparr>pe_next := Suc (pe_next pool)\<rparr>)"

text \<open>
  Registering a cleanup takes memory from the pool too, and stores through the result without
  a test (\<open>fpx_pool_cleanup_add1\<close>).
\<close>

definition pcleanup :: "penv \<Rightarrow> penv option" where
  "pcleanup pool = (case palloc pool of (ok, pool) \<Rightarrow> if ok then Some pool else None)"

text \<open>
  The file name of a directive: \<open>fpx_config_parse\<close> computes it from the address of the list
  header \<open>conf_files\<close> instead of its last element, and reads the member \<open>conf_list.tail\<close> as
  the name. The model keeps that pointer: \<^const>\<open>None\<close> for NULL, or the directive it points to.
\<close>

record directive =
  di_name :: "byte list"
  di_argv :: "byte list list"
  di_filename :: "nat option"
  di_line :: nat

record config =
  conf_list :: "directive list"
  conf_files :: "fpx_file list"

definition FPX_MAX_TAKES :: nat where "FPX_MAX_TAKES = 8"

definition fpx_config_save_directive ::
  "config \<Rightarrow> penv \<Rightarrow> byte list \<Rightarrow> byte list list \<Rightarrow> nat option \<Rightarrow> nat \<Rightarrow> fpx_err_t \<times> config \<times> penv" where
  "fpx_config_save_directive config pool name argv filename line =
     (let (ok, pool) = palloc pool in
      if \<not> ok then (pe_errno pool, config, pool)
      else
        let directive = \<lparr>di_name = name, di_argv = argv, di_filename = filename, di_line = line\<rparr>;
            (ok, pool) = palloc pool in
        if \<not> ok then (pe_errno pool, config, pool)
        else (FPX_OK, config\<lparr>conf_list := conf_list config @ [directive]\<rparr>, pool))"

section \<open>The loop of the parser\<close>

record pstate =
  ps_begin :: "nat option"
  ps_in :: bool
  ps_str :: "byte list"
  ps_argv :: "byte list list"
  ps_comment :: bool
  ps_line :: nat
  ps_config :: config
  ps_pool :: penv

type_synonym 'a presult = "(fpx_err_t \<times> pstate) + 'a"

definition is_blank :: "byte \<Rightarrow> bool" where "is_blank c \<longleftrightarrow> c = 0x9 \<or> c = 0x20"
definition is_eol :: "byte \<Rightarrow> bool" where "is_eol c \<longleftrightarrow> c = 0xA \<or> c = 0xD"
definition hash :: byte where "hash = 0x23"

text \<open>The \<open>switch\<close>: the new state and the flags \<open>found\<close>, \<open>end_line\<close> and \<open>end_file\<close>.\<close>

definition parse_switch :: "nat \<Rightarrow> byte \<Rightarrow> pstate \<Rightarrow> (pstate \<times> bool \<times> bool \<times> bool) presult" where
  "parse_switch i c st =
     (if c = 0 then Inr (st, False, False, True)
      else if is_blank c then Inr (st, ps_begin st \<noteq> None, False, False)
      else if is_eol c then Inr (st\<lparr>ps_comment := False\<rparr>, ps_begin st \<noteq> None, True, False)
      else if c = hash then
        if ps_begin st \<noteq> None then Inl (FPX_ERR_CONFIG_SYNTAX, st)
        else Inr (st\<lparr>ps_comment := True\<rparr>, False, False, False)
      else if \<not> fpx_isascii c then Inl (FPX_ERR_CONFIG_SYNTAX, st)
      else Inr (if ps_begin st = None \<and> \<not> ps_comment st then st\<lparr>ps_begin := Some i\<rparr> else st,
                False, False, False))"

text \<open>A word is complete: it is the name of a directive or its next argument.\<close>

definition parse_word :: "byte list \<Rightarrow> nat \<Rightarrow> pstate \<Rightarrow> pstate presult" where
  "parse_word buf i st =
     (let b = the (ps_begin st);
          word = take (i - b) (drop b buf);
          (ok, pool) = palloc (ps_pool st);
          st = st\<lparr>ps_pool := pool\<rparr> in
      if \<not> ok then Inl (pe_errno pool, st)
      else if \<not> ps_in st then Inr (st\<lparr>ps_in := True, ps_str := word, ps_begin := None\<rparr>)
      else
        let st = st\<lparr>ps_argv := ps_argv st @ [word]\<rparr> in
        if length (ps_argv st) \<ge> FPX_MAX_TAKES then Inl (FPX_ERR_CONFIG_SYNTAX, st)
        else Inr (st\<lparr>ps_begin := None\<rparr>))"

text \<open>The end of a line; the result of saving the directive is ignored.\<close>

definition parse_eol :: "nat option \<Rightarrow> pstate \<Rightarrow> pstate" where
  "parse_eol filename st =
     (let st = (if ps_in st then
            case fpx_config_save_directive (ps_config st) (ps_pool st) (ps_str st) (ps_argv st)
                   filename (ps_line st) of
              (_, config, pool) \<Rightarrow> st\<lparr>ps_config := config, ps_pool := pool\<rparr>
          else st)
      in st\<lparr>ps_in := False, ps_argv := [], ps_line := ps_line st + 1\<rparr>)"

definition parse_char :: "nat option \<Rightarrow> byte list \<Rightarrow> nat \<Rightarrow> byte \<Rightarrow> pstate \<Rightarrow> (pstate \<times> bool) presult" where
  "parse_char filename buf i c st =
     (case parse_switch i c st of
        Inl e \<Rightarrow> Inl e
      | Inr (st, found, end_line, end_file) \<Rightarrow>
          (case (if found then parse_word buf i st else Inr st) of
             Inl e \<Rightarrow> Inl e
           | Inr st \<Rightarrow> Inr (if end_line then parse_eol filename st else st, end_file)))"

function parse_loop :: "nat option \<Rightarrow> byte list \<Rightarrow> nat \<Rightarrow> pstate \<Rightarrow> (fpx_err_t \<times> pstate) option" where
  "parse_loop filename buf i st =
     (if i < length buf then
        case parse_char filename buf i (buf ! i) st of
          Inl e \<Rightarrow> Some e
        | Inr (st, end_file) \<Rightarrow> if end_file then Some (FPX_OK, st) else parse_loop filename buf (Suc i) st
      else None)"
  by pat_completeness auto

termination
  by (relation "measure (\<lambda>(_, buf, i, _). length buf - i)") auto

declare parse_loop.simps [simp del]

definition conf_tail :: "config \<Rightarrow> nat option" where
  "conf_tail config = (if conf_list config = [] then None else Some (length (conf_list config) - 1))"

definition parse_start :: "config \<Rightarrow> penv \<Rightarrow> pstate" where
  "parse_start config pool = \<lparr>ps_begin = None, ps_in = False, ps_str = [], ps_argv = [],
     ps_comment = False, ps_line = 1, ps_config = config, ps_pool = pool\<rparr>"

definition fpx_config_parse :: "config \<Rightarrow> penv \<Rightarrow> byte list \<Rightarrow> (fpx_err_t \<times> config \<times> penv) option" where
  "fpx_config_parse config pool file_buf =
     map_option (\<lambda>(err, st). (err, ps_config st, ps_pool st))
       (parse_loop (conf_tail config) file_buf 0 (parse_start config pool))"

section \<open>The reference lexer\<close>

text \<open>
  The words of one line without its end; \<^const>\<open>None\<close> is a syntax error: a number sign that
  touches a word, or a byte outside ASCII, in a comment too.
\<close>

fun lex_line :: "byte list \<Rightarrow> byte list \<Rightarrow> byte list list option" where
  "lex_line cur [] = Some (if cur = [] then [] else [cur])"
| "lex_line cur (c # cs) =
     (if c = hash then if cur = [] \<and> list_all fpx_isascii cs then Some [] else None
      else if is_blank c then
        if cur = [] then lex_line [] cs else map_option (Cons cur) (lex_line [] cs)
      else if \<not> fpx_isascii c then None
      else lex_line (cur @ [c]) cs)"

definition text_line :: "byte list \<Rightarrow> bool" where
  "text_line l \<longleftrightarrow> list_all (\<lambda>c. c \<noteq> 0 \<and> \<not> is_eol c) l"

definition line_ok :: "byte list \<Rightarrow> bool" where
  "line_ok l \<longleftrightarrow> text_line l \<and> (case lex_line [] l of None \<Rightarrow> False | Some ws \<Rightarrow> length ws \<le> FPX_MAX_TAKES)"

definition line_bad :: "byte list \<Rightarrow> bool" where
  "line_bad l \<longleftrightarrow> text_line l \<and> (case lex_line [] l of None \<Rightarrow> True | Some ws \<Rightarrow> length ws > FPX_MAX_TAKES)"

definition line_directives :: "nat option \<Rightarrow> nat \<Rightarrow> byte list \<Rightarrow> directive list" where
  "line_directives filename n l =
     (case lex_line [] l of
        Some (name # argv) \<Rightarrow> [\<lparr>di_name = name, di_argv = argv, di_filename = filename, di_line = n\<rparr>]
      | _ \<Rightarrow> [])"

fun text_directives :: "nat option \<Rightarrow> nat \<Rightarrow> (byte list \<times> byte) list \<Rightarrow> directive list" where
  "text_directives filename n [] = []"
| "text_directives filename n ((l, _) # ls) = line_directives filename n l @ text_directives filename (Suc n) ls"

definition text_bytes :: "(byte list \<times> byte) list \<Rightarrow> byte list" where
  "text_bytes ls = concat (map (\<lambda>(l, e). l @ [e]) ls)"

section \<open>The loop agrees with the lexer\<close>

text \<open>
  The parser in the middle of a line at position \<open>i\<close>: \<open>cur\<close> is the word begun and \<open>ws\<close> the words
  completed in this line.
\<close>

definition mid :: "byte list \<Rightarrow> nat \<Rightarrow> pstate \<Rightarrow> byte list \<Rightarrow> byte list list \<Rightarrow> bool \<Rightarrow> bool" where
  "mid buf i st cur ws cm \<longleftrightarrow>
     ps_begin st = (if cur = [] then None else Some (i - length cur)) \<and> length cur \<le> i \<and>
     take (length cur) (drop (i - length cur) buf) = cur \<and>
     ps_in st = (ws \<noteq> []) \<and> (ws \<noteq> [] \<longrightarrow> ps_str st = hd ws) \<and> ps_argv st = tl ws \<and>
     ps_comment st = cm \<and> (cm \<longrightarrow> cur = []) \<and> length ws \<le> FPX_MAX_TAKES \<and>
     pe_ok (ps_pool st) = (\<lambda>_. True)"

definition same_out :: "pstate \<Rightarrow> pstate \<Rightarrow> bool" where
  "same_out st st' \<longleftrightarrow> ps_line st' = ps_line st \<and> ps_config st' = ps_config st"

definition dirs :: "nat option \<Rightarrow> nat \<Rightarrow> byte list list \<Rightarrow> directive list" where
  "dirs filename n ws = (case ws of [] \<Rightarrow> []
     | name # argv \<Rightarrow> [\<lparr>di_name = name, di_argv = argv, di_filename = filename, di_line = n\<rparr>])"

lemma drop_nth: "drop i buf = c # r \<Longrightarrow> i < length buf \<and> buf ! i = c \<and> drop (Suc i) buf = r"
  by (metis Cons_nth_drop_Suc drop_eq_Nil leI list.distinct(1) list.inject)

lemma drop_past: "drop i buf = l @ r \<Longrightarrow> drop (i + length l) buf = r"
  by (metis add.commute append_eq_conv_conj drop_drop)

lemma parse_loop_step:
  assumes "drop i buf = c # r" "parse_char fn buf i c st = Inr (st', False)"
  shows "parse_loop fn buf i st = parse_loop fn buf (Suc i) st'"
  using assms drop_nth [OF assms(1)] by (subst parse_loop.simps) simp

lemma parse_loop_stop:
  assumes "drop i buf = c # r" "parse_char fn buf i c st = Inl e"
  shows "parse_loop fn buf i st = Some e"
  using assms drop_nth [OF assms(1)] by (subst parse_loop.simps) simp

lemma palloc_ok [simp]: "pe_ok pool = (\<lambda>_. True) \<Longrightarrow> palloc pool = (True, pool\<lparr>pe_next := Suc (pe_next pool)\<rparr>)"
  by (simp add: palloc_def)

lemma parse_word_mid:
  assumes "mid buf i st cur ws False" "cur \<noteq> []"
  shows "length ws < FPX_MAX_TAKES \<Longrightarrow> \<exists>st'. parse_word buf i st = Inr st' \<and> mid buf i st' [] (ws @ [cur]) False \<and> same_out st st'"
    and "length ws = FPX_MAX_TAKES \<Longrightarrow> \<exists>st'. parse_word buf i st = Inl (FPX_ERR_CONFIG_SYNTAX, st') \<and> same_out st st'"
  using assms by (cases ws; auto simp: parse_word_def mid_def same_out_def Let_def FPX_MAX_TAKES_def)+

lemma mid_comment_cong:
  "mid buf i st cur ws cm \<Longrightarrow> (cm' \<Longrightarrow> cur = []) \<Longrightarrow> mid buf i (st\<lparr>ps_comment := cm'\<rparr>) cur ws cm'"
  by (simp add: mid_def)

lemma mid_Suc: "mid buf i st [] ws cm \<Longrightarrow> mid buf (Suc i) st [] ws cm"
  by (simp add: mid_def)

lemma parse_blank:
  assumes "mid buf i st cur ws cm" "is_blank c"
  shows "cur = [] \<Longrightarrow> parse_char fn buf i c st = Inr (st, False)"
    and "cur \<noteq> [] \<Longrightarrow> length ws < FPX_MAX_TAKES \<Longrightarrow>
      \<exists>st'. parse_char fn buf i c st = Inr (st', False) \<and> mid buf (Suc i) st' [] (ws @ [cur]) False \<and> same_out st st'"
    and "cur \<noteq> [] \<Longrightarrow> length ws = FPX_MAX_TAKES \<Longrightarrow>
      \<exists>st'. parse_char fn buf i c st = Inl (FPX_ERR_CONFIG_SYNTAX, st') \<and> same_out st st'"
proof -
  have b: "parse_switch i c st = Inr (st, cur \<noteq> [], False, False)"
    using assms by (auto simp: parse_switch_def mid_def is_blank_def)
  show "parse_char fn buf i c st = Inr (st, False)" if "cur = []"
    using b that by (simp add: parse_char_def)
  have cm: "mid buf i st cur ws False" if "cur \<noteq> []" using assms(1) that by (auto simp: mid_def)
  show "\<exists>st'. parse_char fn buf i c st = Inr (st', False) \<and> mid buf (Suc i) st' [] (ws @ [cur]) False \<and> same_out st st'"
    if "cur \<noteq> []" "length ws < FPX_MAX_TAKES"
    using parse_word_mid(1) [OF cm [OF that(1)] that] b that(1) mid_Suc by (auto simp: parse_char_def)
  show "\<exists>st'. parse_char fn buf i c st = Inl (FPX_ERR_CONFIG_SYNTAX, st') \<and> same_out st st'"
    if "cur \<noteq> []" "length ws = FPX_MAX_TAKES"
    using parse_word_mid(2) [OF cm [OF that(1)] that] b that(1) by (auto simp: parse_char_def)
qed

lemma parse_plain:
  assumes "mid buf i st cur ws False" "c \<noteq> 0" "\<not> is_blank c" "\<not> is_eol c" "c \<noteq> hash"
    and "fpx_isascii c" "drop i buf = c # r"
  shows "\<exists>st'. parse_char fn buf i c st = Inr (st', False) \<and> mid buf (Suc i) st' (cur @ [c]) ws False \<and> same_out st st'"
proof -
  have "take (length (cur @ [c])) (drop (i - length cur) buf) = cur @ [c]"
  proof -
    have "drop (i - length cur) buf = cur @ c # r"
      using assms(1,7) append_take_drop_id [of "length cur" "drop (i - length cur) buf"]
      by (simp add: mid_def)
    then show ?thesis by simp
  qed
  then show ?thesis using assms
    by (cases "cur = []") (auto simp: parse_char_def parse_switch_def mid_def same_out_def)
qed

lemma parse_eol_mid:
  assumes "mid buf i st [] ws cm" "\<not> cm"
  shows "mid buf (Suc i) (parse_eol fn st) [] [] False \<and> ps_line (parse_eol fn st) = Suc (ps_line st) \<and>
    ps_config (parse_eol fn st) = (ps_config st)\<lparr>conf_list := conf_list (ps_config st) @ dirs fn (ps_line st) ws\<rparr>"
  using assms by (cases ws) (auto simp: parse_eol_def mid_def dirs_def fpx_config_save_directive_def Let_def)

lemma parse_end_of_line:
  assumes "mid buf i st cur ws cm" "is_eol e" "drop i buf = e # r"
  shows "length (ws @ (if cur = [] then [] else [cur])) \<le> FPX_MAX_TAKES \<Longrightarrow>
    \<exists>st'. parse_char fn buf i e st = Inr (st', False) \<and> mid buf (Suc i) st' [] [] False \<and>
      ps_line st' = Suc (ps_line st) \<and>
      ps_config st' = (ps_config st)\<lparr>conf_list := conf_list (ps_config st) @
        dirs fn (ps_line st) (ws @ (if cur = [] then [] else [cur]))\<rparr>"
    and "length (ws @ (if cur = [] then [] else [cur])) > FPX_MAX_TAKES \<Longrightarrow>
    \<exists>st'. parse_char fn buf i e st = Inl (FPX_ERR_CONFIG_SYNTAX, st') \<and> same_out st st'"
proof -
  let ?st = "st\<lparr>ps_comment := False\<rparr>"
  have m: "mid buf i ?st cur ws False" using assms(1) by (intro mid_comment_cong) simp_all
  have sw: "parse_switch i e st = Inr (?st, cur \<noteq> [], True, False)"
    using assms by (auto simp: parse_switch_def mid_def is_eol_def is_blank_def)
  have o: "same_out ?st s \<longleftrightarrow> same_out st s" for s by (simp add: same_out_def)
  {
    assume l: "length (ws @ (if cur = [] then [] else [cur])) \<le> FPX_MAX_TAKES"
    have "\<exists>s1. (if cur \<noteq> [] then parse_word buf i ?st else Inr ?st) = Inr s1 \<and>
        mid buf i s1 [] (ws @ (if cur = [] then [] else [cur])) False \<and> same_out st s1"
      using parse_word_mid(1) [OF m] m l by (cases "cur = []") (auto simp: o same_out_def)
    then obtain s1 where s1: "(if cur \<noteq> [] then parse_word buf i ?st else Inr ?st) = Inr s1"
      "mid buf i s1 [] (ws @ (if cur = [] then [] else [cur])) False" "same_out st s1" by blast
    from parse_eol_mid [OF s1(2), of fn] s1(1,3) sw
    show "\<exists>st'. parse_char fn buf i e st = Inr (st', False) \<and> mid buf (Suc i) st' [] [] False \<and>
      ps_line st' = Suc (ps_line st) \<and>
      ps_config st' = (ps_config st)\<lparr>conf_list := conf_list (ps_config st) @
        dirs fn (ps_line st) (ws @ (if cur = [] then [] else [cur]))\<rparr>"
      by (simp add: parse_char_def same_out_def)
  }
  assume "length (ws @ (if cur = [] then [] else [cur])) > FPX_MAX_TAKES"
  moreover have "length ws \<le> FPX_MAX_TAKES" using assms(1) by (simp add: mid_def)
  ultimately have "cur \<noteq> []" "length ws = FPX_MAX_TAKES" by (auto split: if_splits)
  from parse_word_mid(2) [OF m this] sw this(1)
  show "\<exists>st'. parse_char fn buf i e st = Inl (FPX_ERR_CONFIG_SYNTAX, st') \<and> same_out st st'"
    by (auto simp: parse_char_def o)
qed

text \<open>In a comment everything up to the end of the line is skipped, if it is ASCII.\<close>

lemma parse_comment_char:
  assumes "mid buf i st [] ws True" "c \<noteq> 0" "\<not> is_eol c"
  shows "fpx_isascii c \<Longrightarrow> parse_char fn buf i c st = Inr (st, False)"
    and "\<not> fpx_isascii c \<Longrightarrow> parse_char fn buf i c st = Inl (FPX_ERR_CONFIG_SYNTAX, st)"
proof -
  have "fpx_isascii c" if "is_blank c \<or> c = hash"
    using that by (auto simp: is_blank_def hash_def fpx_isascii_def)
  moreover have "st\<lparr>ps_comment := True\<rparr> = st" using assms(1) by (simp add: mid_def)
  ultimately show "fpx_isascii c \<Longrightarrow> parse_char fn buf i c st = Inr (st, False)"
    and "\<not> fpx_isascii c \<Longrightarrow> parse_char fn buf i c st = Inl (FPX_ERR_CONFIG_SYNTAX, st)"
    using assms by (auto simp: parse_char_def parse_switch_def mid_def)
qed

lemma parse_comment:
  assumes "mid buf i st [] ws True" "drop i buf = l @ r" "text_line l"
  shows "list_all fpx_isascii l \<Longrightarrow> parse_loop fn buf i st = parse_loop fn buf (i + length l) st \<and>
      mid buf (i + length l) st [] ws True"
    and "\<not> list_all fpx_isascii l \<Longrightarrow> parse_loop fn buf i st = Some (FPX_ERR_CONFIG_SYNTAX, st)"
  using assms
proof (induction l arbitrary: i)
  case (Cons c l)
  { case 1
    then have "drop (Suc i) buf = l @ r" using drop_nth by (metis append_Cons)
    with Cons.IH(1) [of "Suc i"] 1 mid_Suc
      parse_loop_step [of i buf c "l @ r" fn st st] parse_comment_char(1) [of buf i st ws c fn]
    show ?case by (simp add: text_line_def) }
  { case 2
    then have d: "drop (Suc i) buf = l @ r" using drop_nth by (metis append_Cons)
    show ?case
    proof (cases "fpx_isascii c")
      case True
      with d Cons.IH(2) [of "Suc i"] 2 mid_Suc
        parse_loop_step [of i buf c "l @ r" fn st st] parse_comment_char(1) [of buf i st ws c fn]
      show ?thesis by (simp add: text_line_def)
    next
      case False
      with 2 parse_loop_stop [of i buf c "l @ r" fn st] parse_comment_char(2) [of buf i st ws c fn]
      show ?thesis by (simp add: text_line_def)
    qed }
qed simp_all

lemma parse_hash:
  assumes "mid buf i st cur ws False"
  shows "cur = [] \<Longrightarrow> parse_char fn buf i hash st = Inr (st\<lparr>ps_comment := True\<rparr>, False) \<and>
      mid buf (Suc i) (st\<lparr>ps_comment := True\<rparr>) [] ws True"
    and "cur \<noteq> [] \<Longrightarrow> parse_char fn buf i hash st = Inl (FPX_ERR_CONFIG_SYNTAX, st)"
  using assms by (auto simp: parse_char_def parse_switch_def mid_def hash_def is_blank_def is_eol_def)

text \<open>The state at the end of the text of a well-formed line.\<close>

lemma parse_text:
  assumes "mid buf i st cur ws False" "drop i buf = l @ r" "text_line l"
    and "lex_line cur l = Some vs" "length (ws @ vs) \<le> FPX_MAX_TAKES"
  shows "\<exists>st' cur' ws' cm. parse_loop fn buf i st = parse_loop fn buf (i + length l) st' \<and>
    mid buf (i + length l) st' cur' ws' cm \<and> ws' @ (if cur' = [] then [] else [cur']) = ws @ vs \<and> same_out st st'"
  using assms
proof (induction l arbitrary: i st cur ws vs)
  case Nil
  then show ?case by (intro exI [of _ st] exI [of _ cur] exI [of _ ws] exI [of _ False]) (auto simp: same_out_def)
next
  case (Cons c l)
  have d2: "drop i buf = c # l @ r" using Cons.prems(2) by simp
  have d: "drop (Suc i) buf = l @ r" "drop i buf = c # l @ r" using drop_nth [OF d2] d2 by blast+
  have c: "c \<noteq> 0" "\<not> is_eol c" "text_line l" using Cons.prems(3) by (auto simp: text_line_def)
  have tr: "same_out a b \<Longrightarrow> same_out b c' \<Longrightarrow> same_out a c'" for a b c' by (simp add: same_out_def)
  consider (hash) "c = hash" | (blank0) "c \<noteq> hash" "is_blank c" "cur = []"
    | (blank) "c \<noteq> hash" "is_blank c" "cur \<noteq> []" | (plain) "c \<noteq> hash" "\<not> is_blank c" by blast
  then show ?case
  proof cases
    case hash
    then have h: "cur = []" "list_all fpx_isascii l" "vs = []"
      using Cons.prems(4) by (auto split: if_splits)
    note p = parse_hash(1) [OF Cons.prems(1) h(1), of fn]
    note q = parse_comment(1) [OF p [THEN conjunct2] d(1) c(3) h(2), of fn]
    have "parse_loop fn buf i st = parse_loop fn buf (i + length (c # l)) (st\<lparr>ps_comment := True\<rparr>)"
      using parse_loop_step [OF d(2)] p q hash by simp
    with q show ?thesis
      by (intro exI [of _ "st\<lparr>ps_comment := True\<rparr>"] exI [of _ "[]"] exI [of _ ws] exI [of _ True])
        (simp add: h same_out_def)
  next
    case blank0
    then have "lex_line [] l = Some vs" using Cons.prems(4) by simp
    with Cons.IH [of "Suc i" st "[]" ws vs] mid_Suc Cons.prems(1,5) d c(3) blank0
      parse_loop_step [OF d(2) parse_blank(1) [OF Cons.prems(1) blank0(2,3)], of fn]
    show ?thesis by simp
  next
    case blank
    then obtain us where us: "lex_line [] l = Some us" "vs = cur # us" using Cons.prems(4) by auto
    with Cons.prems(5) have "length ws < FPX_MAX_TAKES" by simp
    from parse_blank(2) [OF Cons.prems(1) blank(2,3) this, of fn] obtain s1 where
      s1: "parse_char fn buf i c st = Inr (s1, False)" "mid buf (Suc i) s1 [] (ws @ [cur]) False" "same_out st s1" by blast
    have "length ((ws @ [cur]) @ us) \<le> FPX_MAX_TAKES" using Cons.prems(5) us(2) by simp
    from Cons.IH [OF s1(2) d(1) c(3) us(1) this] obtain st' cur' ws' cm where
      r: "parse_loop fn buf (Suc i) s1 = parse_loop fn buf (Suc i + length l) st'"
      "mid buf (Suc i + length l) st' cur' ws' cm"
      "ws' @ (if cur' = [] then [] else [cur']) = (ws @ [cur]) @ us" "same_out s1 st'" by blast
    show ?thesis using r parse_loop_step [OF d(2) s1(1)] tr [OF s1(3) r(4)] us(2)
      by (intro exI [of _ st'] exI [of _ cur'] exI [of _ ws'] exI [of _ cm]) simp
  next
    case plain
    then have a: "fpx_isascii c" "lex_line (cur @ [c]) l = Some vs" using Cons.prems(4) by (auto split: if_splits)
    from parse_plain [OF Cons.prems(1) c(1) plain(2) c(2) plain(1) a(1) d(2), of fn] obtain s1 where
      s1: "parse_char fn buf i c st = Inr (s1, False)" "mid buf (Suc i) s1 (cur @ [c]) ws False" "same_out st s1" by blast
    from Cons.IH [OF s1(2) d(1) c(3) a(2) Cons.prems(5)] obtain st' cur' ws' cm where
      r: "parse_loop fn buf (Suc i) s1 = parse_loop fn buf (Suc i + length l) st'"
      "mid buf (Suc i + length l) st' cur' ws' cm"
      "ws' @ (if cur' = [] then [] else [cur']) = ws @ vs" "same_out s1 st'" by blast
    show ?thesis using r parse_loop_step [OF d(2) s1(1)] tr [OF s1(3) r(4)]
      by (intro exI [of _ st'] exI [of _ cur'] exI [of _ ws'] exI [of _ cm]) simp
  qed
qed

definition too_bad :: "byte list list \<Rightarrow> byte list \<Rightarrow> byte list \<Rightarrow> bool" where
  "too_bad ws cur l \<longleftrightarrow> (case lex_line cur l of None \<Rightarrow> True | Some vs \<Rightarrow> length (ws @ vs) > FPX_MAX_TAKES)"

lemma same_out_trans: "same_out a b \<Longrightarrow> same_out b c \<Longrightarrow> same_out a c"
  by (simp add: same_out_def)

lemma parse_non_ascii:
  assumes "mid buf i st cur ws cm" "c \<noteq> 0" "\<not> is_blank c" "\<not> is_eol c" "c \<noteq> hash" "\<not> fpx_isascii c"
  shows "parse_char fn buf i c st = Inl (FPX_ERR_CONFIG_SYNTAX, st)"
  using assms by (simp add: parse_char_def parse_switch_def)

lemma parse_bad_line:
  assumes "mid buf i st cur ws False" "drop i buf = l @ e # r" "text_line l" "is_eol e" "too_bad ws cur l"
  shows "\<exists>st'. parse_loop fn buf i st = Some (FPX_ERR_CONFIG_SYNTAX, st') \<and> same_out st st'"
  using assms
proof (induction l arbitrary: i st cur ws)
  case Nil
  then have "length (ws @ (if cur = [] then [] else [cur])) > FPX_MAX_TAKES" "drop i buf = e # r"
    by (simp_all add: too_bad_def)
  from parse_end_of_line(2) [OF Nil.prems(1,4) this(2,1), of fn] parse_loop_stop [OF this(2)]
  show ?case by blast
next
  case (Cons c l)
  have d2: "drop i buf = c # l @ e # r" using Cons.prems(2) by simp
  have d: "drop (Suc i) buf = l @ e # r" using drop_nth [OF d2] by blast
  have c: "c \<noteq> 0" "\<not> is_eol c" "text_line l" using Cons.prems(3) by (auto simp: text_line_def)
  have so: "same_out st st" by (simp add: same_out_def)
  consider (hash) "c = hash" | (blank0) "c \<noteq> hash" "is_blank c" "cur = []"
    | (blank) "c \<noteq> hash" "is_blank c" "cur \<noteq> []" | (bin) "c \<noteq> hash" "\<not> is_blank c" "\<not> fpx_isascii c"
    | (plain) "c \<noteq> hash" "\<not> is_blank c" "fpx_isascii c" by blast
  then show ?case
  proof cases
    case hash
    show ?thesis
    proof (cases "cur = []")
      case True
      note p = parse_hash(1) [OF Cons.prems(1) True, of fn]
      have "length ws \<le> FPX_MAX_TAKES" using Cons.prems(1) by (simp add: mid_def)
      then have "\<not> list_all fpx_isascii l" using Cons.prems(5) True hash by (auto simp: too_bad_def split: if_splits)
      from parse_comment(2) [OF p [THEN conjunct2] d c(3) this, of fn] p parse_loop_step [OF d2] hash
      show ?thesis by (auto simp: same_out_def)
    next
      case False
      from parse_hash(2) [OF Cons.prems(1) False, of fn] parse_loop_stop [OF d2] hash so show ?thesis by auto
    qed
  next
    case blank0
    then have "too_bad ws [] l" using Cons.prems(5) by (simp add: too_bad_def)
    from Cons.IH [OF mid_Suc [OF Cons.prems(1) [unfolded blank0(3)]] d c(3) Cons.prems(4) this]
      parse_loop_step [OF d2 parse_blank(1) [OF Cons.prems(1) blank0(2,3)], of fn]
    show ?thesis by simp
  next
    case blank
    have "length ws \<le> FPX_MAX_TAKES" using Cons.prems(1) by (simp add: mid_def)
    then consider "length ws = FPX_MAX_TAKES" | "length ws < FPX_MAX_TAKES" by linarith
    then show ?thesis
    proof cases
      case 1
      from parse_blank(3) [OF Cons.prems(1) blank(2,3) 1, of fn] parse_loop_stop [OF d2] show ?thesis by blast
    next
      case 2
      from parse_blank(2) [OF Cons.prems(1) blank(2,3) 2, of fn] obtain s1 where
        s1: "parse_char fn buf i c st = Inr (s1, False)" "mid buf (Suc i) s1 [] (ws @ [cur]) False" "same_out st s1" by blast
      have "too_bad (ws @ [cur]) [] l" using Cons.prems(5) blank by (auto simp: too_bad_def split: option.splits)
      from Cons.IH [OF s1(2) d c(3) Cons.prems(4) this] parse_loop_step [OF d2 s1(1)] same_out_trans [OF s1(3)]
      show ?thesis by auto
    qed
  next
    case bin
    from parse_non_ascii [OF Cons.prems(1) c(1) bin(2) c(2) bin(1,3), of fn] parse_loop_stop [OF d2] so
    show ?thesis by auto
  next
    case plain
    from parse_plain [OF Cons.prems(1) c(1) plain(2) c(2) plain(1,3) d2, of fn] obtain s1 where
      s1: "parse_char fn buf i c st = Inr (s1, False)" "mid buf (Suc i) s1 (cur @ [c]) ws False" "same_out st s1" by blast
    have "too_bad ws (cur @ [c]) l" using Cons.prems(5) plain by (simp add: too_bad_def)
    from Cons.IH [OF s1(2) d c(3) Cons.prems(4) this] parse_loop_step [OF d2 s1(1)] same_out_trans [OF s1(3)]
    show ?thesis by auto
  qed
qed

definition add_directives :: "pstate \<Rightarrow> directive list \<Rightarrow> config" where
  "add_directives st ds = (ps_config st)\<lparr>conf_list := conf_list (ps_config st) @ ds\<rparr>"

lemma parse_good_line:
  assumes "mid buf i st [] [] False" "drop i buf = l @ e # r" "line_ok l" "is_eol e"
  shows "\<exists>st'. parse_loop fn buf i st = parse_loop fn buf (i + length l + 1) st' \<and>
    mid buf (i + length l + 1) st' [] [] False \<and> ps_line st' = Suc (ps_line st) \<and>
    ps_config st' = add_directives st (line_directives fn (ps_line st) l)"
proof -
  from assms(3) obtain vs where v: "lex_line [] l = Some vs" "length ([] @ vs) \<le> FPX_MAX_TAKES" "text_line l"
    by (auto simp: line_ok_def split: option.splits)
  from parse_text [OF assms(1,2) v(3,1,2), of fn] obtain s1 cur ws cm where
    s1: "parse_loop fn buf i st = parse_loop fn buf (i + length l) s1" "mid buf (i + length l) s1 cur ws cm"
    "ws @ (if cur = [] then [] else [cur]) = vs" "same_out st s1" by auto
  have d: "drop (i + length l) buf = e # r"
    using arg_cong [OF assms(2), of "drop (length l)"] by (simp add: add.commute)
  from parse_end_of_line(1) [OF s1(2) assms(4) d, of fn] s1(3) v(2) obtain s2 where
    "parse_char fn buf (i + length l) e s1 = Inr (s2, False)" "mid buf (Suc (i + length l)) s2 [] [] False"
    "ps_line s2 = Suc (ps_line s1)"
    "ps_config s2 = (ps_config s1)\<lparr>conf_list := conf_list (ps_config s1) @ dirs fn (ps_line s1) vs\<rparr>" by auto
  with parse_loop_step [OF d] s1(1,4) v(1) show ?thesis
    by (auto simp: same_out_def add_directives_def line_directives_def dirs_def split: list.splits)
qed

lemma parse_good_lines:
  assumes "mid buf i st [] [] False" "drop i buf = text_bytes ls @ r"
    and "\<forall>(l, e)\<in>set ls. line_ok l \<and> is_eol e"
  shows "\<exists>st' j. parse_loop fn buf i st = parse_loop fn buf j st' \<and> drop j buf = r \<and> mid buf j st' [] [] False \<and>
    ps_config st' = add_directives st (text_directives fn (ps_line st) ls)"
  using assms
proof (induction ls arbitrary: i st)
  case Nil
  then show ?case by (auto simp: text_bytes_def add_directives_def)
next
  case (Cons le ls)
  obtain l e where le: "le = (l, e)" by fastforce
  have d: "drop i buf = l @ e # text_bytes ls @ r" using Cons.prems(2) by (simp add: le text_bytes_def)
  have ok: "line_ok l" "is_eol e" using Cons.prems(3) by (auto simp: le)
  from parse_good_line [OF Cons.prems(1) d ok, of fn] obtain s1 where
    s1: "parse_loop fn buf i st = parse_loop fn buf (i + length l + 1) s1"
    "mid buf (i + length l + 1) s1 [] [] False" "ps_line s1 = Suc (ps_line st)"
    "ps_config s1 = add_directives st (line_directives fn (ps_line st) l)" by blast
  have d1: "drop (i + length l + 1) buf = text_bytes ls @ r"
    using arg_cong [OF d, of "drop (length l + 1)"] by (simp add: ac_simps)
  have "\<forall>(l, e)\<in>set ls. line_ok l \<and> is_eol e" using Cons.prems(3) by simp
  from Cons.IH [OF s1(2) d1 this] obtain s2 j where
    "parse_loop fn buf (i + length l + 1) s1 = parse_loop fn buf j s2" "drop j buf = r" "mid buf j s2 [] [] False"
    "ps_config s2 = add_directives s1 (text_directives fn (ps_line s1) ls)" by blast
  with s1 show ?case by (auto simp: add_directives_def le)
qed

lemma parse_start_mid: "pe_ok pool = (\<lambda>_. True) \<Longrightarrow> mid buf 0 (parse_start config pool) [] [] False"
  by (simp add: mid_def parse_start_def)

lemma parse_lines_ok:
  assumes "pe_ok pool = (\<lambda>_. True)" "\<forall>(l, e)\<in>set ls. line_ok l \<and> is_eol e" "line_ok t"
  shows "\<exists>pool'. fpx_config_parse config pool (text_bytes ls @ t @ [0]) =
    Some (FPX_OK, config\<lparr>conf_list := conf_list config @ text_directives (conf_tail config) 1 ls\<rparr>, pool') \<and>
    pe_ok pool' = (\<lambda>_. True)"
proof -
  let ?buf = "text_bytes ls @ t @ [0]" and ?fn = "conf_tail config" and ?st = "parse_start config pool"
  have d0: "drop 0 ?buf = text_bytes ls @ (t @ [0])" by simp
  from parse_good_lines [OF parse_start_mid [OF assms(1)] d0 assms(2), of ?fn config] obtain s1 j where
    s1: "parse_loop ?fn ?buf 0 ?st = parse_loop ?fn ?buf j s1" "drop j ?buf = t @ [0]" "mid ?buf j s1 [] [] False"
    "ps_config s1 = add_directives ?st (text_directives ?fn (ps_line ?st) ls)" by blast
  from assms(3) obtain vs where v: "lex_line [] t = Some vs" "length ([] @ vs) \<le> FPX_MAX_TAKES" "text_line t"
    by (auto simp: line_ok_def split: option.splits)
  from parse_text [OF s1(3,2) v(3,1,2), of ?fn] obtain s2 cur ws cm where
    s2: "parse_loop ?fn ?buf j s1 = parse_loop ?fn ?buf (j + length t) s2" "same_out s1 s2"
      "mid ?buf (j + length t) s2 cur ws cm" by blast
  note drop_nth [OF drop_past [OF s1(2)]]
  then have "parse_loop ?fn ?buf (j + length t) s2 = Some (FPX_OK, s2)"
    by (subst parse_loop.simps) (simp add: parse_char_def parse_switch_def)
  with s1 s2 show ?thesis
    by (auto simp: fpx_config_parse_def same_out_def add_directives_def parse_start_def mid_def)
qed

text \<open>
  C2 (fpx_config_parse_lines). While the pool has memory, a text of well-formed lines, each
  ended by LF or CR, followed by a last line without an end, is read successfully. The
  parsed directives are exactly the words of the non-empty lines in order, with their line
  numbers; comments and blank lines give nothing. The last line, which no line end
  completes, is dropped.
\<close>

theorem fpx_config_parse_lines:
  assumes "pe_ok pool = (\<lambda>_. True)" "\<forall>(l, e)\<in>set ls. line_ok l \<and> is_eol e" "line_ok t"
  shows "\<exists>pool'. fpx_config_parse config pool (text_bytes ls @ t @ [0]) =
    Some (FPX_OK, config\<lparr>conf_list := conf_list config @ text_directives (conf_tail config) 1 ls\<rparr>, pool')"
  using parse_lines_ok [OF assms, of config] by blast

text \<open>
  C30 (fpx_config_parse_rejects). A malformed line after any number of well-formed ones, that is
  a number sign touching a word, a byte outside ASCII (in a comment too), or more than seven
  arguments, stops the reader with the syntax error; the directives of the lines before it
  have been added and nothing after it is read.
\<close>

theorem fpx_config_parse_rejects:
  assumes "pe_ok pool = (\<lambda>_. True)" "\<forall>(l, e)\<in>set ls. line_ok l \<and> is_eol e" "line_bad t" "is_eol e"
  shows "\<exists>pool'. fpx_config_parse config pool (text_bytes ls @ t @ e # r) =
    Some (FPX_ERR_CONFIG_SYNTAX,
      config\<lparr>conf_list := conf_list config @ text_directives (conf_tail config) 1 ls\<rparr>, pool')"
proof -
  let ?buf = "text_bytes ls @ t @ e # r" and ?fn = "conf_tail config" and ?st = "parse_start config pool"
  have d0: "drop 0 ?buf = text_bytes ls @ (t @ e # r)" by simp
  from parse_good_lines [OF parse_start_mid [OF assms(1)] d0 assms(2), of ?fn config] obtain s1 j where
    s1: "parse_loop ?fn ?buf 0 ?st = parse_loop ?fn ?buf j s1" "drop j ?buf = t @ e # r" "mid ?buf j s1 [] [] False"
    "ps_config s1 = add_directives ?st (text_directives ?fn (ps_line ?st) ls)" by blast
  have b: "text_line t" "too_bad [] [] t"
    using assms(3) by (auto simp: line_bad_def too_bad_def split: option.splits)
  from parse_bad_line [OF s1(3,2) b(1) assms(4) b(2), of ?fn] obtain s2 where
    "parse_loop ?fn ?buf j s1 = Some (FPX_ERR_CONFIG_SYNTAX, s2)" "same_out s1 s2" by blast
  with s1 show ?thesis
    by (auto simp: fpx_config_parse_def same_out_def add_directives_def parse_start_def)
qed

definition ok_pool :: penv where
  "ok_pool = \<lparr>pe_ok = (\<lambda>_. True), pe_next = 0, pe_errno = 12\<rparr>"

definition empty_config :: config where
  "empty_config = \<lparr>conf_list = [], conf_files = []\<rparr>"

theorem fpx_config_parse_lines_witness:
  "\<exists>pool'. fpx_config_parse empty_config ok_pool (bytes ''a  b # c'' @ [10, 10] @ bytes ''d e'' @ [0]) =
     Some (FPX_OK, \<lparr>conf_list = [\<lparr>di_name = bytes ''a'', di_argv = [bytes ''b''], di_filename = None, di_line = 1\<rparr>],
       conf_files = []\<rparr>, pool')"
proof -
  let ?ls = "[(bytes ''a  b # c'', 10), ([], 10)]"
  have ok: "\<forall>(l, e)\<in>set ?ls. line_ok l \<and> is_eol e" "line_ok (bytes ''d e'')"
    by code_simp+
  have p: "pe_ok ok_pool = (\<lambda>_. True)" by (simp add: ok_pool_def)
  have t: "text_bytes ?ls @ bytes ''d e'' @ [0] = bytes ''a  b # c'' @ [10, 10] @ bytes ''d e'' @ [0]"
    by (simp add: text_bytes_def)
  have d: "text_directives None 1 ?ls = [\<lparr>di_name = bytes ''a'', di_argv = [bytes ''b''], di_filename = None, di_line = 1\<rparr>]"
    by code_simp
  have "conf_tail empty_config = None" by (simp add: conf_tail_def empty_config_def)
  with fpx_config_parse_lines [OF p ok, of empty_config] t d show ?thesis by (simp add: empty_config_def)
qed

theorem fpx_config_parse_rejects_witness:
  "\<exists>pool'. fpx_config_parse empty_config ok_pool (bytes ''a b'' @ [10] @ bytes ''c d#'' @ [10, 0]) =
     Some (FPX_ERR_CONFIG_SYNTAX, \<lparr>conf_list = [\<lparr>di_name = bytes ''a'', di_argv = [bytes ''b''],
       di_filename = None, di_line = 1\<rparr>], conf_files = []\<rparr>, pool')"
proof -
  let ?ls = "[(bytes ''a b'', 10)]"
  have ok: "\<forall>(l, e)\<in>set ?ls. line_ok l \<and> is_eol e" "line_bad (bytes ''c d#'')" "is_eol 10"
    by code_simp+
  have p: "pe_ok ok_pool = (\<lambda>_. True)" by (simp add: ok_pool_def)
  have t: "text_bytes ?ls @ bytes ''c d#'' @ 10 # [0] = bytes ''a b'' @ [10] @ bytes ''c d#'' @ [10, 0]"
    by (simp add: text_bytes_def)
  have d: "text_directives None 1 ?ls = [\<lparr>di_name = bytes ''a'', di_argv = [bytes ''b''], di_filename = None, di_line = 1\<rparr>]"
    by code_simp
  have "conf_tail empty_config = None" by (simp add: conf_tail_def empty_config_def)
  with fpx_config_parse_rejects [OF p ok, of empty_config "[0]"] t d show ?thesis by (simp add: empty_config_def)
qed

section \<open>Printing and reading back\<close>

definition word_byte :: "byte \<Rightarrow> bool" where
  "word_byte ch \<longleftrightarrow> ch \<noteq> 0 \<and> \<not> is_blank ch \<and> \<not> is_eol ch \<and> ch \<noteq> hash \<and> fpx_isascii ch"

definition word_ok :: "byte list \<Rightarrow> bool" where
  "word_ok w \<longleftrightarrow> w \<noteq> [] \<and> list_all word_byte w"

fun print_words :: "byte list list \<Rightarrow> byte list" where
  "print_words [] = []"
| "print_words [w] = w"
| "print_words (w # ws) = w @ [0x20] @ print_words ws"

definition print_config :: "byte list list list \<Rightarrow> byte list" where
  "print_config dss = concat (map (\<lambda>ws. print_words ws @ [0xA]) dss)"

lemma lex_line_word: "list_all word_byte w \<Longrightarrow> lex_line cur (w @ cs) = lex_line (cur @ w) cs"
  by (induction w arbitrary: cur) (auto simp: word_byte_def)

lemma lex_line_print: "list_all word_ok ws \<Longrightarrow> lex_line [] (print_words ws) = Some ws"
proof (induction ws rule: print_words.induct)
  case (2 w)
  then show ?case using lex_line_word [of w "[]" "[]"] by (simp add: word_ok_def)
next
  case (3 w v ws)
  then show ?case using lex_line_word [of w "[]" "0x20 # print_words (v # ws)"]
    by (auto simp: word_ok_def is_blank_def hash_def)
qed simp

lemma word_text_line: "word_ok w \<Longrightarrow> text_line w"
  by (auto simp: word_ok_def text_line_def word_byte_def elim: list.pred_mono_strong)

lemma text_line_print: "list_all word_ok ws \<Longrightarrow> text_line (print_words ws)"
proof (induction ws rule: print_words.induct)
  case (3 w v ws)
  then show ?case using word_text_line [of w] by (simp add: text_line_def is_eol_def)
qed (simp_all add: word_text_line text_line_def [of "[]"])

definition words_ok :: "byte list list \<Rightarrow> bool" where
  "words_ok ws \<longleftrightarrow> ws \<noteq> [] \<and> length ws \<le> FPX_MAX_TAKES \<and> list_all word_ok ws"

lemma print_words_line_ok: "words_ok ws \<Longrightarrow> line_ok (print_words ws)"
  by (simp add: words_ok_def line_ok_def lex_line_print text_line_print)

lemma text_directives_print:
  "list_all words_ok dss \<Longrightarrow>
   map (\<lambda>d. di_name d # di_argv d) (text_directives fn n (map (\<lambda>ws. (print_words ws, 0xA)) dss)) = dss"
proof (induction dss arbitrary: n)
  case (Cons ws dss)
  then have "lex_line [] (print_words ws) = Some ws" "ws \<noteq> []" by (auto simp: words_ok_def lex_line_print)
  with Cons show ?case by (cases ws) (auto simp: line_directives_def)
qed simp

text \<open>
  C20 (fpx_config_print_parse). Directives printed one to a line, the words separated by blanks,
  are read back unchanged: names, arguments and order, for every list of directives of at
  most eight non-empty words of plain ASCII bytes.
\<close>

theorem fpx_config_print_parse:
  assumes "pe_ok pool = (\<lambda>_. True)" "list_all words_ok dss"
  shows "\<exists>c' pool'. fpx_config_parse empty_config pool (print_config dss @ [0]) = Some (FPX_OK, c', pool') \<and>
    map (\<lambda>d. di_name d # di_argv d) (conf_list c') = dss"
proof -
  let ?ls = "map (\<lambda>ws. (print_words ws, 0xA)) dss"
  have b: "text_bytes ?ls = print_config dss" by (simp add: text_bytes_def print_config_def comp_def)
  have ok: "\<forall>(l, e)\<in>set ?ls. line_ok l \<and> is_eol e"
    using assms(2) by (auto simp: list_all_iff is_eol_def intro: print_words_line_ok)
  have e: "line_ok []" by (simp add: line_ok_def text_line_def)
  obtain pool' where "fpx_config_parse empty_config pool (text_bytes ?ls @ [] @ [0]) = Some (FPX_OK,
      empty_config\<lparr>conf_list := conf_list empty_config @ text_directives (conf_tail empty_config) 1 ?ls\<rparr>, pool')"
    using parse_lines_ok [OF assms(1) ok e, of empty_config] by blast
  then show ?thesis using text_directives_print [OF assms(2), of "conf_tail empty_config" 1]
    by (simp add: b empty_config_def)
qed

theorem fpx_config_print_parse_witness:
  "\<exists>c' pool'. fpx_config_parse empty_config ok_pool (bytes ''log stdout debug'' @ [10] @ bytes ''user www'' @ [10, 0]) =
     Some (FPX_OK, c', pool') \<and>
   map (\<lambda>d. di_name d # di_argv d) (conf_list c') = [map bytes [''log'', ''stdout'', ''debug''], map bytes [''user'', ''www'']]"
proof -
  let ?d = "[map bytes [''log'', ''stdout'', ''debug''], map bytes [''user'', ''www'']]"
  have "pe_ok ok_pool = (\<lambda>_. True)" by (simp add: ok_pool_def)
  moreover have "list_all words_ok ?d" by code_simp
  moreover have "print_config ?d @ [0] = bytes ''log stdout debug'' @ [10] @ bytes ''user www'' @ [10, 0]" by code_simp
  ultimately show ?thesis using fpx_config_print_parse [of ok_pool ?d] by simp
qed

section \<open>The type of a directive\<close>

text \<open>
  Whatever the bytes of a file are and however often the pool fails: a directive that gets into the list
  has a name, its words are not empty and hold word bytes only, and it has at most seven
  arguments. \<open>grows\<close> is the contract of everything that reads: it only appends such directives.
\<close>

definition directive_wf :: "directive \<Rightarrow> bool" where
  "directive_wf d \<longleftrightarrow> word_ok (di_name d) \<and> list_all word_ok (di_argv d) \<and> length (di_argv d) < FPX_MAX_TAKES"

definition config_wf :: "config \<Rightarrow> bool" where
  "config_wf c \<longleftrightarrow> list_all directive_wf (conf_list c)"

definition grows :: "config \<Rightarrow> config \<Rightarrow> bool" where
  "grows c c' \<longleftrightarrow> (\<exists>ys. conf_list c' = conf_list c @ ys \<and> list_all directive_wf ys)"

lemma grows_refl [simp]: "grows c c"
  by (simp add: grows_def)

lemma grows_same: "conf_list c' = conf_list c \<Longrightarrow> grows c c'"
  by (simp add: grows_def)

lemma grows_trans: "grows a b \<Longrightarrow> grows b c \<Longrightarrow> grows a c"
  by (auto simp: grows_def)

lemma grows_wf: "grows c c' \<Longrightarrow> config_wf c \<Longrightarrow> config_wf c'"
  by (auto simp: grows_def config_wf_def)

text \<open>The type of the parser's state: the word begun and the words completed in this line.\<close>

definition pstate_wf :: "byte list \<Rightarrow> nat \<Rightarrow> pstate \<Rightarrow> bool" where
  "pstate_wf buf i st \<longleftrightarrow>
     (case ps_begin st of None \<Rightarrow> True
      | Some b \<Rightarrow> b < i \<and> i \<le> length buf \<and> list_all word_byte (take (i - b) (drop b buf)) \<and> \<not> ps_comment st) \<and>
     (ps_in st \<longrightarrow> word_ok (ps_str st)) \<and> list_all word_ok (ps_argv st) \<and> length (ps_argv st) < FPX_MAX_TAKES"

definition st_grows :: "pstate \<Rightarrow> pstate \<Rightarrow> bool" where
  "st_grows st st' \<longleftrightarrow> grows (ps_config st) (ps_config st') \<and> conf_files (ps_config st') = conf_files (ps_config st)"

lemma st_grows_same: "ps_config st' = ps_config st \<Longrightarrow> st_grows st st'"
  by (simp add: st_grows_def)

lemma st_grows_trans: "st_grows a b \<Longrightarrow> st_grows b c \<Longrightarrow> st_grows a c"
  by (auto simp: st_grows_def intro: grows_trans)

lemma take_word_snoc:
  "b \<le> i \<Longrightarrow> i < length buf \<Longrightarrow> take (Suc i - b) (drop b buf) = take (i - b) (drop b buf) @ [buf ! i]"
  by (simp add: Suc_diff_le take_Suc_conv_app_nth)

lemma take_word_one: "i < length buf \<Longrightarrow> take (Suc 0) (drop i buf) = [buf ! i]"
  by (simp add: take_Suc_conv_app_nth)

lemma parse_switch_wf:
  assumes "pstate_wf buf i st" "i < length buf" "parse_switch i (buf ! i) st = Inr (st', found, l, e)"
  shows "ps_config st' = ps_config st \<and> (found \<longleftrightarrow> (ps_begin st' \<noteq> None \<and> \<not> e \<and> (l \<or> is_blank (buf ! i)))) \<and>
    (if found \<or> e then pstate_wf buf i st' else pstate_wf buf (Suc i) st')"
  using assms by (auto simp: parse_switch_def pstate_wf_def word_byte_def take_word_snoc take_word_one is_blank_def is_eol_def
      split: if_splits option.splits)

lemma parse_word_wf:
  assumes "pstate_wf buf i st" "ps_begin st \<noteq> None" "parse_word buf i st = Inr st'"
  shows "ps_config st' = ps_config st \<and> pstate_wf buf (Suc i) st'"
  using assms by (auto simp: parse_word_def Let_def pstate_wf_def word_ok_def not_le split: if_splits prod.splits)

lemma parse_eol_wf:
  assumes "pstate_wf buf i st"
  shows "st_grows st (parse_eol fn st) \<and> pstate_wf buf i (parse_eol fn st)"
  using assms
  by (auto simp: parse_eol_def pstate_wf_def st_grows_def grows_def directive_wf_def fpx_config_save_directive_def
      FPX_MAX_TAKES_def Let_def split: if_splits prod.splits option.splits)

lemma parse_char_wf:
  assumes "pstate_wf buf i st" "i < length buf"
  shows "parse_char fn buf i (buf ! i) st = Inr (st', e) \<Longrightarrow> st_grows st st' \<and> (\<not> e \<longrightarrow> pstate_wf buf (Suc i) st')"
    and "parse_char fn buf i (buf ! i) st = Inl (err, st') \<Longrightarrow> st_grows st st'"
proof -
  show "st_grows st st' \<and> (\<not> e \<longrightarrow> pstate_wf buf (Suc i) st')" if p: "parse_char fn buf i (buf ! i) st = Inr (st', e)"
  proof -
    from p obtain s1 f l where s1: "parse_switch i (buf ! i) st = Inr (s1, f, l, e)"
      by (auto simp: parse_char_def split: sum.splits)
    with p obtain s2 where s2: "(if f then parse_word buf i s1 else Inr s1) = Inr s2"
      "st' = (if l then parse_eol fn s2 else s2)"
      by (auto simp: parse_char_def split: sum.splits)
    note w = parse_switch_wf [OF assms s1]
    have "ps_config s2 = ps_config st \<and> (\<not> e \<longrightarrow> pstate_wf buf (Suc i) s2)"
      using w s2(1) parse_word_wf [of buf i s1 s2] by (cases f) auto
    moreover have "e \<Longrightarrow> \<not> l" using s1 by (auto simp: parse_switch_def split: if_splits)
    ultimately show ?thesis
      using s2(2) parse_eol_wf [of buf "Suc i" s2 fn] by (auto intro: st_grows_same st_grows_trans)
  qed
  show "st_grows st st'" if p: "parse_char fn buf i (buf ! i) st = Inl (err, st')"
    using p by (auto simp: parse_char_def parse_switch_def parse_word_def Let_def intro!: st_grows_same
        split: sum.splits if_splits prod.splits)
qed

lemma parse_loop_grows: "parse_loop fn buf i st = Some (err, st') \<Longrightarrow> pstate_wf buf i st \<Longrightarrow> st_grows st st'"
proof (induction fn buf i st rule: parse_loop.induct)
  case (1 fn buf i st)
  from 1(2) have i: "i < length buf" by (subst (asm) parse_loop.simps) (auto split: if_splits)
  show ?case
  proof (cases "parse_char fn buf i (buf ! i) st")
    case (Inl e)
    with 1(2) i parse_char_wf(2) [OF 1(3) i] show ?thesis by (cases e) (auto simp: parse_loop.simps)
  next
    case (Inr p)
    obtain s1 e where p: "p = (s1, e)" by (cases p)
    note w = parse_char_wf(1) [OF 1(3) i Inr [unfolded p]]
    show ?thesis
    proof (cases e)
      case True
      with 1(2) i Inr p w show ?thesis by (simp add: parse_loop.simps)
    next
      case False
      with 1(2) i Inr p have "parse_loop fn buf (Suc i) s1 = Some (err, st')" by (subst (asm) parse_loop.simps) simp
      with 1(1) [OF i Inr p [symmetric]] False w show ?thesis by (auto intro: st_grows_trans)
    qed
  qed
qed

lemma config_parse_grows:
  assumes "fpx_config_parse c pool buf = Some (err, c', pool')"
  shows "grows c c' \<and> conf_files c' = conf_files c"
proof -
  obtain st' where "parse_loop (conf_tail c) buf 0 (parse_start c pool) = Some (err, st')" "c' = ps_config st'"
    using assms by (auto simp: fpx_config_parse_def)
  moreover have "pstate_wf buf 0 (parse_start c pool)" by (simp add: pstate_wf_def parse_start_def FPX_MAX_TAKES_def)
  ultimately show ?thesis using parse_loop_grows by (fastforce simp: st_grows_def parse_start_def)
qed

end
