(* ===== verification/Fpx_Log.thy ===== *)
theory Fpx_Log
  imports Fpx_Config
begin

text \<open>
  The logger of \<open>src/core/log.c\<close> as built with a logging thread. The first part models the
  ring buffer between the callers of \<open>fpx_log_error\<close> and \<open>fpx_logger_worker\<close> as a step
  relation: two counting semaphores, two mutexes and 32 slots, one step per synchronising
  statement, with any number of calling threads. It keeps an invariant and refines a bounded
  queue. The formatting into fixed buffers and the log files are in \<open>Fpx_Logger\<close>.
\<close>

section \<open>Invariants of transition systems\<close>

locale invariant_system =
  fixes init :: "'s \<Rightarrow> bool" and step :: "'s \<Rightarrow> 's \<Rightarrow> bool" and inv :: "'s \<Rightarrow> bool"
  assumes inv_init: "init s \<Longrightarrow> inv s"
    and inv_step: "inv s \<Longrightarrow> step s s' \<Longrightarrow> inv s'"
begin

lemma inv_steps: "step\<^sup>*\<^sup>* s s' \<Longrightarrow> inv s \<Longrightarrow> inv s'"
  by (induction rule: rtranclp_induct) (auto intro: inv_step)

lemma reach_inv: "init s0 \<Longrightarrow> step\<^sup>*\<^sup>* s0 s \<Longrightarrow> inv s"
  using inv_steps inv_init by blast

end

text \<open>An invariant and a view under which each step is one of an abstract system or leaves the view alone.\<close>

locale simulation = invariant_system init step inv
  for init :: "'s \<Rightarrow> bool" and step :: "'s \<Rightarrow> 's \<Rightarrow> bool" and inv :: "'s \<Rightarrow> bool" +
  fixes view :: "'s \<Rightarrow> 'a" and ainit :: 'a and astep :: "'a \<Rightarrow> 'a \<Rightarrow> bool"
  assumes sim_init: "init s \<Longrightarrow> view s = ainit"
    and sim_step: "inv s \<Longrightarrow> step s s' \<Longrightarrow> view s' = view s \<or> astep (view s) (view s')"
begin

lemma sim_steps: "step\<^sup>*\<^sup>* s s' \<Longrightarrow> inv s \<Longrightarrow> astep\<^sup>*\<^sup>* (view s) (view s')"
proof (induction rule: rtranclp_induct)
  case (step y z)
  then have "view z = view y \<or> astep (view y) (view z)" using inv_steps sim_step by blast
  then show ?case using step by (auto intro: rtranclp.rtrancl_into_rtrancl)
qed simp

lemma reach_sim: "init s0 \<Longrightarrow> step\<^sup>*\<^sup>* s0 s \<Longrightarrow> astep\<^sup>*\<^sup>* ainit (view s)"
  using sim_steps [of s0 s] inv_init [of s0] sim_init [of s0] by simp

end

section \<open>The ring buffer\<close>

definition FPX_MAX_LOG_SLOTS :: nat where "FPX_MAX_LOG_SLOTS = 32"

type_synonym message = nat
type_synonym tid = nat

text \<open>
  Where a thread is in \<open>fpx_log_error\<close>: about to wait for a slot, holding a slot, holding the
  deposit mutex, having written, having unlocked. Where the worker is: before or inside the
  message that announces it, waiting, woken up, holding the message in a slot, inside a log
  call of its own after a failed write, done. The mutex \<open>mutex_fetch\<close> is taken by the worker
  alone, so its lock and unlock never block and belong to the steps \<open>fetch\<close> and \<open>post_empty\<close>.
\<close>

datatype ppc = PIdle | PWant message | PGot message | PLocked message | PWritten | PUnlocked
datatype wpc = WStart | WHello | WWait | WGot | WRead nat | WReport | WDone

record lg =
  lg_slots :: "nat \<Rightarrow> message"
  lg_front :: nat
  lg_rear :: nat
  lg_empty :: nat
  lg_full :: nat
  lg_deposit :: "tid option"
  lg_pc :: "tid \<Rightarrow> ppc"
  lg_worker :: wpc
  lg_in :: "message list"
  lg_out :: "message list"

text \<open>The worker calls \<open>fpx_log_error\<close> as thread 0.\<close>

definition worker_tid :: tid where "worker_tid = 0"

definition lg_init :: "lg \<Rightarrow> bool" where
  "lg_init s \<longleftrightarrow> lg_front s = 0 \<and> lg_rear s = 0 \<and> lg_empty s = FPX_MAX_LOG_SLOTS \<and> lg_full s = 0 \<and>
     lg_deposit s = None \<and> lg_pc s = (\<lambda>_. PIdle) \<and> lg_worker s = WStart \<and> lg_in s = [] \<and> lg_out s = []"

inductive lg_step :: "lg \<Rightarrow> lg \<Rightarrow> bool" where
  call: "lg_pc s p = PIdle \<Longrightarrow> p \<noteq> worker_tid \<Longrightarrow> lg_step s (s\<lparr>lg_pc := (lg_pc s)(p := PWant m)\<rparr>)"
| wait_empty: "lg_pc s p = PWant m \<Longrightarrow> lg_empty s > 0 \<Longrightarrow>
    lg_step s (s\<lparr>lg_pc := (lg_pc s)(p := PGot m), lg_empty := lg_empty s - 1\<rparr>)"
| lock_deposit: "lg_pc s p = PGot m \<Longrightarrow> lg_deposit s = None \<Longrightarrow>
    lg_step s (s\<lparr>lg_pc := (lg_pc s)(p := PLocked m), lg_deposit := Some p\<rparr>)"
| deposit: "lg_pc s p = PLocked m \<Longrightarrow>
    lg_step s (s\<lparr>lg_pc := (lg_pc s)(p := PWritten), lg_slots := (lg_slots s)(lg_rear s := m),
      lg_rear := (lg_rear s + 1) mod FPX_MAX_LOG_SLOTS, lg_in := lg_in s @ [m]\<rparr>)"
| unlock_deposit: "lg_pc s p = PWritten \<Longrightarrow>
    lg_step s (s\<lparr>lg_pc := (lg_pc s)(p := PUnlocked), lg_deposit := None\<rparr>)"
| post_full: "lg_pc s p = PUnlocked \<Longrightarrow>
    lg_step s (s\<lparr>lg_pc := (lg_pc s)(p := PIdle), lg_full := lg_full s + 1\<rparr>)"
| hello: "lg_worker s = WStart \<Longrightarrow> lg_pc s worker_tid = PIdle \<Longrightarrow>
    lg_step s (s\<lparr>lg_worker := WHello, lg_pc := (lg_pc s)(worker_tid := PWant m)\<rparr>)"
| started: "lg_worker s = WHello \<Longrightarrow> lg_pc s worker_tid = PIdle \<Longrightarrow>
    lg_step s (s\<lparr>lg_worker := WWait\<rparr>)"
| wait_full: "lg_worker s = WWait \<Longrightarrow> lg_full s > 0 \<Longrightarrow>
    lg_step s (s\<lparr>lg_worker := WGot, lg_full := lg_full s - 1\<rparr>)"
| fetch: "lg_worker s = WGot \<Longrightarrow>
    lg_step s (s\<lparr>lg_worker := WRead (lg_front s), lg_front := (lg_front s + 1) mod FPX_MAX_LOG_SLOTS\<rparr>)"
| handle: "lg_worker s = WRead k \<Longrightarrow>
    lg_step s (s\<lparr>lg_worker := WDone, lg_out := lg_out s @ [lg_slots s k]\<rparr>)"
| handle_failed: "lg_worker s = WRead k \<Longrightarrow> lg_pc s worker_tid = PIdle \<Longrightarrow>
    lg_step s (s\<lparr>lg_worker := WReport, lg_out := lg_out s @ [lg_slots s k],
      lg_pc := (lg_pc s)(worker_tid := PWant m)\<rparr>)"
| report_again: "lg_worker s = WReport \<Longrightarrow> lg_pc s worker_tid = PIdle \<Longrightarrow>
    lg_step s (s\<lparr>lg_pc := (lg_pc s)(worker_tid := PWant m)\<rparr>)"
| reported: "lg_worker s = WReport \<Longrightarrow> lg_pc s worker_tid = PIdle \<Longrightarrow>
    lg_step s (s\<lparr>lg_worker := WDone\<rparr>)"
| post_empty: "lg_worker s = WDone \<Longrightarrow>
    lg_step s (s\<lparr>lg_worker := WWait, lg_empty := lg_empty s + 1\<rparr>)"

inductive_cases lg_stepE: "lg_step s s'"

definition lg_reach :: "lg \<Rightarrow> bool" where
  "lg_reach s \<longleftrightarrow> (\<exists>s0. lg_init s0 \<and> lg_step\<^sup>*\<^sup>* s0 s)"

text \<open>
  The bookkeeping of the invariant: who holds a slot that is not written yet, who has written
  one without having announced it, and how many messages were fetched.
\<close>

definition holders :: "lg \<Rightarrow> tid set" where
  "holders s = {p. \<exists>m. lg_pc s p = PGot m \<or> lg_pc s p = PLocked m}"

definition writers :: "lg \<Rightarrow> tid set" where
  "writers s = {p. lg_pc s p = PWritten \<or> lg_pc s p = PUnlocked}"

definition lockers :: "lg \<Rightarrow> tid set" where
  "lockers s = {p. lg_pc s p = PWritten \<or> (\<exists>m. lg_pc s p = PLocked m)}"

definition fetched :: "lg \<Rightarrow> nat" where
  "fetched s = length (lg_out s) + (case lg_worker s of WRead _ \<Rightarrow> 1 | _ \<Rightarrow> 0)"

definition busy :: "lg \<Rightarrow> nat" where
  "busy s = (case lg_worker s of WRead _ \<Rightarrow> 1 | WReport \<Rightarrow> 1 | WDone \<Rightarrow> 1 | _ \<Rightarrow> 0)"

definition lg_inv :: "lg \<Rightarrow> bool" where
  "lg_inv s \<longleftrightarrow> finite (holders s) \<and> finite (writers s) \<and>
     lg_rear s = length (lg_in s) mod FPX_MAX_LOG_SLOTS \<and> lg_front s = fetched s mod FPX_MAX_LOG_SLOTS \<and>
     lg_empty s + card (holders s) + length (lg_in s) + busy s = FPX_MAX_LOG_SLOTS + fetched s \<and>
     lg_full s + card (writers s) + (if lg_worker s = WGot then 1 else 0) + fetched s = length (lg_in s) \<and>
     (\<forall>j. length (lg_out s) \<le> j \<and> j < length (lg_in s) \<longrightarrow>
        lg_slots s (j mod FPX_MAX_LOG_SLOTS) = lg_in s ! j) \<and>
     (\<forall>k. lg_worker s = WRead k \<longrightarrow> k = length (lg_out s) mod FPX_MAX_LOG_SLOTS) \<and>
     lg_out s = take (length (lg_out s)) (lg_in s) \<and>
     lockers s = set_option (lg_deposit s)"

section \<open>The invariant of the ring buffer\<close>

definition holds :: "ppc \<Rightarrow> bool" where "holds x \<longleftrightarrow> (\<exists>m. x = PGot m \<or> x = PLocked m)"
definition wrote :: "ppc \<Rightarrow> bool" where "wrote x \<longleftrightarrow> x = PWritten \<or> x = PUnlocked"
definition locks :: "ppc \<Rightarrow> bool" where "locks x \<longleftrightarrow> x = PWritten \<or> (\<exists>m. x = PLocked m)"

lemma pc_class [simp]:
  "holds (PGot m)" "holds (PLocked m)" "\<not> holds PIdle" "\<not> holds (PWant m)" "\<not> holds PWritten" "\<not> holds PUnlocked"
  "wrote PWritten" "wrote PUnlocked" "\<not> wrote PIdle" "\<not> wrote (PWant m)" "\<not> wrote (PGot m)" "\<not> wrote (PLocked m)"
  "locks PWritten" "locks (PLocked m)" "\<not> locks PIdle" "\<not> locks (PWant m)" "\<not> locks (PGot m)" "\<not> locks PUnlocked"
  by (auto simp: holds_def wrote_def locks_def)

lemma class_sets: "holders s = {p. holds (lg_pc s p)}" "writers s = {p. wrote (lg_pc s p)}"
  "lockers s = {p. locks (lg_pc s p)}"
  by (auto simp: holders_def writers_def lockers_def holds_def wrote_def locks_def)

text \<open>How one thread's move changes the number of threads of a class.\<close>

lemma class_upd:
  assumes "finite {q. C (pc q)}"
  shows "finite {q. C ((pc(p := x)) q)}"
    and "card {q. C ((pc(p := x)) q)} + (if C (pc p) then 1 else 0) = card {q. C (pc q)} + (if C x then 1 else 0)"
proof -
  have e: "{q. C ((pc(p := x)) q)} = (if C x then insert p {q. C (pc q)} else {q. C (pc q)} - {p})"
    by auto
  show "finite {q. C ((pc(p := x)) q)}" unfolding e using assms by simp
  show "card {q. C ((pc(p := x)) q)} + (if C (pc p) then 1 else 0) = card {q. C (pc q)} + (if C x then 1 else 0)"
    unfolding e using assms card.remove [OF assms, of p]
    by (auto simp: card_insert_if insert_absorb)
qed

lemma locks_upd: "{q. locks ((pc(p := x)) q)} = (if locks x then insert p {q. locks (pc q)} else {q. locks (pc q)} - {p})"
  by auto

text \<open>The part of the invariant that a step of a calling thread must establish anew.\<close>

lemma lg_inv_pc:
  assumes inv: "lg_inv s" and s': "lg_pc s' = (lg_pc s)(p := x)"
    and same: "lg_front s' = lg_front s" "lg_rear s' = lg_rear s" "lg_slots s' = lg_slots s"
      "lg_in s' = lg_in s" "lg_out s' = lg_out s" "lg_worker s' = lg_worker s"
    and cnt: "lg_empty s' + (if holds x then 1 else 0) = lg_empty s + (if holds (lg_pc s p) then 1 else 0)"
      "lg_full s' + (if wrote x then 1 else 0) = lg_full s + (if wrote (lg_pc s p) then 1 else 0)"
    and dep: "(if locks x then insert p (lockers s) else lockers s - {p}) = set_option (lg_deposit s')"
  shows "lg_inv s'"
proof -
  have f: "finite {q. holds (lg_pc s q)}" "finite {q. wrote (lg_pc s q)}"
    using inv by (simp_all add: lg_inv_def class_sets)
  note h = class_upd [of holds "lg_pc s" p x, OF f(1)] and w = class_upd [of wrote "lg_pc s" p x, OF f(2)]
  have fe: "fetched s' = fetched s" "busy s' = busy s" by (simp_all add: fetched_def busy_def same)
  have e: "lg_empty s' + card (holders s') = lg_empty s + card (holders s)"
    using h(2) cnt(1) unfolding class_sets s' by linarith
  have g: "lg_full s' + card (writers s') = lg_full s + card (writers s)"
    using w(2) cnt(2) unfolding class_sets s' by linarith
  have "lockers s' = set_option (lg_deposit s')"
    using dep unfolding class_sets s' locks_upd by simp
  moreover have "finite (holders s')" "finite (writers s')" using h(1) w(1) unfolding class_sets s' by simp_all
  ultimately show ?thesis using inv e g unfolding lg_inv_def same fe by simp
qed

text \<open>A step of the worker that leaves the calling threads alone.\<close>

lemma lg_inv_worker:
  assumes inv: "lg_inv s"
    and same: "lg_pc s' = lg_pc s" "lg_rear s' = lg_rear s" "lg_slots s' = lg_slots s" "lg_in s' = lg_in s"
      "lg_deposit s' = lg_deposit s"
    and front: "lg_front s' = fetched s' mod FPX_MAX_LOG_SLOTS"
    and empty: "lg_empty s' + busy s' + fetched s = lg_empty s + busy s + fetched s'"
    and full: "lg_full s' + (if lg_worker s' = WGot then 1 else 0) + fetched s' =
         lg_full s + (if lg_worker s = WGot then 1 else 0) + fetched s"
    and out: "length (lg_out s) \<le> length (lg_out s')" "lg_out s' = take (length (lg_out s')) (lg_in s)"
      "\<forall>k. lg_worker s' = WRead k \<longrightarrow> k = length (lg_out s') mod FPX_MAX_LOG_SLOTS"
  shows "lg_inv s'"
proof -
  have c: "holders s' = holders s" "writers s' = writers s" "lockers s' = lockers s"
    by (simp_all add: class_sets same)
  have e1: "lg_empty s + card (holders s) + length (lg_in s) + busy s = FPX_MAX_LOG_SLOTS + fetched s"
    "lg_full s + card (writers s) + (if lg_worker s = WGot then 1 else 0) + fetched s = length (lg_in s)"
    using inv by (simp_all only: lg_inv_def)
  have e: "lg_empty s' + card (holders s) + length (lg_in s) + busy s' = FPX_MAX_LOG_SLOTS + fetched s'"
    using e1(1) empty by linarith
  have e2: "lg_full s' + card (writers s) + (if lg_worker s' = WGot then 1 else 0) + fetched s' = length (lg_in s)"
    using e1(2) full by linarith
  show ?thesis using inv front out e e2 unfolding lg_inv_def c same by auto
qed

lemma deposit_room:
  assumes "lg_inv s" "lg_pc s p = PLocked m"
  shows "length (lg_in s) < FPX_MAX_LOG_SLOTS + length (lg_out s)"
proof -
  have "lg_empty s + card (holders s) + length (lg_in s) + busy s = FPX_MAX_LOG_SLOTS + fetched s" "finite (holders s)"
    using assms(1) by (simp_all only: lg_inv_def)
  moreover have "p \<in> holders s" using assms(2) by (simp add: holders_def)
  then have "card (holders s) > 0" using \<open>finite (holders s)\<close> card_gt_0_iff by blast
  moreover have "fetched s \<le> length (lg_out s) + busy s" by (simp add: fetched_def busy_def split: wpc.splits)
  ultimately show ?thesis by linarith
qed

lemma lg_inv_deposit:
  assumes inv: "lg_inv s" and p: "lg_pc s p = PLocked m"
  shows "lg_inv (s\<lparr>lg_pc := (lg_pc s)(p := PWritten), lg_slots := (lg_slots s)(lg_rear s := m),
      lg_rear := (lg_rear s + 1) mod FPX_MAX_LOG_SLOTS, lg_in := lg_in s @ [m]\<rparr>)" (is "lg_inv ?s'")
proof -
  have f: "finite {q. holds (lg_pc s q)}" "finite {q. wrote (lg_pc s q)}"
    using inv by (simp_all add: lg_inv_def class_sets)
  note h = class_upd [of holds "lg_pc s" p PWritten, OF f(1)] and w = class_upd [of wrote "lg_pc s" p PWritten, OF f(2)]
  have h': "card (holders ?s') + 1 = card (holders s)" and w': "card (writers ?s') = card (writers s) + 1"
    using h(2) w(2) p unfolding class_sets by simp_all
  have fe: "fetched ?s' = fetched s" "busy ?s' = busy s" by (simp_all add: fetched_def busy_def)
  have tok: "lg_empty s + card (holders s) + length (lg_in s) + busy s = FPX_MAX_LOG_SLOTS + fetched s"
    "lg_full s + card (writers s) + (if lg_worker s = WGot then 1 else 0) + fetched s = length (lg_in s)"
    using inv by (simp_all add: lg_inv_def)
  have dist: "length (lg_in s) < FPX_MAX_LOG_SLOTS + length (lg_out s)" by (rule deposit_room [OF inv p])
  have slot: "j mod FPX_MAX_LOG_SLOTS \<noteq> length (lg_in s) mod FPX_MAX_LOG_SLOTS"
    if "length (lg_out s) \<le> j" "j < length (lg_in s)" for j
  proof
    assume "j mod FPX_MAX_LOG_SLOTS = length (lg_in s) mod FPX_MAX_LOG_SLOTS"
    then have "FPX_MAX_LOG_SLOTS dvd length (lg_in s) - j"
      using that by (metis less_imp_le_nat mod_eq_dvd_iff_nat)
    with that have "FPX_MAX_LOG_SLOTS \<le> length (lg_in s) - j" by (intro dvd_imp_le) simp_all
    with that dist show False by linarith
  qed
  have rear: "(lg_rear s + 1) mod FPX_MAX_LOG_SLOTS = length (lg_in s @ [m]) mod FPX_MAX_LOG_SLOTS"
    using inv by (simp add: lg_inv_def mod_Suc_eq)
  have slots: "\<forall>j. length (lg_out s) \<le> j \<and> j < length (lg_in s @ [m]) \<longrightarrow>
      ((lg_slots s)(lg_rear s := m)) (j mod FPX_MAX_LOG_SLOTS) = (lg_in s @ [m]) ! j"
    using inv slot by (auto simp: lg_inv_def nth_append less_Suc_eq)
  have out: "lg_out s = take (length (lg_out s)) (lg_in s @ [m])"
  proof -
    have "length (lg_out s) \<le> length (lg_in s)" using tok(2) by (simp add: fetched_def)
    then show ?thesis using inv by (simp add: lg_inv_def)
  qed
  have "p \<in> lockers s" using p unfolding class_sets by simp
  then have "lockers ?s' = lockers s" unfolding class_sets by auto
  moreover have "finite (holders ?s')" "finite (writers ?s')" using h(1) w(1) unfolding class_sets by simp_all
  ultimately show ?thesis
    using inv tok h' w' rear slots out unfolding lg_inv_def fe by simp
qed

lemma lockers_other:
  assumes "lg_inv s" "\<not> locks (lg_pc s p)"
  shows "lockers s - {p} = set_option (lg_deposit s)"
proof -
  have "lockers s = set_option (lg_deposit s)" using assms(1) by (simp only: lg_inv_def)
  moreover have "p \<notin> lockers s" using assms(2) by (simp add: class_sets)
  ultimately show ?thesis by simp
qed

lemma lg_inv_call:
  "lg_inv s \<Longrightarrow> lg_pc s p = PIdle \<Longrightarrow> lg_inv (s\<lparr>lg_pc := (lg_pc s)(p := PWant m)\<rparr>)"
  by (rule lg_inv_pc [of s _ p "PWant m"]) (simp_all add: lockers_other)

text \<open>A step of the worker that neither fetches nor hands out a message.\<close>

lemma lg_inv_stay:
  assumes "lg_inv s" "lg_worker s \<noteq> WGot" "\<forall>k. lg_worker s \<noteq> WRead k" "w \<noteq> WGot" "\<forall>k. w \<noteq> WRead k"
    "busy (s\<lparr>lg_worker := w\<rparr>) = busy s"
  shows "lg_inv (s\<lparr>lg_worker := w\<rparr>)"
proof -
  have "fetched (s\<lparr>lg_worker := w\<rparr>) = fetched s"
    using assms by (simp add: fetched_def split: wpc.splits)
  then show ?thesis using assms
    by (intro lg_inv_worker [OF assms(1)]) (simp_all add: lg_inv_def)
qed

lemma handle_slot:
  assumes "lg_inv s" "lg_worker s = WRead k"
  shows "length (lg_out s) < length (lg_in s)" "lg_slots s k = lg_in s ! length (lg_out s)"
proof -
  show "length (lg_out s) < length (lg_in s)" using assms by (simp add: lg_inv_def fetched_def)
  then show "lg_slots s k = lg_in s ! length (lg_out s)" using assms by (simp add: lg_inv_def)
qed

lemma lg_inv_handle:
  assumes inv: "lg_inv s" and w: "lg_worker s = WRead k" and x: "x = WDone \<or> x = WReport"
  shows "lg_inv (s\<lparr>lg_worker := x, lg_out := lg_out s @ [lg_slots s k]\<rparr>)" (is "lg_inv ?s'")
proof -
  note len = handle_slot(1) [OF inv w]
  have fe: "fetched ?s' = fetched s" "busy ?s' = busy s" using w x by (auto simp: fetched_def busy_def)
  have "lg_slots s k = lg_in s ! length (lg_out s)" by (rule handle_slot(2) [OF inv w])
  moreover have "lg_out s = take (length (lg_out s)) (lg_in s)" using inv by (simp only: lg_inv_def)
  ultimately have "lg_out ?s' = take (length (lg_out ?s')) (lg_in s)"
    using len by (simp add: take_Suc_conv_app_nth)
  moreover have "lg_front s = fetched s mod FPX_MAX_LOG_SLOTS" using inv by (simp only: lg_inv_def)
  ultimately show ?thesis using w x
      less_imp_le [OF len]
    by (intro lg_inv_worker [OF inv]) (auto simp only: fe, auto)
qed

lemma lg_inv_step:
  assumes "lg_inv s" "lg_step s s'"
  shows "lg_inv s'"
  using assms(2,1)
proof cases
  case (deposit p m)
  then show ?thesis using lg_inv_deposit assms(1) by simp
next
  case (call p m)
  then show ?thesis using lg_inv_call assms(1) by simp
next
  case (wait_empty p m)
  then show ?thesis using assms(1)
    by (intro lg_inv_pc [OF assms(1), of _ p "PGot m"]) (simp_all add: lockers_other)
next
  case (lock_deposit p m)
  then show ?thesis using assms(1)
    by (intro lg_inv_pc [OF assms(1), of _ p "PLocked m"]) (auto simp: lg_inv_def)
next
  case (unlock_deposit p)
  then have "p \<in> lockers s" by (simp add: class_sets)
  with unlock_deposit show ?thesis using assms(1)
    by (intro lg_inv_pc [OF assms(1), of _ p PUnlocked]) (auto simp: lg_inv_def)
next
  case (post_full p)
  then show ?thesis using assms(1)
    by (intro lg_inv_pc [OF assms(1), of _ p PIdle]) (simp_all add: lockers_other)
next
  case wait_full
  then show ?thesis using assms(1)
    by (intro lg_inv_worker [OF assms(1)]) (auto simp: lg_inv_def fetched_def busy_def)
next
  case fetch
  then show ?thesis using assms(1)
    by (intro lg_inv_worker [OF assms(1)]) (auto simp: lg_inv_def fetched_def busy_def mod_Suc_eq)
next
  case (hello m)
  then show ?thesis using lg_inv_call [of "s\<lparr>lg_worker := WHello\<rparr>" worker_tid m] lg_inv_stay [OF assms(1), of WHello]
    by (simp add: busy_def)
next
  case started
  then show ?thesis using lg_inv_stay [OF assms(1), of WWait] by (simp add: busy_def)
next
  case (report_again m)
  then show ?thesis using lg_inv_call assms(1) by simp
next
  case reported
  then show ?thesis using lg_inv_stay [OF assms(1), of WDone] by (simp add: busy_def)
next
  case post_empty
  then show ?thesis using assms(1)
    by (intro lg_inv_worker [OF assms(1)]) (auto simp: lg_inv_def fetched_def busy_def)
next
  case (handle k)
  then show ?thesis using lg_inv_handle assms(1) by simp
next
  case (handle_failed k m)
  then show ?thesis
    using lg_inv_handle [OF assms(1) handle_failed(2), of WReport]
      lg_inv_call [of "s\<lparr>lg_worker := WReport, lg_out := lg_out s @ [lg_slots s k]\<rparr>" worker_tid m]
    by simp
qed

lemma lg_inv_init: "lg_init s \<Longrightarrow> lg_inv s"
  by (simp add: lg_init_def lg_inv_def fetched_def busy_def holders_def writers_def lockers_def)

text \<open>
  The queue that the buffer implements: the messages that wait, at most as many as there are
  slots, and those that were delivered.
\<close>

inductive queue_step :: "message list \<times> message list \<Rightarrow> message list \<times> message list \<Rightarrow> bool" where
  put: "length w < FPX_MAX_LOG_SLOTS \<Longrightarrow> queue_step (w, d) (w @ [m], d)"
| take_one: "queue_step (m # w, d) (w, d @ [m])"

inductive_simps queue_step_simps: "queue_step (w, d) (w', d')"

definition lg_queue :: "lg \<Rightarrow> message list \<times> message list" where
  "lg_queue s = (drop (length (lg_out s)) (lg_in s), lg_out s)"

lemma queue_init: "lg_init s \<Longrightarrow> lg_queue s = ([], [])"
  by (simp add: lg_init_def lg_queue_def)

lemma out_le_in: "lg_inv s \<Longrightarrow> length (lg_out s) \<le> length (lg_in s)"
  by (metis lg_inv_def length_take min.cobounded1)

lemma queue_handle:
  assumes "lg_inv s" "lg_worker s = WRead k"
  shows "queue_step (lg_queue s) (lg_queue (s\<lparr>lg_out := lg_out s @ [lg_slots s k]\<rparr>))"
  using handle_slot [OF assms] by (simp add: lg_queue_def queue_step_simps flip: Cons_nth_drop_Suc)

lemma queue_sim:
  assumes "lg_inv s" "lg_step s s'"
  shows "lg_queue s' = lg_queue s \<or> queue_step (lg_queue s) (lg_queue s')"
  using assms(2)
proof cases
  case (deposit p m)
  then show ?thesis using out_le_in [OF assms(1)] deposit_room [OF assms(1) deposit(2)] by (simp add: lg_queue_def queue_step_simps)
next
  case (handle k)
  then show ?thesis using queue_handle [OF assms(1) handle(2)] by (simp add: lg_queue_def)
next
  case (handle_failed k m)
  then show ?thesis using queue_handle [OF assms(1) handle_failed(2)] by (simp add: lg_queue_def)
qed (simp_all add: lg_queue_def)

interpretation logger: simulation lg_init lg_step lg_inv lg_queue "([], [])" queue_step
  by unfold_locales (rule lg_inv_init lg_inv_step queue_init queue_sim; assumption)+

interpretation queue: invariant_system "\<lambda>q. q = ([], [])" queue_step "\<lambda>q. length (fst q) \<le> FPX_MAX_LOG_SLOTS"
  by unfold_locales (auto elim: queue_step.cases)

lemma lg_reach_inv: "lg_reach s \<Longrightarrow> lg_inv s"
  unfolding lg_reach_def using logger.reach_inv by blast

section \<open>Delivery\<close>

lemma steps_first: "lg_step s s1 \<Longrightarrow> \<exists>s'. lg_step\<^sup>*\<^sup>* s1 s' \<and> P s' \<Longrightarrow> \<exists>s'. lg_step\<^sup>*\<^sup>* s s' \<and> P s'"
  by (meson converse_rtranclp_into_rtranclp)

lemma steps_fetch_handle:
  assumes "lg_worker s = WGot"
  shows "\<exists>s'. lg_step\<^sup>*\<^sup>* s s' \<and> length (lg_out s') = Suc (length (lg_out s))"
proof (rule steps_first [OF lg_step.fetch [OF assms]])
  let ?s1 = "s\<lparr>lg_worker := WRead (lg_front s), lg_front := (lg_front s + 1) mod FPX_MAX_LOG_SLOTS\<rparr>"
  have "lg_step ?s1 (?s1\<lparr>lg_worker := WDone, lg_out := lg_out ?s1 @ [lg_slots ?s1 (lg_front s)]\<rparr>)" (is "lg_step _ ?s2")
    by (rule lg_step.handle) simp
  then have "lg_step\<^sup>*\<^sup>* ?s1 ?s2" by (rule r_into_rtranclp)
  then show "\<exists>s'. lg_step\<^sup>*\<^sup>* ?s1 s' \<and> length (lg_out s') = Suc (length (lg_out s))"
    by (intro exI [of _ ?s2]) simp
qed

lemma steps_wait_full:
  assumes "lg_worker s = WWait" "lg_full s > 0"
  shows "\<exists>s'. lg_step\<^sup>*\<^sup>* s s' \<and> length (lg_out s') = Suc (length (lg_out s))"
  using steps_first [OF lg_step.wait_full [OF assms]] steps_fetch_handle [of "s\<lparr>lg_worker := WGot, lg_full := lg_full s - 1\<rparr>"]
  by simp

lemma steps_post_full:
  assumes "lg_worker s = WWait" "lg_pc s p = PUnlocked"
  shows "\<exists>s'. lg_step\<^sup>*\<^sup>* s s' \<and> length (lg_out s') = Suc (length (lg_out s))"
  using steps_first [OF lg_step.post_full [OF assms(2)]]
    steps_wait_full [of "s\<lparr>lg_pc := (lg_pc s)(p := PIdle), lg_full := lg_full s + 1\<rparr>"] assms(1)
  by simp

lemma steps_waiting:
  assumes inv: "lg_inv s" and w: "lg_worker s = WWait" and new: "length (lg_out s) < length (lg_in s)"
  shows "\<exists>s'. lg_step\<^sup>*\<^sup>* s s' \<and> length (lg_out s') = Suc (length (lg_out s))"
proof (cases "lg_full s = 0")
  case True
  have "lg_full s + card (writers s) + (if lg_worker s = WGot then 1 else 0) + fetched s = length (lg_in s)"
    using inv by (simp only: lg_inv_def)
  then have "card (writers s) > 0" using True w new by (simp add: fetched_def)
  then obtain p where "p \<in> writers s" by fastforce
  then consider "lg_pc s p = PUnlocked" | "lg_pc s p = PWritten" by (auto simp: writers_def)
  then show ?thesis
  proof cases
    case 1
    then show ?thesis using steps_post_full w by blast
  next
    case 2
    then show ?thesis
      using steps_first [OF lg_step.unlock_deposit [OF 2]] w
        steps_post_full [of "s\<lparr>lg_pc := (lg_pc s)(p := PUnlocked), lg_deposit := None\<rparr>" p]
      by simp
  qed
qed (use steps_wait_full w in simp)

lemma steps_deliver:
  assumes inv: "lg_inv s" and w: "lg_worker s \<notin> {WStart, WHello, WReport}" and new: "length (lg_out s) < length (lg_in s)"
  shows "\<exists>s'. lg_step\<^sup>*\<^sup>* s s' \<and> length (lg_out s') = Suc (length (lg_out s))"
proof (cases "lg_worker s")
  case WDone
  then have st: "lg_step s (s\<lparr>lg_worker := WWait, lg_empty := lg_empty s + 1\<rparr>)" by (rule lg_step.post_empty)
  then show ?thesis
    using steps_first [OF st] steps_waiting [OF lg_inv_step [OF inv st]] new by simp
next
  case (WRead k)
  from lg_step.handle [OF WRead] show ?thesis
    by (intro exI conjI, rule r_into_rtranclp) auto
qed (use assms steps_waiting steps_fetch_handle in auto)

section \<open>The logging thread waiting for itself\<close>

text \<open>A call of \<open>fpx_log_error\<close> that waits for a slot, while one is free and the mutex is too.\<close>

lemma wanted_run:
  assumes "lg_pc s p = PWant m" "lg_deposit s = None" "lg_empty s > 0"
  shows "lg_step\<^sup>*\<^sup>* s (s\<lparr>lg_pc := (lg_pc s)(p := PIdle), lg_slots := (lg_slots s)(lg_rear s := m),
           lg_rear := (lg_rear s + 1) mod FPX_MAX_LOG_SLOTS, lg_empty := lg_empty s - 1, lg_full := lg_full s + 1,
           lg_in := lg_in s @ [m]\<rparr>)" (is "rtranclp _ _ ?s6")
proof -
  let ?s2 = "s\<lparr>lg_pc := (lg_pc s)(p := PGot m), lg_empty := lg_empty s - 1\<rparr>"
  let ?s3 = "?s2\<lparr>lg_pc := (lg_pc s)(p := PLocked m), lg_deposit := Some p\<rparr>"
  let ?s4 = "?s3\<lparr>lg_pc := (lg_pc s)(p := PWritten), lg_slots := (lg_slots s)(lg_rear s := m),
      lg_rear := (lg_rear s + 1) mod FPX_MAX_LOG_SLOTS, lg_in := lg_in s @ [m]\<rparr>"
  let ?s5 = "?s4\<lparr>lg_pc := (lg_pc s)(p := PUnlocked), lg_deposit := None\<rparr>"
  have 2: "lg_step s ?s2" by (rule lg_step.wait_empty [OF assms(1,3)])
  have 3: "lg_step ?s2 ?s3" using lg_step.lock_deposit [of ?s2 p m] assms by simp
  have 4: "lg_step ?s3 ?s4" using lg_step.deposit [of ?s3 p m] by simp
  have 5: "lg_step ?s4 ?s5" using lg_step.unlock_deposit [of ?s4 p] by simp
  have "lg_step ?s5 (?s5\<lparr>lg_pc := (lg_pc ?s5)(p := PIdle), lg_full := lg_full ?s5 + 1\<rparr>)"
    by (rule lg_step.post_full) simp
  moreover have "?s5\<lparr>lg_pc := (lg_pc ?s5)(p := PIdle), lg_full := lg_full ?s5 + 1\<rparr> = ?s6"
    using assms by (intro lg.equality) (auto simp: fun_upd_idem)
  ultimately have 6: "lg_step ?s5 ?s6" by (simp only:)
  note go = converse_rtranclp_into_rtranclp [of lg_step]
  show ?thesis by (rule go [OF 2 go [OF 3 go [OF 4 go [OF 5 r_into_rtranclp [of lg_step, OF 6]]]]])
qed

text \<open>A whole call while a slot is free and nobody else logs.\<close>

lemma log_call_run:
  assumes "lg_pc s p = PIdle" "p \<noteq> worker_tid" "lg_deposit s = None" "lg_empty s > 0"
  shows "lg_step\<^sup>*\<^sup>* s (s\<lparr>lg_slots := (lg_slots s)(lg_rear s := m), lg_rear := (lg_rear s + 1) mod FPX_MAX_LOG_SLOTS,
           lg_empty := lg_empty s - 1, lg_full := lg_full s + 1, lg_in := lg_in s @ [m]\<rparr>)" (is "rtranclp _ _ ?s6")
proof -
  let ?s1 = "s\<lparr>lg_pc := (lg_pc s)(p := PWant m)\<rparr>"
  have "lg_step s ?s1" using assms by (intro lg_step.call)
  moreover have "?s1\<lparr>lg_pc := (lg_pc ?s1)(p := PIdle), lg_slots := (lg_slots ?s1)(lg_rear ?s1 := m),
           lg_rear := (lg_rear ?s1 + 1) mod FPX_MAX_LOG_SLOTS, lg_empty := lg_empty ?s1 - 1, lg_full := lg_full ?s1 + 1,
           lg_in := lg_in ?s1 @ [m]\<rparr> = ?s6"
    using assms(1) by (intro lg.equality) (auto simp: fun_upd_idem)
  then have "lg_step\<^sup>*\<^sup>* ?s1 ?s6" using wanted_run [of ?s1 p m] assms(3,4) by simp
  ultimately show ?thesis by (rule converse_rtranclp_into_rtranclp)
qed

section \<open>The start of the logging thread\<close>

text \<open>Before its first call the logging thread is idle.\<close>

interpretation starting: invariant_system lg_init lg_step "\<lambda>s. lg_worker s = WStart \<longrightarrow> lg_pc s worker_tid = PIdle"
  by unfold_locales (auto simp: lg_init_def elim!: lg_stepE)

lemma lg_reach_starting: "lg_reach s \<Longrightarrow> lg_worker s = WStart \<Longrightarrow> lg_pc s worker_tid = PIdle"
  unfolding lg_reach_def using starting.reach_inv by blast

lemma lg_reach_steps: "lg_reach s \<Longrightarrow> lg_step\<^sup>*\<^sup>* s s' \<Longrightarrow> lg_reach s'"
  unfolding lg_reach_def by (meson rtranclp_trans)

text \<open>A thread that holds the mutex gives it back, and no other thread has to move for that.\<close>

lemma deposit_released:
  assumes "lg_inv s" "lg_pc s worker_tid = PIdle"
  shows "\<exists>s'. lg_step\<^sup>*\<^sup>* s s' \<and> lg_deposit s' = None \<and> lg_worker s' = lg_worker s \<and> lg_empty s' = lg_empty s \<and>
    lg_out s' = lg_out s \<and> length (lg_in s) \<le> length (lg_in s') \<and> lg_pc s' worker_tid = PIdle"
proof (cases "lg_deposit s")
  case (Some p)
  have unlock: "\<exists>s'. lg_step\<^sup>*\<^sup>* s s' \<and> lg_deposit s' = None \<and> lg_worker s' = lg_worker s \<and> lg_empty s' = lg_empty s \<and>
      lg_out s' = lg_out s \<and> length (lg_in s) \<le> length (lg_in s') \<and> lg_pc s' worker_tid = PIdle"
    if "lg_pc s p = PWritten" "lg_pc s worker_tid = PIdle" for s
    using r_into_rtranclp [of lg_step, OF lg_step.unlock_deposit [OF that(1)]] that
    by (intro exI [of _ "s\<lparr>lg_pc := (lg_pc s)(p := PUnlocked), lg_deposit := None\<rparr>"]) auto
  have "p \<in> lockers s" using assms(1) Some by (simp add: lg_inv_def)
  then consider "lg_pc s p = PWritten" | m where "lg_pc s p = PLocked m" by (auto simp: lockers_def)
  then show ?thesis
  proof cases
    case 1
    then show ?thesis using unlock assms(2) by blast
  next
    case 2
    let ?s1 = "s\<lparr>lg_pc := (lg_pc s)(p := PWritten), lg_slots := (lg_slots s)(lg_rear s := m),
      lg_rear := (lg_rear s + 1) mod FPX_MAX_LOG_SLOTS, lg_in := lg_in s @ [m]\<rparr>"
    have "p \<noteq> worker_tid" using 2 assms(2) by auto
    with unlock [of ?s1] assms(2) obtain s' where "lg_step\<^sup>*\<^sup>* ?s1 s'" "lg_deposit s' = None" "lg_worker s' = lg_worker s"
      "lg_empty s' = lg_empty s" "lg_out s' = lg_out s" "Suc (length (lg_in s)) \<le> length (lg_in s')" "lg_pc s' worker_tid = PIdle"
      by auto
    then show ?thesis using converse_rtranclp_into_rtranclp [of lg_step, OF lg_step.deposit [OF 2]]
      by (intro exI [of _ s']) auto
  qed
qed (use assms(2) in auto)

text \<open>With a free slot the logging thread gets past its greeting.\<close>

lemma greeting_run:
  assumes "lg_worker s = WStart" "lg_pc s worker_tid = PIdle" "lg_deposit s = None" "lg_empty s > 0"
  shows "\<exists>s'. lg_step\<^sup>*\<^sup>* s s' \<and> lg_worker s' = WWait \<and> lg_out s' = lg_out s \<and> length (lg_in s) \<le> length (lg_in s')"
proof -
  let ?s1 = "s\<lparr>lg_worker := WHello, lg_pc := (lg_pc s)(worker_tid := PWant 0)\<rparr>"
  let ?s2 = "?s1\<lparr>lg_pc := (lg_pc ?s1)(worker_tid := PIdle), lg_slots := (lg_slots ?s1)(lg_rear ?s1 := 0),
           lg_rear := (lg_rear ?s1 + 1) mod FPX_MAX_LOG_SLOTS, lg_empty := lg_empty ?s1 - 1, lg_full := lg_full ?s1 + 1,
           lg_in := lg_in ?s1 @ [0]\<rparr>"
  have 1: "lg_step s ?s1" by (rule lg_step.hello [OF assms(1,2)])
  have 2: "lg_step\<^sup>*\<^sup>* ?s1 ?s2" using assms(3,4) by (intro wanted_run) simp_all
  have 3: "lg_step ?s2 (?s2\<lparr>lg_worker := WWait\<rparr>)" by (rule lg_step.started) simp_all
  have "lg_step\<^sup>*\<^sup>* s (?s2\<lparr>lg_worker := WWait\<rparr>)"
    by (rule converse_rtranclp_into_rtranclp [of lg_step, OF 1 rtranclp.rtrancl_into_rtrancl [of lg_step, OF 2 3]])
  then show ?thesis by (intro exI [of _ "?s2\<lparr>lg_worker := WWait\<rparr>"]) simp
qed

lemma steps_start:
  assumes "lg_reach s" "lg_worker s = WStart" "lg_empty s > 0" "length (lg_out s) < length (lg_in s)"
  shows "\<exists>s'. lg_step\<^sup>*\<^sup>* s s' \<and> length (lg_out s') = Suc (length (lg_out s))"
proof -
  obtain s1 where 1: "lg_step\<^sup>*\<^sup>* s s1" "lg_deposit s1 = None" "lg_worker s1 = WStart" "lg_empty s1 > 0" "lg_out s1 = lg_out s"
    "length (lg_in s) \<le> length (lg_in s1)" "lg_pc s1 worker_tid = PIdle"
    using deposit_released [OF lg_reach_inv [OF assms(1)] lg_reach_starting [OF assms(1,2)]] assms(2,3) by metis
  obtain s2 where 2: "lg_step\<^sup>*\<^sup>* s1 s2" "lg_worker s2 = WWait" "lg_out s2 = lg_out s1" "length (lg_in s1) \<le> length (lg_in s2)"
    using greeting_run [OF 1(3,7,2,4)] by blast
  have "lg_inv s2" using lg_reach_inv lg_reach_steps assms(1) 1(1) 2(1) by blast
  then obtain s3 where "lg_step\<^sup>*\<^sup>* s2 s3" "length (lg_out s3) = Suc (length (lg_out s2))"
    using steps_deliver [of s2] 1(5,6) 2(2-4) assms(4) by auto
  then show ?thesis using 1(1,5) 2(1,3) by (metis rtranclp_trans)
qed

text \<open>Without one it never does.\<close>

definition lg_asleep :: "message list \<Rightarrow> lg \<Rightarrow> bool" where
  "lg_asleep out s \<longleftrightarrow> lg_empty s = 0 \<and> lg_out s = out \<and>
     (lg_worker s = WStart \<or> lg_worker s = WHello \<and> (\<exists>m. lg_pc s worker_tid = PWant m))"

interpretation asleep: invariant_system "lg_asleep out" lg_step "lg_asleep out" for out
proof
  show "lg_asleep out s'" if "lg_asleep out s" "lg_step s s'" for s s'
    using that by (elim lg_stepE) (auto simp: lg_asleep_def fun_upd_def)
qed

lemma fill_run:
  assumes "n \<le> FPX_MAX_LOG_SLOTS"
  shows "\<exists>s0 s. lg_init s0 \<and> lg_step\<^sup>*\<^sup>* s0 s \<and> lg_pc s = (\<lambda>_. PIdle) \<and> lg_deposit s = None \<and>
     lg_worker s = WStart \<and> lg_empty s = FPX_MAX_LOG_SLOTS - n \<and> length (lg_in s) = n \<and> lg_out s = []"
  using assms
proof (induction n)
  case 0
  let ?s = "\<lparr>lg_slots = (\<lambda>_. 0), lg_front = 0, lg_rear = 0, lg_empty = FPX_MAX_LOG_SLOTS, lg_full = 0, lg_deposit = None,
    lg_pc = (\<lambda>_. PIdle), lg_worker = WStart, lg_in = [], lg_out = []\<rparr>"
  have "lg_init ?s" by (simp add: lg_init_def)
  then show ?case by (intro exI [of _ ?s]) simp
next
  case (Suc n)
  then obtain s0 s where s: "lg_init s0" "lg_step\<^sup>*\<^sup>* s0 s" "lg_pc s = (\<lambda>_. PIdle)" "lg_deposit s = None"
    "lg_worker s = WStart" "lg_empty s = FPX_MAX_LOG_SLOTS - n" "length (lg_in s) = n" "lg_out s = []"
    by (metis Suc_leD)
  have "lg_step\<^sup>*\<^sup>* s0 (s\<lparr>lg_slots := (lg_slots s)(lg_rear s := 0), lg_rear := (lg_rear s + 1) mod FPX_MAX_LOG_SLOTS,
           lg_empty := lg_empty s - 1, lg_full := lg_full s + 1, lg_in := lg_in s @ [0]\<rparr>)" (is "rtranclp _ _ ?s'")
    using s(2) log_call_run [of s 1 0] s Suc.prems by (simp add: worker_tid_def)
  then show ?case using s by (intro exI [of _ s0] exI [of _ ?s']) simp
qed

definition lg_stuck :: "lg \<Rightarrow> bool" where
  "lg_stuck s \<longleftrightarrow> lg_worker s = WHello \<and> (\<exists>m. lg_pc s worker_tid = PWant m) \<and> lg_empty s = 0 \<and> lg_out s = []"

interpretation stuck: invariant_system lg_stuck lg_step lg_stuck
proof
  show "lg_stuck s'" if "lg_stuck s" "lg_step s s'" for s s'
    using that by (elim lg_stepE) (auto simp: lg_stuck_def fun_upd_def)
qed

lemma stuck_reachable: "\<exists>s. lg_reach s \<and> lg_stuck s \<and> length (lg_in s) = FPX_MAX_LOG_SLOTS"
proof -
  obtain s0 s where s: "lg_init s0" "lg_step\<^sup>*\<^sup>* s0 s" "lg_pc s = (\<lambda>_. PIdle)" "lg_worker s = WStart"
    "lg_empty s = 0" "length (lg_in s) = FPX_MAX_LOG_SLOTS" "lg_out s = []"
    using fill_run [of FPX_MAX_LOG_SLOTS] by auto
  let ?s' = "s\<lparr>lg_worker := WHello, lg_pc := (lg_pc s)(worker_tid := PWant 0)\<rparr>"
  have "lg_step s ?s'" using s by (intro lg_step.hello) simp_all
  then have "lg_reach ?s'" unfolding lg_reach_def using s(1,2) by (meson rtranclp.rtrancl_into_rtrancl)
  then show ?thesis using s by (intro exI [of _ ?s']) (simp add: lg_stuck_def)
qed

section \<open>Properties of the ring buffer\<close>

text \<open>
  C5 (fpx_log_fifo). Under every interleaving of calling threads and the logging thread, the
  messages handed to the logs are a prefix of the messages deposited, in the order of the
  deposits: none is lost, doubled or reordered. At most 32 are pending, a pending message is
  still in its slot, and at most one thread is between locking and unlocking the deposit
  mutex.
\<close>

theorem fpx_log_fifo:
  assumes "lg_reach s"
  shows "lg_out s = take (length (lg_out s)) (lg_in s) \<and> length (lg_out s) \<le> length (lg_in s) \<and>
    length (lg_in s) \<le> length (lg_out s) + FPX_MAX_LOG_SLOTS \<and>
    (\<forall>j. length (lg_out s) \<le> j \<and> j < length (lg_in s) \<longrightarrow> lg_slots s (j mod FPX_MAX_LOG_SLOTS) = lg_in s ! j) \<and>
    (\<forall>p q. p \<in> lockers s \<and> q \<in> lockers s \<longrightarrow> p = q)"
proof -
  have inv: "lg_inv s" by (rule lg_reach_inv [OF assms])
  have tok: "lg_empty s + card (holders s) + length (lg_in s) + busy s = FPX_MAX_LOG_SLOTS + fetched s"
    "lg_full s + card (writers s) + (if lg_worker s = WGot then 1 else 0) + fetched s = length (lg_in s)"
    "lockers s = set_option (lg_deposit s)"
    using inv by (simp_all only: lg_inv_def)
  have f: "fetched s \<le> length (lg_out s) + busy s" "length (lg_out s) \<le> fetched s"
    by (simp_all add: fetched_def busy_def split: wpc.splits)
  have "length (lg_out s) \<le> length (lg_in s)" "length (lg_in s) \<le> length (lg_out s) + FPX_MAX_LOG_SLOTS"
    using tok(1,2) f by linarith+
  moreover have "\<forall>p q. p \<in> lockers s \<and> q \<in> lockers s \<longrightarrow> p = q"
    unfolding tok(3) by (cases "lg_deposit s") simp_all
  moreover have "lg_out s = take (length (lg_out s)) (lg_in s)"
    "\<forall>j. length (lg_out s) \<le> j \<and> j < length (lg_in s) \<longrightarrow> lg_slots s (j mod FPX_MAX_LOG_SLOTS) = lg_in s ! j"
    using inv unfolding lg_inv_def by blast+
  ultimately show ?thesis by blast
qed

lemma lg_reach_fill: "\<exists>s. lg_reach s \<and> lg_worker s = WStart \<and> length (lg_in s) = 2 \<and> lg_out s = []"
  using fill_run [of 2] unfolding lg_reach_def by (auto simp: FPX_MAX_LOG_SLOTS_def)

theorem fpx_log_fifo_witness:
  "\<exists>s. lg_reach s \<and> length (lg_in s) = 2 \<and> lg_slots s 0 = lg_in s ! 0 \<and> lg_slots s 1 = lg_in s ! 1"
proof -
  obtain s where s: "lg_reach s" "length (lg_in s) = 2" "lg_out s = []" using lg_reach_fill by blast
  then have "\<forall>j. j < 2 \<longrightarrow> lg_slots s (j mod 32) = lg_in s ! j"
    using fpx_log_fifo [OF s(1)] by (simp add: FPX_MAX_LOG_SLOTS_def)
  from this [rule_format, of 0] this [rule_format, of 1] s show ?thesis by auto
qed

text \<open>
  C7 (fpx_log_refines_queue). The ring buffer with its semaphores, mutexes and threads implements a queue
  of 32 messages: every reachable state stands for a state of the queue, reached by its
  operations alone and never over-full; every step of a thread puts one message at its end, hands the first
  one to the logs, or leaves the queue as it is; and an idle caller that finds a free slot and the mutex free
  can put any message.
\<close>

theorem fpx_log_refines_queue:
  assumes "lg_reach s"
  shows "queue_step\<^sup>*\<^sup>* ([], []) (lg_queue s) \<and> length (fst (lg_queue s)) \<le> FPX_MAX_LOG_SLOTS \<and>
    (lg_step s s' \<longrightarrow> lg_queue s' = lg_queue s \<or> queue_step (lg_queue s) (lg_queue s')) \<and>
    (lg_pc s p = PIdle \<and> p \<noteq> worker_tid \<and> lg_deposit s = None \<and> 0 < lg_empty s \<longrightarrow>
      (\<exists>s2. lg_step\<^sup>*\<^sup>* s s2 \<and> lg_queue s2 = (fst (lg_queue s) @ [m], snd (lg_queue s))))"
proof -
  have r: "queue_step\<^sup>*\<^sup>* ([], []) (lg_queue s)" using assms unfolding lg_reach_def by (blast intro: logger.reach_sim)
  have inv: "lg_inv s" by (rule lg_reach_inv [OF assms])
  have "\<exists>s2. lg_step\<^sup>*\<^sup>* s s2 \<and> lg_queue s2 = (fst (lg_queue s) @ [m], snd (lg_queue s))"
    if "lg_pc s p = PIdle \<and> p \<noteq> worker_tid \<and> lg_deposit s = None \<and> 0 < lg_empty s"
    using log_call_run [of s p m] that out_le_in [OF inv] by (intro exI conjI) (auto simp: lg_queue_def)
  then show ?thesis using r queue.reach_inv [OF refl r] queue_sim [OF inv] by blast
qed

theorem fpx_log_refines_queue_witness:
  "\<exists>s s2. lg_reach s \<and> length (fst (lg_queue s)) \<le> 32 \<and> lg_step\<^sup>*\<^sup>* s s2 \<and> lg_queue s2 = ([7], [])"
proof -
  let ?s = "\<lparr>lg_slots = (\<lambda>_. 0), lg_front = 0, lg_rear = 0, lg_empty = FPX_MAX_LOG_SLOTS, lg_full = 0, lg_deposit = None,
    lg_pc = (\<lambda>_. PIdle), lg_worker = WStart, lg_in = [], lg_out = []\<rparr>"
  have "lg_init ?s" by (simp add: lg_init_def)
  then have "lg_reach ?s" unfolding lg_reach_def by blast
  moreover have "lg_queue ?s = ([], [])" "lg_pc ?s 1 = PIdle \<and> 1 \<noteq> worker_tid \<and> lg_deposit ?s = None \<and> 0 < lg_empty ?s"
    by (simp_all add: lg_queue_def worker_tid_def FPX_MAX_LOG_SLOTS_def)
  ultimately show ?thesis using fpx_log_refines_queue [of ?s ?s 1 7] by (auto simp: FPX_MAX_LOG_SLOTS_def)
qed

text \<open>
  C31 (fpx_logger_delivers). When the logging thread is not itself inside a call of
  \<open>fpx_log_error\<close>, a pending message can be delivered, from every reachable state and whatever the callers and
  the two semaphores are doing: there is a run to a state in which one more message has been handed to the logs.
  The one exception is the thread before its first call, which announces it: there
  a message can be delivered exactly when a slot is still free.
\<close>

theorem fpx_logger_delivers:
  assumes "lg_reach s" "lg_worker s \<notin> {WHello, WReport}" "length (lg_out s) < length (lg_in s)"
  shows "(\<exists>s'. lg_step\<^sup>*\<^sup>* s s' \<and> length (lg_out s') = Suc (length (lg_out s))) \<longleftrightarrow>
    (lg_worker s = WStart \<longrightarrow> 0 < lg_empty s)"
proof (cases "lg_worker s = WStart")
  case True
  have "lg_out s' = lg_out s" if "lg_empty s = 0" "lg_step\<^sup>*\<^sup>* s s'" for s'
    using asleep.reach_inv [of "lg_out s" s s'] that True by (simp add: lg_asleep_def)
  then have "\<not> (\<exists>s'. lg_step\<^sup>*\<^sup>* s s' \<and> length (lg_out s') = Suc (length (lg_out s)))" if "lg_empty s = 0"
    using that by (metis n_not_Suc_n)
  then show ?thesis using steps_start [OF assms(1) True _ assms(3)] True by blast
next
  case False
  then show ?thesis using steps_deliver [OF lg_reach_inv [OF assms(1)] _ assms(3)] assms(2) by auto
qed

text \<open>A state with a pending message and the logging thread in its loop.\<close>

definition lg_demo :: "wpc \<Rightarrow> (tid \<Rightarrow> ppc) \<Rightarrow> nat \<Rightarrow> nat \<Rightarrow> tid option \<Rightarrow> message list \<Rightarrow> lg" where
  "lg_demo w pc e f d ms = \<lparr>lg_slots = (\<lambda>_. 0), lg_front = 0, lg_rear = length ms, lg_empty = e, lg_full = f,
     lg_deposit = d, lg_pc = pc, lg_worker = w, lg_in = ms, lg_out = []\<rparr>"

lemma lg_demo_reach: "lg_reach (lg_demo WWait (\<lambda>_. PIdle) 31 1 None [0])"
proof -
  let ?i = "\<lambda>_. PIdle" let ?w = "\<lambda>x. (\<lambda>_. PIdle)(worker_tid := x)"
  note d = lg_demo_def FPX_MAX_LOG_SLOTS_def
  have 0: "lg_init (lg_demo WStart ?i 32 0 None [])" by (simp add: lg_init_def d)
  have 1: "lg_step (lg_demo WStart ?i 32 0 None []) (lg_demo WHello (?w (PWant 0)) 32 0 None [])"
    using lg_step.hello [of "lg_demo WStart ?i 32 0 None []" 0] by (simp add: d)
  have 2: "lg_step (lg_demo WHello (?w (PWant 0)) 32 0 None []) (lg_demo WHello (?w (PGot 0)) 31 0 None [])"
    using lg_step.wait_empty [of "lg_demo WHello (?w (PWant 0)) 32 0 None []" worker_tid 0] by (simp add: d)
  have 3: "lg_step (lg_demo WHello (?w (PGot 0)) 31 0 None [])
      (lg_demo WHello (?w (PLocked 0)) 31 0 (Some worker_tid) [])"
    using lg_step.lock_deposit [of "lg_demo WHello (?w (PGot 0)) 31 0 None []" worker_tid 0] by (simp add: d)
  have 4: "lg_step (lg_demo WHello (?w (PLocked 0)) 31 0 (Some worker_tid) [])
      (lg_demo WHello (?w PWritten) 31 0 (Some worker_tid) [0])"
    using lg_step.deposit [of "lg_demo WHello (?w (PLocked 0)) 31 0 (Some worker_tid) []" worker_tid 0]
    by (simp add: d fun_upd_idem)
  have 5: "lg_step (lg_demo WHello (?w PWritten) 31 0 (Some worker_tid) [0])
      (lg_demo WHello (?w PUnlocked) 31 0 None [0])"
    using lg_step.unlock_deposit [of "lg_demo WHello (?w PWritten) 31 0 (Some worker_tid) [0]" worker_tid]
    by (simp add: d)
  have 6: "lg_step (lg_demo WHello (?w PUnlocked) 31 0 None [0]) (lg_demo WHello ?i 31 1 None [0])"
    using lg_step.post_full [of "lg_demo WHello (?w PUnlocked) 31 0 None [0]" worker_tid]
    by (simp add: d fun_upd_idem)
  have 7: "lg_step (lg_demo WHello ?i 31 1 None [0]) (lg_demo WWait ?i 31 1 None [0])"
    using lg_step.started [of "lg_demo WHello ?i 31 1 None [0]"] by (simp add: d)
  note go = converse_rtranclp_into_rtranclp [of lg_step]
  have "lg_step\<^sup>*\<^sup>* (lg_demo WStart ?i 32 0 None []) (lg_demo WWait ?i 31 1 None [0])"
    by (rule go [OF 1 go [OF 2 go [OF 3 go [OF 4 go [OF 5 go [OF 6 r_into_rtranclp [of lg_step, OF 7]]]]]]])
  with 0 show ?thesis unfolding lg_reach_def by blast
qed

theorem fpx_logger_delivers_witness:
  "\<exists>s'. lg_step\<^sup>*\<^sup>* (lg_demo WWait (\<lambda>_. PIdle) 31 1 None [0]) s' \<and> length (lg_out s') = 1"
  using fpx_logger_delivers [OF lg_demo_reach] by (simp add: lg_demo_def)

text \<open>
  C23 (fpx_logger_self_deadlock). The logging thread announces itself through the very buffer
  it empties, one second after its start. When 32 messages have been deposited by then, its
  own call waits for a free slot that only itself could make: there is a reachable state with
  32 pending messages from which no run ever delivers a message.
\<close>

theorem fpx_logger_self_deadlock:
  "\<exists>s. lg_reach s \<and> length (lg_in s) = FPX_MAX_LOG_SLOTS \<and> lg_out s = [] \<and> (\<forall>s'. lg_step\<^sup>*\<^sup>* s s' \<longrightarrow> lg_out s' = [])"
proof -
  obtain s where s: "lg_reach s" "lg_stuck s" "length (lg_in s) = FPX_MAX_LOG_SLOTS" using stuck_reachable by blast
  have "\<forall>s'. lg_step\<^sup>*\<^sup>* s s' \<longrightarrow> lg_out s' = []"
    using stuck.reach_inv [OF s(2)] by (auto simp: lg_stuck_def)
  with s show ?thesis by (intro exI [of _ s]) (auto simp: lg_stuck_def)
qed

theorem fpx_logger_self_deadlock_witness:
  "\<exists>s. lg_reach s \<and> (\<forall>s'. lg_step\<^sup>*\<^sup>* s s' \<longrightarrow> lg_out s' = [])"
  using fpx_logger_self_deadlock by blast

end
