(* ===== verification/Fpx_Errno.thy ===== *)
theory Fpx_Errno
  imports Fpx_String
begin

text \<open>
  Error texts, \<open>src/system/errno.c\<close>, POSIX part. The text that the C library has for a code
  of the system is the parameter \<open>strerror\<close>.
\<close>

section \<open>The table\<close>

definition FPX_ERR_UNKNOW :: fpx_err_t where "FPX_ERR_UNKNOW = 2147483647"

definition error_list :: "(fpx_err_t \<times> byte list) list" where
  "error_list = map (\<lambda>(c, s). (c, bytes s))
    [(FPX_OK, ''OK''),
     (FPX_FAILED, ''Internal server error''),
     (FPX_BUSY, ''Resource is busy''),
     (FPX_DONE, ''Operation is done''),
     (FPX_ABORT, ''Operation aborted''),
     (FPX_DECLINED, ''Operation declined''),
     (FPX_NOT_FOUND, ''Resource not found''),
     (FPX_ERR_CONFIG_SYNTAX, ''Error of configuration file syntax''),
     (FPX_ERR_FILESYS_ABS_PATH, ''Specified path is not absolute''),
     (FPX_ERR_FILESYS_LONG_PATH, ''Result path is too long''),
     (FPX_ERR_SSL_INIT, ''Failed to initialize SSL library''),
     (FPX_ERR_UNKNOW, ''Unknown error code'')]"

section \<open>Copying a text into the buffer\<close>

text \<open>
  The copy of \<open>fpx_os_strerror\<close> and \<open>fpx_strerror\<close>; \<open>str\<close> is the text without its terminator.
  With an empty buffer the store \<open>buf[bufsize - 1]\<close> is outside of it.
\<close>

definition copy_text :: "byte list \<Rightarrow> byte list \<Rightarrow> byte list option" where
  "copy_text str buf =
     (let len = length str; bufsize = length buf in
      if len < bufsize then Some (str @ [0] @ drop (Suc len) buf)
      else if bufsize = 0 then None
      else Some ((take bufsize str)[bufsize - 1 := 0]))"

definition fpx_os_strerror :: "(fpx_err_t \<Rightarrow> byte list) \<Rightarrow> fpx_err_t \<Rightarrow> byte list \<Rightarrow> byte list option" where
  "fpx_os_strerror strerror err buf = copy_text (strerror err) buf"

text \<open>The loop over the table; running off its end is a read outside of it.\<close>

fun error_loop :: "(fpx_err_t \<times> byte list) list \<Rightarrow> fpx_err_t \<Rightarrow> byte list \<Rightarrow> byte list option" where
  "error_loop [] err buf = None"
| "error_loop ((code, message) # es) err buf =
     (if code = err \<or> code = FPX_ERR_UNKNOW then copy_text message buf else error_loop es err buf)"

definition fpx_strerror :: "(fpx_err_t \<Rightarrow> byte list) \<Rightarrow> fpx_err_t \<Rightarrow> byte list \<Rightarrow> byte list option" where
  "fpx_strerror strerror err buf =
     (if err > 0 \<and> err < FPX_ERROR_DOMAIN_BASE then fpx_os_strerror strerror err buf
      else error_loop error_list err buf)"

section \<open>Properties\<close>

text \<open>The text that belongs to a code.\<close>

definition error_text :: "(fpx_err_t \<Rightarrow> byte list) \<Rightarrow> fpx_err_t \<Rightarrow> byte list" where
  "error_text strerror err =
     (if err > 0 \<and> err < FPX_ERROR_DOMAIN_BASE then strerror err
      else case map_of error_list err of Some t \<Rightarrow> t | None \<Rightarrow> bytes ''Unknown error code'')"

lemma copy_text_cstr:
  assumes "0 \<notin> set str" "buf \<noteq> []"
  shows "\<exists>b. copy_text str buf = Some b \<and> length b = length buf \<and> is_cstr b (take (length buf - 1) str)"
proof (cases "length str < length buf")
  case True
  then show ?thesis using assms by (auto simp: copy_text_def Let_def is_cstr_append)
next
  case False
  then obtain n where n: "length buf = Suc n" using assms by (cases buf) auto
  have "n < length str" using False n by simp
  then have "(take (Suc n) str)[n := 0] = take n str @ [0]" by (simp add: take_Suc_conv_app_nth list_update_append)
  then show ?thesis using assms False n
    by (auto simp: copy_text_def Let_def is_cstr_append dest: in_set_takeD)
qed

lemma error_loop_table: "error_loop error_list err buf =
   copy_text (case map_of error_list err of Some t \<Rightarrow> t | None \<Rightarrow> bytes ''Unknown error code'') buf"
  by (simp add: error_list_def err_codes FPX_ERR_UNKNOW_def)

lemma error_list_nz: "\<forall>(c, t)\<in>set error_list. 0 \<notin> set t"
  by code_simp

lemma unknown_nz: "0 \<notin> set (bytes ''Unknown error code'')"
  by code_simp

lemma error_text_nz: "0 \<notin> set (strerror err) \<Longrightarrow> 0 \<notin> set (error_text strerror err)"
  using error_list_nz unknown_nz by (auto simp: error_text_def split: option.splits dest: map_of_SomeD)

text \<open>
  For every code and every buffer that is not empty the text of the
  code is copied and cut to the room there is, always with a terminator and without touching
  anything outside the buffer: the texts of the system for codes below 20000, the table of
  the server otherwise, and "Unknown error code" for a code that is in neither. With an empty
  buffer the code stores before or behind it.
\<close>

theorem fpx_strerror_text:
  assumes "\<forall>e. 0 \<notin> set (strerror e)"
  shows "(buf \<noteq> [] \<longrightarrow> (\<exists>b. fpx_strerror strerror err buf = Some b \<and> length b = length buf \<and>
           is_cstr b (take (length buf - 1) (error_text strerror err)))) \<and>
    fpx_strerror strerror err [] = None"
proof -
  have e: "fpx_strerror strerror err b = copy_text (error_text strerror err) b" for b
    by (simp add: fpx_strerror_def fpx_os_strerror_def error_text_def error_loop_table)
  have "0 \<notin> set (error_text strerror err)" using assms error_text_nz by simp
  then show ?thesis unfolding e using copy_text_cstr by (simp add: copy_text_def)
qed

theorem fpx_strerror_text_witness:
  "\<exists>b. fpx_strerror (\<lambda>_. [0x45]) 20201 (replicate 10 7) = Some b \<and> length b = 10 \<and>
     is_cstr b (bytes ''Specified'')"
proof -
  have t: "take 9 (error_text (\<lambda>_. [0x45]) 20201) = bytes ''Specified''" by code_simp
  show ?thesis
    using fpx_strerror_text [of "\<lambda>_. [0x45]" "replicate 10 7" 20201] t by simp
qed

end
