(* ===== verification/Fpx_Parse.thy ===== *)
theory Fpx_Parse
  imports Fpx_String
begin

text \<open>
  The value parsers of \<open>src/core/parse.c\<close>: sizes with a K, M or G suffix, addresses with
  ports, and log levels. Pointers into the argument are positions in its buffer. The pool is
  the parameter \<open>alloc\<close>, which says whether a request of a given size is served; its results
  are not checked by the code, and a failed request leads to a store through NULL.
\<close>

section \<open>Sizes\<close>

definition FPX_LOG_INVALID_LEVEL :: nat where "FPX_LOG_INVALID_LEVEL = 5"

definition FPX_ADDR_INVALID :: "32 word" where "FPX_ADDR_INVALID = -1"
definition FPX_ADDR_IPV4 :: "32 word" where "FPX_ADDR_IPV4 = 0"
definition FPX_ADDR_IPV6 :: "32 word" where "FPX_ADDR_IPV6 = 1"

definition size_suffix :: "byte \<Rightarrow> int option" where
  "size_suffix prefix =
     (if prefix = 0x4B \<or> prefix = 0x6B then Some 1024
      else if prefix = 0x4D \<or> prefix = 0x6D then Some (1024 * 1024)
      else if prefix = 0x47 \<or> prefix = 0x67 then Some (1024 * 1024 * 1024)
      else None)"

definition fpx_config_parse_size :: "byte list \<Rightarrow> int option" where
  "fpx_config_parse_size str = do {
     len \<leftarrow> fpx_strlen str;
     if len = 0 then Some (-1)
     else do {
       prefix \<leftarrow> rd str (len - 1);
       let (len, max, scale) = (case size_suffix prefix of
           Some scale \<Rightarrow> (len - 1, FPX_SSIZE_T_MAX div scale, scale)
         | None \<Rightarrow> (len, FPX_SSIZE_T_MAX, 1));
       sz \<leftarrow> fpx_atosz str len;
       if sz = -1 \<or> sz > max then Some (-1)
       else in_type FPX_SSIZE_T_MAX (sz * scale)
     }
   }"

section \<open>Addresses\<close>

text \<open>
  The backward scan over digits; \<open>k\<close> is \<open>pos - str + 1\<close>, so that \<open>k = 0\<close> stands for
  \<open>pos < str\<close>. The result of the parser holds what was stored through \<open>addr\<close> and \<open>port\<close>;
  \<^const>\<open>None\<close> there means that the variable of the caller was not assigned.
\<close>

fun scan_digits :: "byte list \<Rightarrow> nat \<Rightarrow> nat option" where
  "scan_digits str 0 = Some 0"
| "scan_digits str (Suc k) = do {
     c \<leftarrow> rd str k;
     if fpx_isdigit c then scan_digits str k else Some (Suc k)
   }"

record addr_port =
  ap_rv :: "32 word"
  ap_addr :: "byte list option"
  ap_port :: "byte list option"

definition ap_invalid :: "byte list option \<Rightarrow> addr_port" where
  "ap_invalid port = \<lparr>ap_rv = FPX_ADDR_INVALID, ap_addr = None, ap_port = port\<rparr>"

definition pcopy :: "(nat \<Rightarrow> bool) \<Rightarrow> byte list \<Rightarrow> byte list option" where
  "pcopy alloc s = (if alloc (length s + 1) then Some s else None)"

text \<open>The part of the parser after the port, where \<open>e\<close> is \<open>end - str + 1\<close>.\<close>

definition parse_addr :: "(nat \<Rightarrow> bool) \<Rightarrow> byte list \<Rightarrow> nat \<Rightarrow> byte list option \<Rightarrow> addr_port option" where
  "parse_addr alloc str e port = do {
     close_bracket \<leftarrow> fpx_strchr str 0x5D;
     c \<leftarrow> rd str 0;
     if c = 0x5B then
       case close_bracket of
         None \<Rightarrow> Some (ap_invalid port)
       | Some b \<Rightarrow> do {
           l \<leftarrow> (if e = 0 then None else rd str (e - 1));
           if l \<noteq> 0x5D then Some (ap_invalid port)
           else do {
             a \<leftarrow> pcopy alloc (take (b - 1) (drop 1 str));
             Some \<lparr>ap_rv = FPX_ADDR_IPV6, ap_addr = Some a, ap_port = port\<rparr>
           }
         }
     else if close_bracket \<noteq> None then Some (ap_invalid port)
     else do {
       a \<leftarrow> pcopy alloc (take e str);
       Some \<lparr>ap_rv = FPX_ADDR_IPV4, ap_addr = Some a, ap_port = port\<rparr>
     }
   }"

definition any_addr :: "byte list" where "any_addr = bytes ''0.0.0.0''"

definition fpx_config_parse_addr_port :: "(nat \<Rightarrow> bool) \<Rightarrow> byte list \<Rightarrow> addr_port option" where
  "fpx_config_parse_addr_port alloc str = do {
     len \<leftarrow> fpx_strlen str;
     k \<leftarrow> scan_digits str len;
     if k = 0 then do {
       int_port \<leftarrow> fpx_atoi str len;
       if int_port < 1 \<or> int_port > 65535 then Some (ap_invalid None)
       else do {
         p \<leftarrow> pcopy alloc (take len str);
         Some \<lparr>ap_rv = FPX_ADDR_IPV4, ap_addr = Some any_addr, ap_port = Some p\<rparr>
       }
     }
     else do {
       c \<leftarrow> rd str (k - 1);
       if c = 0x3A \<and> k < len then
         if k = 1 then Some (ap_invalid None)
         else do {
           int_port \<leftarrow> fpx_atoi (drop k str) (len - k);
           if int_port < 1 \<or> int_port > 65535 then Some (ap_invalid None)
           else do {
             plen \<leftarrow> fpx_strlen (drop k str);
             p \<leftarrow> pcopy alloc (take plen (drop k str));
             parse_addr alloc str (k - 1) (Some p)
           }
         }
       else parse_addr alloc str len None
     }
   }"

section \<open>Log levels\<close>

definition fpx_log_prio :: "byte list list" where
  "fpx_log_prio = map bytes [''emerg'', ''error'', ''warn'', ''info'', ''debug'']"

fun log_level_loop :: "byte list \<Rightarrow> byte list list \<Rightarrow> nat \<Rightarrow> nat" where
  "log_level_loop str [] i = FPX_LOG_INVALID_LEVEL"
| "log_level_loop str (p # ps) i = (if str = p then i else log_level_loop str ps (Suc i))"

definition fpx_config_parse_log_level :: "byte list \<Rightarrow> nat" where
  "fpx_config_parse_log_level str = log_level_loop str fpx_log_prio 0"

section \<open>Properties of the size parser\<close>

lemma size_suffix_pos: "size_suffix c = Some s \<Longrightarrow> 0 < s"
  by (auto simp: size_suffix_def split: if_splits)

lemma le_div_mult:
  assumes "0 < (k :: int)"
  shows "v \<le> m div k \<longleftrightarrow> v * k \<le> m"
proof
  assume "v \<le> m div k"
  then have "v * k \<le> m div k * k" using assms by simp
  also have "\<dots> \<le> m" using assms div_mult_mod_eq [of m k] pos_mod_sign [of k m] by linarith
  finally show "v * k \<le> m" .
next
  assume "v * k \<le> m"
  then have "v * k div k \<le> m div k" using assms by (intro zdiv_mono1)
  then show "v \<le> m div k" using assms by simp
qed

text \<open>The digits and the factor of a size: the last character may be a unit.\<close>

definition size_parts :: "byte list \<Rightarrow> byte list \<times> int" where
  "size_parts s = (case size_suffix (last s) of Some k \<Rightarrow> (butlast s, k) | None \<Rightarrow> (s, 1))"

lemma parse_size_cstr:
  assumes "is_cstr str s"
  shows "fpx_config_parse_size str =
    Some (case size_parts s of (ds, k) \<Rightarrow>
      if s \<noteq> [] \<and> ds \<noteq> [] \<and> list_all fpx_isdigit ds \<and> dec_value 0 ds * k \<le> FPX_SSIZE_T_MAX
      then dec_value 0 ds * k else -1)"
proof (cases "s = []")
  case True
  with assms show ?thesis by (simp add: fpx_config_parse_size_def split: prod.splits)
next
  case False
  obtain r where str: "str = s @ 0 # r" using assms by (auto simp: is_cstr_append)
  obtain ds k where p: "size_parts s = (ds, k)" by fastforce
  define n where "n = length ds"
  have l: "rd str (length s - 1) = Some (last s)" using False by (simp add: str nth_append last_conv_nth)
  have k: "0 < k" using p size_suffix_pos by (auto simp: size_parts_def split: option.splits)
  have ds: "take n str = ds" "n \<le> length str" "0 < n \<longleftrightarrow> ds \<noteq> []"
    using p by (auto simp: size_parts_def n_def str butlast_conv_take split: option.splits)
  let ?ok = "ds \<noteq> [] \<and> list_all fpx_isdigit ds \<and> dec_value 0 ds \<le> FPX_SSIZE_T_MAX"
  have a: "fpx_atosz str n = Some (if ?ok then dec_value 0 ds else -1)"
    using atosz.ato_spec [OF ds(2)] ds by simp
  have nn: "0 \<le> dec_value 0 ds" if "list_all fpx_isdigit ds" using dec_value_mono [of 0 ds] that by simp
  have c: "(case size_suffix (last s) of
           Some scale \<Rightarrow> (length s - 1, FPX_SSIZE_T_MAX div scale, scale)
         | None \<Rightarrow> (length s, FPX_SSIZE_T_MAX, 1)) = (n, FPX_SSIZE_T_MAX div k, k)"
    using p by (auto simp: size_parts_def n_def split: option.splits)
  have "fpx_config_parse_size str = (let sz = (if ?ok then dec_value 0 ds else -1) in
      if sz = -1 \<or> sz > FPX_SSIZE_T_MAX div k then Some (-1) else in_type FPX_SSIZE_T_MAX (sz * k))"
    using assms False l a by (simp add: fpx_config_parse_size_def c Let_def)
  also have "\<dots> = Some (if ds \<noteq> [] \<and> list_all fpx_isdigit ds \<and> dec_value 0 ds * k \<le> FPX_SSIZE_T_MAX
      then dec_value 0 ds * k else -1)"
  proof (cases "ds \<noteq> [] \<and> list_all fpx_isdigit ds")
    case True
    then have v: "0 \<le> dec_value 0 ds" using nn by blast
    have "dec_value 0 ds \<le> dec_value 0 ds * k" using v k by (simp add: mult_le_cancel_left1)
    moreover have "dec_value 0 ds \<le> FPX_SSIZE_T_MAX div k \<longleftrightarrow> dec_value 0 ds * k \<le> FPX_SSIZE_T_MAX"
      using k by (rule le_div_mult)
    moreover have "0 \<le> dec_value 0 ds * k" using v k by simp
    ultimately show ?thesis using True v by (auto simp: Let_def in_type_def not_less)
  qed (auto simp: Let_def)
  finally show ?thesis using p False by simp
qed

text \<open>
  C28 (fpx_config_parse_size_exact). A size is a non-empty sequence of digits, optionally
  followed by K, M or G in either case; the parser returns its value times the unit when the
  product fits a signed 64-bit integer, and -1 for every other string. The multiplication
  never overflows.
\<close>

theorem fpx_config_parse_size_exact:
  assumes "is_cstr str s"
  shows "fpx_config_parse_size str =
    Some (case size_parts s of (ds, k) \<Rightarrow>
      if s \<noteq> [] \<and> ds \<noteq> [] \<and> list_all fpx_isdigit ds \<and> dec_value 0 ds * k \<le> FPX_SSIZE_T_MAX
      then dec_value 0 ds * k else -1)"
  by (rule parse_size_cstr [OF assms])

theorem fpx_config_parse_size_exact_witness:
  "fpx_config_parse_size [0x36, 0x34, 0x6B, 0] = Some 65536 \<and> fpx_config_parse_size [0x6B, 0] = Some (-1)"
  using fpx_config_parse_size_exact [of "[0x36, 0x34, 0x6B, 0]" "[0x36, 0x34, 0x6B]"]
    fpx_config_parse_size_exact [of "[0x6B, 0]" "[0x6B]"]
  by (simp add: is_cstr_def size_parts_def size_suffix_def fpx_isdigit_def FPX_SSIZE_T_MAX_def)

section \<open>Properties of the address parser\<close>

lemma scan_digits_spec:
  assumes "list_all fpx_isdigit ds" "pre = [] \<or> \<not> fpx_isdigit (last pre)"
  shows "scan_digits (pre @ ds @ r) (length pre + length ds) = Some (length pre)"
  using assms(1)
proof (induction ds arbitrary: r rule: rev_induct)
  case Nil
  show ?case
  proof (cases pre rule: rev_cases)
    case (snoc p c)
    then show ?thesis using assms(2) by (simp add: rd_def nth_append)
  qed simp
next
  case (snoc d ds)
  have "rd (pre @ (ds @ [d]) @ r) (length pre + length ds) = Some d"
    by (simp add: rd_def nth_append)
  then show ?case using snoc.IH [of "d # r"] snoc.prems by simp
qed

lemma sint_bracket: "sint (b :: byte) = 93 \<longleftrightarrow> b = 93"
proof
  assume "sint b = 93"
  then have "(word_of_int (sint b) :: byte) = word_of_int 93" by simp
  then show "b = 93" by simp
qed simp

lemma fpx_strchr_bracket:
  assumes "is_cstr str s"
  shows "fpx_strchr str 0x5D = Some (find (\<lambda>j. s ! j = 0x5D) [0..<length s])"
proof -
  have l: "length s \<le> length str" using assms by (simp add: is_cstr_def)
  have "fpx_strchr str 0x5D = Some (find (\<lambda>j. sint (str ! j) = 93) [0..<length s])"
    using assms l by (simp add: fpx_strchr_def strchr_loop_spec)
  also have "find (\<lambda>j. sint (str ! j) = 93) [0..<length s] = find (\<lambda>j. s ! j = 0x5D) [0..<length s]"
    using assms by (intro find_cong_mem) (auto simp: sint_bracket is_cstr_append nth_append)
  finally show ?thesis .
qed

lemma find_bracket_None: "0x5D \<notin> set s \<Longrightarrow> find (\<lambda>j. s ! j = (0x5D :: byte)) [0..<length s] = None"
  by (auto simp: find_None_iff in_set_conv_nth)

lemma find_append_None: "find P xs = None \<Longrightarrow> find P (xs @ ys) = find P ys"
  by (induction xs) (auto split: if_splits)

lemma find_bracket_first:
  assumes "(0x5D :: byte) \<notin> set h"
  shows "find (\<lambda>j. (h @ 0x5D # t) ! j = 0x5D) [0..<length (h @ 0x5D # t)] = Some (length h)"
proof -
  have "[0..<length (h @ 0x5D # t)] = [0..<length h] @ length h # [Suc (length h)..<length (h @ 0x5D # t)]"
    using upt_add_eq_append [of 0 "length h" "Suc (length t)"] upt_conv_Cons [of "length h" "length h + Suc (length t)"]
    by (simp del: upt_Suc)
  moreover have "find (\<lambda>j. (h @ 0x5D # t) ! j = 0x5D) [0..<length h] = None"
    using assms by (auto simp: find_None_iff nth_append in_set_conv_nth)
  ultimately show ?thesis by (simp add: find_append_None)
qed

definition port_ok :: "byte list \<Rightarrow> bool" where
  "port_ok ds \<longleftrightarrow> ds \<noteq> [] \<and> list_all fpx_isdigit ds \<and> 1 \<le> dec_value 0 ds \<and> dec_value 0 ds \<le> 65535"

lemma atoi_port:
  assumes "list_all fpx_isdigit ds" "ds \<noteq> []"
  shows "\<exists>v. fpx_atoi (ds @ r) (length ds) = Some v \<and> (1 \<le> v \<and> v \<le> 65535 \<longleftrightarrow> port_ok ds)"
  using assms atoi.ato_spec [of "length ds" "ds @ r"] by (auto simp: port_ok_def FPX_INT_T_MAX_def)

lemma is_cstr_zero: "is_cstr (s @ 0 # r) s \<longleftrightarrow> 0 \<notin> set s"
  by (auto simp: is_cstr_append)

lemma digits_no_zero: "list_all fpx_isdigit ds \<Longrightarrow> 0 \<notin> set ds \<and> 0x5D \<notin> set ds"
  by (auto simp: list_all_iff fpx_isdigit_def)

text \<open>A port after a colon: the scan stops at the colon and the address is what precedes it.\<close>

lemma parse_with_port:
  assumes "list_all fpx_isdigit ds" "ds \<noteq> []" "0 \<notin> set h" "h \<noteq> []" "\<forall>n. alloc n"
  shows "fpx_config_parse_addr_port alloc (h @ 0x3A # ds @ 0 # r) =
    (if port_ok ds then parse_addr alloc (h @ 0x3A # ds @ 0 # r) (length h) (Some ds)
     else Some (ap_invalid None))"
proof -
  let ?str = "h @ 0x3A # ds @ 0 # r"
  have c: "is_cstr ?str (h @ 0x3A # ds)"
    using is_cstr_zero [of "h @ 0x3A # ds" r] assms(3) digits_no_zero [OF assms(1)] by simp
  have len: "fpx_strlen ?str = Some (length h + 1 + length ds)" using fpx_strlen_cstr [OF c] by simp
  have k: "scan_digits ?str (length h + 1 + length ds) = Some (Suc (length h))"
    using scan_digits_spec [OF assms(1), of "h @ [0x3A]" "0 # r"] by (simp add: fpx_isdigit_def)
  have rd: "rd ?str (length h) = Some 0x3A" by (simp add: rd_def nth_append)
  have d: "drop (Suc (length h)) ?str = ds @ 0 # r" by simp
  have pl: "fpx_strlen (ds @ 0 # r) = Some (length ds)"
    using is_cstr_zero [of ds r] digits_no_zero [OF assms(1)] by (intro fpx_strlen_cstr) simp
  obtain v where v: "fpx_atoi (ds @ 0 # r) (length ds) = Some v" "1 \<le> v \<and> v \<le> 65535 \<longleftrightarrow> port_ok ds"
    using atoi_port [OF assms(1,2)] by blast
  show ?thesis using assms(2,4,5) len k rd d pl v
    by (auto simp: fpx_config_parse_addr_port_def pcopy_def)
qed

text \<open>
  C29 (fpx_config_parse_addr_port_forms). The forms of a listen address, when the pool has
  memory: a port alone stands for the any-address; \<open>host:port\<close> gives the host and the port;
  \<open>[host]:port\<close> gives the host inside the brackets as an IPv6 address; in all three a port
  outside 1 to 65535 is rejected. A host without a port is accepted too, but then the port of
  the caller is not assigned at all.
\<close>

theorem fpx_config_parse_addr_port_forms:
  assumes "list_all fpx_isdigit ds" "ds \<noteq> []" "0 \<notin> set h" "h \<noteq> []" "0x5D \<notin> set h" "\<forall>n. alloc n"
  shows "fpx_config_parse_addr_port alloc (ds @ [0]) =
      Some (if port_ok ds then \<lparr>ap_rv = FPX_ADDR_IPV4, ap_addr = Some any_addr, ap_port = Some ds\<rparr>
            else ap_invalid None) \<and>
    (hd h \<noteq> 0x5B \<longrightarrow> fpx_config_parse_addr_port alloc (h @ 0x3A # ds @ [0]) =
      Some (if port_ok ds then \<lparr>ap_rv = FPX_ADDR_IPV4, ap_addr = Some h, ap_port = Some ds\<rparr>
            else ap_invalid None)) \<and>
    fpx_config_parse_addr_port alloc (0x5B # h @ 0x5D # 0x3A # ds @ [0]) =
      Some (if port_ok ds then \<lparr>ap_rv = FPX_ADDR_IPV6, ap_addr = Some h, ap_port = Some ds\<rparr>
            else ap_invalid None) \<and>
    (hd h \<noteq> 0x5B \<and> \<not> fpx_isdigit (last h) \<and> last h \<noteq> 0x3A \<longrightarrow>
      fpx_config_parse_addr_port alloc (h @ [0]) =
      Some \<lparr>ap_rv = FPX_ADDR_IPV4, ap_addr = Some h, ap_port = None\<rparr>)"
proof (intro conjI impI)
  note nz = digits_no_zero [OF assms(1)]
  have c: "is_cstr (ds @ [0]) ds" using nz by simp
  obtain v where v: "fpx_atoi (ds @ [0]) (length ds) = Some v" "1 \<le> v \<and> v \<le> 65535 \<longleftrightarrow> port_ok ds"
    using atoi_port [OF assms(1,2)] by blast
  have "scan_digits (ds @ [0]) (length ds) = Some 0"
    using scan_digits_spec [OF assms(1), of "[]" "[0]"] by simp
  then show "fpx_config_parse_addr_port alloc (ds @ [0]) =
      Some (if port_ok ds then \<lparr>ap_rv = FPX_ADDR_IPV4, ap_addr = Some any_addr, ap_port = Some ds\<rparr>
            else ap_invalid None)"
    using assms(6) fpx_strlen_cstr [OF c] v by (auto simp: fpx_config_parse_addr_port_def pcopy_def)
next
  assume hd: "hd h \<noteq> 0x5B"
  let ?str = "h @ 0x3A # ds @ [0]"
  have c: "is_cstr ?str (h @ 0x3A # ds)"
    using is_cstr_zero [of "h @ 0x3A # ds" "[]"] assms(3) digits_no_zero [OF assms(1)] by simp
  have "fpx_strchr ?str 0x5D = Some None"
    using fpx_strchr_bracket [OF c] find_bracket_None [of "h @ 0x3A # ds"] assms(5)
      digits_no_zero [OF assms(1)] by simp
  moreover have "rd ?str 0 = Some (hd h)" using assms(4) by (cases h) simp_all
  ultimately have "parse_addr alloc ?str (length h) (Some ds) =
      Some \<lparr>ap_rv = FPX_ADDR_IPV4, ap_addr = Some h, ap_port = Some ds\<rparr>"
    using hd assms(6) by (simp add: parse_addr_def pcopy_def)
  then show "fpx_config_parse_addr_port alloc ?str =
      Some (if port_ok ds then \<lparr>ap_rv = FPX_ADDR_IPV4, ap_addr = Some h, ap_port = Some ds\<rparr>
            else ap_invalid None)"
    using parse_with_port [OF assms(1-4,6), of "[]"] by simp
next
  let ?b = "0x5B # h @ [0x5D]" and ?str = "0x5B # h @ 0x5D # 0x3A # ds @ [0]"
  have c: "is_cstr ?str (0x5B # h @ 0x5D # 0x3A # ds)"
    using is_cstr_zero [of "0x5B # h @ 0x5D # 0x3A # ds" "[]"] assms(3) digits_no_zero [OF assms(1)] by simp
  have "fpx_strchr ?str 0x5D = Some (Some (Suc (length h)))"
    using fpx_strchr_bracket [OF c] find_bracket_first [of "0x5B # h" "0x3A # ds"] assms(5) by simp
  moreover have "rd ?str (Suc (length h)) = Some 0x5D" by (simp add: rd_def nth_append)
  ultimately have "parse_addr alloc ?str (length ?b) (Some ds) =
      Some \<lparr>ap_rv = FPX_ADDR_IPV6, ap_addr = Some h, ap_port = Some ds\<rparr>"
    using assms(6) by (simp add: parse_addr_def pcopy_def)
  then show "fpx_config_parse_addr_port alloc ?str =
      Some (if port_ok ds then \<lparr>ap_rv = FPX_ADDR_IPV6, ap_addr = Some h, ap_port = Some ds\<rparr>
            else ap_invalid None)"
    using parse_with_port [OF assms(1,2) _ _ assms(6), of ?b "[]"] assms(3) by simp
next
  assume a: "hd h \<noteq> 0x5B \<and> \<not> fpx_isdigit (last h) \<and> last h \<noteq> 0x3A"
  have c: "is_cstr (h @ [0]) h" using assms(3) by simp
  have "scan_digits (h @ [0]) (length h) = Some (length h)"
    using scan_digits_spec [of "[]" h "[0]"] a by simp
  moreover have "fpx_strchr (h @ [0]) 0x5D = Some None"
    using fpx_strchr_bracket [OF c] find_bracket_None [OF assms(5)] by simp
  moreover have "rd (h @ [0]) 0 = Some (hd h)" using assms(4) by (cases h) simp_all
  moreover have "rd (h @ [0]) (length h - 1) = Some (last h)"
    using assms(4) by (simp add: rd_def nth_append last_conv_nth)
  ultimately show "fpx_config_parse_addr_port alloc (h @ [0]) =
      Some \<lparr>ap_rv = FPX_ADDR_IPV4, ap_addr = Some h, ap_port = None\<rparr>"
    using a assms(4,6) fpx_strlen_cstr [OF c]
    by (simp add: fpx_config_parse_addr_port_def parse_addr_def pcopy_def)
qed

theorem fpx_config_parse_addr_port_forms_witness:
  "fpx_config_parse_addr_port (\<lambda>_. True) (bytes ''lo:80'' @ [0]) =
     Some \<lparr>ap_rv = FPX_ADDR_IPV4, ap_addr = Some (bytes ''lo''), ap_port = Some (bytes ''80'')\<rparr> \<and>
   fpx_config_parse_addr_port (\<lambda>_. True) (bytes ''lo'' @ [0]) =
     Some \<lparr>ap_rv = FPX_ADDR_IPV4, ap_addr = Some (bytes ''lo''), ap_port = None\<rparr>"
proof -
  have s: "bytes ''lo:80'' = [0x6C, 0x6F, 0x3A, 0x38, 0x30]" "bytes ''lo'' = [0x6C, 0x6F]" "bytes ''80'' = [0x38, 0x30]"
    by (simp_all add: bytes_def of_char_def)
  have "port_ok [0x38, 0x30]" by (simp add: port_ok_def fpx_isdigit_def)
  then show ?thesis unfolding s
    using fpx_config_parse_addr_port_forms [of "[0x38, 0x30]" "[0x6C, 0x6F]" "\<lambda>_. True"]
    by (simp add: fpx_isdigit_def)
qed

section \<open>Log levels\<close>

text \<open>
  The name of each of the five levels is mapped to its
  number, and every other string to the invalid level.
\<close>

theorem fpx_config_parse_log_level_table:
  "map fpx_config_parse_log_level fpx_log_prio = [0, 1, 2, 3, 4] \<and>
   (str \<notin> set fpx_log_prio \<longrightarrow> fpx_config_parse_log_level str = FPX_LOG_INVALID_LEVEL)"
proof
  show "map fpx_config_parse_log_level fpx_log_prio = [0, 1, 2, 3, 4]" by code_simp
  have "str \<notin> set ps \<Longrightarrow> log_level_loop str ps i = FPX_LOG_INVALID_LEVEL" for ps i
    by (induction ps arbitrary: i) auto
  then show "str \<notin> set fpx_log_prio \<longrightarrow> fpx_config_parse_log_level str = FPX_LOG_INVALID_LEVEL"
    by (simp add: fpx_config_parse_log_level_def)
qed

theorem fpx_config_parse_log_level_table_witness:
  "fpx_config_parse_log_level [0x78] = FPX_LOG_INVALID_LEVEL"
proof -
  have "[0x78] \<notin> set fpx_log_prio" by code_simp
  with fpx_config_parse_log_level_table [of "[0x78]"] show ?thesis by blast
qed

section \<open>The address parser always answers\<close>

lemma parse_addr_total:
  assumes "is_cstr str s" "0 < e" "e \<le> length s" "\<forall>n. alloc n"
  shows "\<exists>r. parse_addr alloc str e port = Some r"
proof -
  have "rd str 0 = Some (s ! 0)" "rd str (e - 1) = Some (s ! (e - 1))"
    using assms(2,3) by (intro is_cstr_rd(1) [OF assms(1)]; linarith)+
  then show ?thesis
    using assms fpx_strchr_bracket [OF assms(1)] by (auto simp: parse_addr_def pcopy_def split: option.splits)
qed

lemma split_digits: "\<exists>pre ds. s = pre @ ds \<and> list_all fpx_isdigit ds \<and> (pre = [] \<or> \<not> fpx_isdigit (last pre))"
proof (induction s rule: rev_induct)
  case (snoc c s)
  then obtain pre ds where s: "s = pre @ ds" "list_all fpx_isdigit ds" "pre = [] \<or> \<not> fpx_isdigit (last pre)" by blast
  show ?case
  proof (cases "fpx_isdigit c")
    case True
    with s show ?thesis by (intro exI [of _ pre] exI [of _ "ds @ [c]"]) simp
  qed (intro exI [of _ "s @ [c]"] exI [of _ "[]"], simp)
qed simp

lemma parse_addr_port_total:
  assumes "is_cstr str s" "s \<noteq> []" "\<forall>n. alloc n"
  shows "\<exists>r. fpx_config_parse_addr_port alloc str = Some r"
proof -
  obtain r where str: "str = s @ 0 # r" "0 \<notin> set s" using assms(1) by (auto simp: is_cstr_append)
  obtain pre ds where s: "s = pre @ ds" "list_all fpx_isdigit ds" "pre = [] \<or> \<not> fpx_isdigit (last pre)"
    using split_digits by blast
  have len: "fpx_strlen str = Some (length s)" using fpx_strlen_cstr [OF assms(1)] .
  have k: "scan_digits str (length s) = Some (length pre)"
    using scan_digits_spec [OF s(2,3), of "0 # r"] str(1) s(1) by simp
  have plain: "\<exists>r. parse_addr alloc str (length s) None = Some r"
    using parse_addr_total [OF assms(1)] assms(2,3) by simp
  show ?thesis
  proof (cases "pre = []")
    case True
    then obtain v where "fpx_atoi str (length s) = Some v"
      using atoi_port [of ds "0 # r"] s str(1) assms(2) by auto
    then show ?thesis using assms(3) len k True by (simp add: fpx_config_parse_addr_port_def pcopy_def)
  next
    case False
    have rd: "rd str (length pre - 1) = Some (last pre)"
      using False str(1) s(1) by (simp add: nth_append last_conv_nth)
    show ?thesis
    proof (cases "last pre = 0x3A \<and> ds \<noteq> [] \<and> length pre \<noteq> 1")
      case True
      have d: "drop (length pre) str = ds @ 0 # r" by (simp add: str s(1))
      obtain v where v: "fpx_atoi (ds @ 0 # r) (length ds) = Some v" using atoi_port [OF s(2)] True by blast
      have l: "fpx_strlen (ds @ 0 # r) = Some (length ds)"
        using str(2) s(1) by (intro fpx_strlen_cstr) (simp add: is_cstr_zero)
      have "0 < length pre - 1" "length pre - 1 \<le> length s" using True False s(1) by (cases "length pre"; simp)+
      then obtain q where "parse_addr alloc str (length pre - 1) (Some ds) = Some q"
        using parse_addr_total [OF assms(1) _ _ assms(3)] by blast
      then show ?thesis using assms(3) len k False True rd d v l s(1)
        by (simp add: fpx_config_parse_addr_port_def pcopy_def)
    qed (use plain len k False rd s(1) in \<open>auto simp: fpx_config_parse_addr_port_def\<close>)
  qed
qed

end
