(* ===== verification/Fpx_Logger.thy ===== *)
theory Fpx_Logger
  imports Fpx_Log Fpx_Errno Fpx_Parse
begin

text \<open>
  The other half of \<open>src/core/log.c\<close>: how a message is formatted into the fixed buffers of its
  slot, of the logging thread and of \<open>fpx_log_console\<close>, how a line is written to the logs, and
  how logs are added to a logger. A message is given by the text that its format and
  arguments stand for. A buffer is the list of its bytes, uninitialised ones included.
\<close>

section \<open>Formatted output\<close>

fun digits :: "nat \<Rightarrow> byte list" where
  "digits n = (if n < 10 then [of_nat (48 + n)] else digits (n div 10) @ [of_nat (48 + n mod 10)])"

declare digits.simps [simp del]

definition fmt_i :: "int \<Rightarrow> byte list" where
  "fmt_i n = (if n < 0 then 0x2D # digits (nat (- n)) else digits (nat n))"

definition fmt_02d :: "int \<Rightarrow> byte list" where
  "fmt_02d n = (let d = fmt_i n in if length d < 2 then 0x30 # d else d)"

text \<open>
  \<open>snprintf\<close> into \<open>n\<close> bytes of a buffer from an offset on: the text is cut to \<open>n - 1\<close> bytes and
  terminated, the result is the length that the whole text would have had.
\<close>

definition snprintf_at :: "byte list \<Rightarrow> nat \<Rightarrow> nat \<Rightarrow> byte list \<Rightarrow> byte list \<times> nat" where
  "snprintf_at buf off n msg =
     (if n = 0 then buf
      else let t = take (n - 1) msg @ [0] in take off buf @ t @ drop (off + length t) buf,
      length msg)"

definition cstr :: "byte list \<Rightarrow> byte list" where
  "cstr b = takeWhile (\<lambda>c. c \<noteq> 0) b"

text \<open>The bytes that a call of \<open>write\<close> reads; reading behind the buffer is undefined.\<close>

definition buf_read :: "byte list \<Rightarrow> nat \<Rightarrow> byte list option" where
  "buf_read buf len = (if len \<le> length buf then Some (take len buf) else None)"

section \<open>Messages\<close>

definition FPX_LOG_STR_SIZE :: nat where "FPX_LOG_STR_SIZE = 1000"
definition FPX_LOG_TIMESTR_SIZE :: nat where "FPX_LOG_TIMESTR_SIZE = 24"
definition FPX_LOG_TOTAL_STR_SIZE :: nat where
  "FPX_LOG_TOTAL_STR_SIZE = FPX_LOG_STR_SIZE + FPX_LOG_TIMESTR_SIZE"

record fpx_tm =
  tm_mday :: int
  tm_mon :: int
  tm_year :: int
  tm_hour :: int
  tm_min :: int
  tm_sec :: int

record log_message =
  lm_level :: nat
  lm_time :: "byte list"
  lm_str :: "byte list"

definition tm_text :: "fpx_tm \<Rightarrow> byte list" where
  "tm_text tm = bytes ''['' @ fmt_02d (tm_mday tm) @ bytes ''.'' @ fmt_02d (tm_mon tm) @ bytes ''.'' @
     fmt_02d (tm_year tm) @ bytes ''] ['' @ fmt_02d (tm_hour tm) @ bytes '':'' @ fmt_02d (tm_min tm) @
     bytes '':'' @ fmt_02d (tm_sec tm) @ bytes '']''"

definition err_suffix :: "(fpx_err_t \<Rightarrow> byte list) \<Rightarrow> fpx_err_t \<Rightarrow> byte list \<Rightarrow> byte list option" where
  "err_suffix strerror err errstr = do {
     b \<leftarrow> fpx_strerror strerror err errstr;
     Some (bytes '' ('' @ fmt_i err @ bytes '': '' @ cstr b @ bytes '')'')
   }"

text \<open>What \<open>fpx_log_error\<close> stores in its slot between locking and unlocking.\<close>

definition log_error_fill :: "(fpx_err_t \<Rightarrow> byte list) \<Rightarrow> nat \<Rightarrow> fpx_err_t \<Rightarrow> byte list \<Rightarrow> fpx_tm \<Rightarrow>
    byte list \<Rightarrow> log_message \<Rightarrow> log_message option" where
  "log_error_fill strerror level err msg tm errstr message = do {
     let (str, len) = snprintf_at (lm_str message) 0 FPX_LOG_STR_SIZE msg;
     str \<leftarrow> (if err \<noteq> FPX_OK \<and> len < FPX_LOG_STR_SIZE then do {
                suffix \<leftarrow> err_suffix strerror err errstr;
                Some (fst (snprintf_at str len (FPX_LOG_STR_SIZE - len) suffix))
              } else Some str);
     let (time, _) = snprintf_at (lm_time message) 0 FPX_LOG_TIMESTR_SIZE (tm_text tm);
     Some \<lparr>lm_level = level, lm_time = time, lm_str = str\<rparr>
   }"

text \<open>The line that the logging thread makes of a message, with the result of \<open>snprintf\<close>.\<close>

definition worker_line :: "log_message \<Rightarrow> byte list \<Rightarrow> (byte list \<times> nat) option" where
  "worker_line message buf =
     (if lm_level message < length fpx_log_prio then
        Some (snprintf_at buf 0 FPX_LOG_TOTAL_STR_SIZE
          (cstr (lm_time message) @ bytes '' ['' @ fpx_log_prio ! lm_level message @ bytes ''] '' @
           cstr (lm_str message) @ [0xA]))
      else None)"

definition fpx_log_console :: "'os sys \<Rightarrow> fd \<Rightarrow> (fpx_err_t \<Rightarrow> byte list) \<Rightarrow> fpx_err_t \<Rightarrow> byte list \<Rightarrow>
    byte list \<Rightarrow> byte list \<Rightarrow> 'os \<Rightarrow> (int \<times> 'os) option" where
  "fpx_log_console S fd strerror err msg logstr errstr os = do {
     let (logstr, len) = snprintf_at logstr 0 FPX_LOG_STR_SIZE msg;
     (logstr, len) \<leftarrow> (if len < FPX_LOG_STR_SIZE then do {
            tail \<leftarrow> (if err \<noteq> FPX_OK then do {
                       suffix \<leftarrow> err_suffix strerror err errstr; Some (suffix @ [0xA])
                     } else Some [0xA]);
            let (logstr, n) = snprintf_at logstr len (FPX_LOG_STR_SIZE - len) tail;
            Some (logstr, len + n)
          } else Some (logstr[FPX_LOG_STR_SIZE - 1 := 0xA], len));
     data \<leftarrow> buf_read logstr len;
     Some (fpx_write_fd S fd data os)
   }"

text \<open>
  Where a log call of the server itself goes: to the global logger once it is set (\<open>Fpx_Log\<close>), before
  that to the console. Debugging messages are printed before that only by a debugging build.
\<close>

definition FPX_LOG_DEBUG :: nat where "FPX_LOG_DEBUG = 4"

datatype log_call = Queued nat fpx_err_t "byte list" | On_stdout fpx_err_t "byte list" | On_stderr fpx_err_t "byte list"

definition fpx_log_error1 :: "bool \<Rightarrow> nat \<Rightarrow> fpx_err_t \<Rightarrow> byte list \<Rightarrow> log_call" where
  "fpx_log_error1 global level err msg = (if global then Queued level err msg else On_stderr err msg)"

definition fpx_log_debug1 :: "bool \<Rightarrow> bool \<Rightarrow> fpx_err_t \<Rightarrow> byte list \<Rightarrow> log_call option" where
  "fpx_log_debug1 debug global err msg =
     (if global then Some (Queued FPX_LOG_DEBUG err msg) else if debug then Some (On_stdout err msg) else None)"

section \<open>Logs\<close>

record log =
  l_level :: nat
  l_file :: fpx_file
  l_size :: size_t

definition fpx_write_to_log :: "'os sys \<Rightarrow> (fd \<Rightarrow> 'os \<Rightarrow> 'os) \<Rightarrow> log \<Rightarrow> nat \<Rightarrow> byte list \<Rightarrow> nat \<Rightarrow> 'os \<Rightarrow>
    (log \<times> 'os) option" where
  "fpx_write_to_log S fsync log level buf len os =
     (if level > l_level log then Some (log, os)
      else do {
        let log = (if l_size log \<noteq> 0 \<and> f_offset (l_file log) + of_nat len > l_size log
                   then log\<lparr>l_file := (l_file log)\<lparr>f_offset := 0\<rparr>\<rparr> else log);
        data \<leftarrow> buf_read buf len;
        let (_, os) = fpx_write_fd S (f_fd (l_file log)) data os;
        let os = fsync (f_fd (l_file log)) os;
        Some (log, os)
      })"

fun write_to_logs :: "'os sys \<Rightarrow> (fd \<Rightarrow> 'os \<Rightarrow> 'os) \<Rightarrow> log list \<Rightarrow> nat \<Rightarrow> byte list \<Rightarrow> nat \<Rightarrow> 'os \<Rightarrow>
    (log list \<times> 'os) option" where
  "write_to_logs S fsync [] level buf len os = Some ([], os)"
| "write_to_logs S fsync (l # ls) level buf len os = do {
     (l, os) \<leftarrow> fpx_write_to_log S fsync l level buf len os;
     (ls, os) \<leftarrow> write_to_logs S fsync ls level buf len os;
     Some (l # ls, os)
   }"

text \<open>The body of the loop of the logging thread, for the message in the slot it has fetched.\<close>

definition worker_handle :: "'os sys \<Rightarrow> (fd \<Rightarrow> 'os \<Rightarrow> 'os) \<Rightarrow> log list \<Rightarrow> log_message \<Rightarrow> byte list \<Rightarrow> 'os \<Rightarrow>
    (log list \<times> byte list \<times> 'os) option" where
  "worker_handle S fsync logs message buf os = do {
     (buf, len) \<leftarrow> worker_line message buf;
     (logs, os) \<leftarrow> write_to_logs S fsync logs (lm_level message) buf len os;
     Some (logs, buf, os)
   }"

section \<open>Adding logs\<close>

record logger =
  lr_running :: bool
  lr_logs :: "log list"
  lr_pool :: penv
  lr_closes :: "fd list"

definition FPX_FILE_WRONLY :: "32 word" where "FPX_FILE_WRONLY = 1"
definition FPX_FILE_CREATE_OR_APPEND :: "32 word" where "FPX_FILE_CREATE_OR_APPEND = 0x441"
definition FPX_FILE_OWNER_ACCESS :: "32 word" where "FPX_FILE_OWNER_ACCESS = 0x180"

definition fpx_logger_add_log_fd :: "logger \<Rightarrow> nat \<Rightarrow> fd \<Rightarrow> fpx_file \<Rightarrow> fpx_err_t \<times> logger" where
  "fpx_logger_add_log_fd logger level fd file =
     (if lr_running logger then (FPX_FAILED, logger)
      else
        let (ok, pool) = palloc (lr_pool logger); logger = logger\<lparr>lr_pool := pool\<rparr> in
        if \<not> ok then (pe_errno pool, logger)
        else
          let (ok, pool) = palloc (lr_pool logger); logger = logger\<lparr>lr_pool := pool\<rparr> in
          if \<not> ok then (pe_errno pool, logger)
          else (FPX_OK, logger\<lparr>lr_logs := lr_logs logger @
                  [\<lparr>l_level = level, l_file = file\<lparr>f_fd := fd\<rparr>, l_size = 0\<rparr>]\<rparr>))"

definition open_log_file :: "'os sys \<Rightarrow> path \<Rightarrow> 'os \<Rightarrow> fpx_err_t \<times> fpx_file \<times> 'os" where
  "open_log_file S fname os =
     fpx_file_open S fname FPX_FILE_WRONLY FPX_FILE_CREATE_OR_APPEND FPX_FILE_OWNER_ACCESS os"

definition fpx_logger_add_log_file ::
  "'os sys \<Rightarrow> logger \<Rightarrow> nat \<Rightarrow> path \<Rightarrow> size_t \<Rightarrow> 'os \<Rightarrow> (fpx_err_t \<times> logger \<times> 'os) option" where
  "fpx_logger_add_log_file S logger level fname sz os =
     (if lr_running logger then Some (FPX_FAILED, logger, os)
      else
        let (ok, pool) = palloc (lr_pool logger); logger = logger\<lparr>lr_pool := pool\<rparr> in
        if \<not> ok then Some (pe_errno pool, logger, os)
        else
          let (ok, pool) = palloc (lr_pool logger); logger = logger\<lparr>lr_pool := pool\<rparr> in
          if \<not> ok then Some (pe_errno pool, logger, os)
          else
            let (err, file, os) = open_log_file S fname os in
            if err \<noteq> FPX_OK then Some (err, logger, os)
            else do {
              pool \<leftarrow> pcleanup (lr_pool logger);
              let logger = logger\<lparr>lr_pool := pool, lr_closes := f_fd file # lr_closes logger\<rparr>;
              let (file_size, os) = fpx_file_size S file os;
              if file_size = -1 then Some (s_errno S os, logger, os)
              else
                let file = (if sz \<noteq> 0 then
                       if word_of_int file_size \<ge> sz then file\<lparr>f_offset := 0\<rparr>
                       else file\<lparr>f_offset := word_of_int file_size\<rparr>
                     else file)
                in Some (FPX_OK, logger\<lparr>lr_logs := lr_logs logger @
                      [\<lparr>l_level = level, l_file = file, l_size = sz\<rparr>]\<rparr>, os)
            })"

section \<open>Facts on formatted output\<close>

lemma snprintf_at_0:
  assumes "length buf = n" "0 < n"
  shows "snprintf_at buf 0 n msg =
    (take (n - 1) msg @ 0 # drop (Suc (min (length msg) (n - 1))) buf, length msg)"
  using assms by (simp add: snprintf_at_def Let_def)

lemma snprintf_length:
  assumes "off + n \<le> length buf" "0 < n"
  shows "length (fst (snprintf_at buf off n msg)) = length buf"
  using assms by (auto simp: snprintf_at_def Let_def min_def)

lemma cstr_append [simp]: "0 \<notin> set s \<Longrightarrow> cstr (s @ r) = s @ cstr r"
  by (induction s) (auto simp: cstr_def)

lemma cstr_0 [simp]: "cstr (0 # r) = []"
  by (simp add: cstr_def)

lemma take_nz: "0 \<notin> set s \<Longrightarrow> 0 \<notin> set (take n s)"
  by (meson in_set_takeD)

text \<open>Appending a suffix behind a text that fits, in the same buffer.\<close>

lemma snprintf_twice:
  assumes "length buf = n" "length msg < n"
  shows "\<exists>r. snprintf_at (fst (snprintf_at buf 0 n msg)) (length msg) (n - length msg) sfx =
    (take (n - 1) (msg @ sfx) @ 0 # r, length sfx) \<and> length (take (n - 1) (msg @ sfx) @ 0 # r) = n"
proof -
  let ?b = "fst (snprintf_at buf 0 n msg)"
  have b: "?b = msg @ 0 # drop (Suc (length msg)) buf" using assms by (simp add: snprintf_at_0)
  have "take (n - 1) (msg @ sfx) = msg @ take (n - length msg - 1) sfx" using assms by (simp add: diff_right_commute)
  moreover have "length ?b = n" using snprintf_length [of 0 n buf msg] assms by simp
  ultimately show ?thesis using assms
    by (intro exI [of _ "drop (length msg + length (take (n - length msg - 1) sfx @ [0])) ?b"])
      (auto simp: snprintf_at_def Let_def b min_def)
qed

lemma log_str_fill:
  assumes "length buf = 1000" "0 \<notin> set msg"
    and "err \<noteq> FPX_OK \<Longrightarrow> err_suffix strerror err errstr = Some sfx" "err = FPX_OK \<Longrightarrow> sfx = []" "0 \<notin> set sfx"
  shows "\<exists>str. (let (str, len) = snprintf_at buf 0 FPX_LOG_STR_SIZE msg in
      if err \<noteq> FPX_OK \<and> len < FPX_LOG_STR_SIZE then do {
        suffix \<leftarrow> err_suffix strerror err errstr;
        Some (fst (snprintf_at str len (FPX_LOG_STR_SIZE - len) suffix))
      } else Some str) = Some str \<and> cstr str = take 999 (msg @ sfx)"
proof (cases "err \<noteq> FPX_OK \<and> length msg < 1000")
  case True
  obtain r where "fst (snprintf_at (fst (snprintf_at buf 0 1000 msg)) (length msg) (1000 - length msg) sfx) =
      take 999 (msg @ sfx) @ 0 # r"
    using snprintf_twice [of buf 1000 msg sfx] True assms(1) by auto
  moreover have "0 \<notin> set (take 999 (msg @ sfx))" by (rule take_nz) (simp add: assms)
  moreover have "snd (snprintf_at buf 0 1000 msg) = length msg" by (simp add: snprintf_at_def)
  ultimately show ?thesis using True assms(3) by (auto simp: FPX_LOG_STR_SIZE_def split: prod.splits)
next
  case False
  have "0 \<notin> set (take 999 msg)" by (rule take_nz) (simp add: assms)
  moreover have "take 999 (msg @ sfx) = take 999 msg" using False assms(4) by auto
  ultimately show ?thesis using False assms(1) snprintf_at_0 [of buf 1000 msg]
    by (auto simp: FPX_LOG_STR_SIZE_def)
qed

text \<open>No formatted number contains a terminator.\<close>

lemma digit_nz:
  assumes "k < 10"
  shows "(of_nat (48 + k) :: byte) \<noteq> 0"
proof
  assume "(of_nat (48 + k) :: byte) = 0"
  moreover have "unat (of_nat (48 + k) :: byte) = 48 + k" using assms
    by (simp only: unsigned_of_nat) (simp add: take_bit_nat_eq_self)
  ultimately show False by simp
qed

lemma digits_nz: "0 \<notin> set (digits n)"
proof (induction n rule: digits.induct)
  case (1 n)
  then show ?case using digit_nz [of n] digit_nz [of "n mod 10"]
    by (subst digits.simps) auto
qed

lemma fmt_i_nz: "0 \<notin> set (fmt_i n)"
  by (simp add: fmt_i_def digits_nz)

lemma fmt_02d_nz: "0 \<notin> set (fmt_02d n)"
  by (simp add: fmt_02d_def Let_def fmt_i_nz)

lemma tm_text_nz: "0 \<notin> set (tm_text tm)"
  by (simp add: tm_text_def fmt_02d_nz bytes_def)

section \<open>Properties of the lines\<close>

definition err_desc :: "(fpx_err_t \<Rightarrow> byte list) \<Rightarrow> fpx_err_t \<Rightarrow> byte list" where
  "err_desc strerror err = (if err = FPX_OK then []
     else bytes '' ('' @ fmt_i err @ bytes '': '' @ take 1023 (error_text strerror err) @ bytes '')'')"

definition log_line :: "(fpx_err_t \<Rightarrow> byte list) \<Rightarrow> nat \<Rightarrow> fpx_err_t \<Rightarrow> byte list \<Rightarrow> fpx_tm \<Rightarrow> byte list" where
  "log_line strerror level err msg tm = take 23 (tm_text tm) @ bytes '' ['' @ fpx_log_prio ! level @ bytes ''] '' @
     take 999 (msg @ err_desc strerror err) @ [0xA]"

text \<open>What \<open>write\<close> is given for a text put with \<open>snprintf\<close> into a buffer of \<open>n\<close> bytes and its length.\<close>

definition sent :: "nat \<Rightarrow> byte list \<Rightarrow> byte list option" where
  "sent n msg = (if length msg < n then Some msg else if length msg = n then Some (take (n - 1) msg @ [0]) else None)"

lemma err_suffix_desc:
  assumes "\<forall>e. 0 \<notin> set (strerror e)" "length errstr = 1024" "err \<noteq> FPX_OK"
  shows "err_suffix strerror err errstr = Some (err_desc strerror err)"
proof -
  have "fpx_strerror strerror err errstr = copy_text (error_text strerror err) errstr"
    by (simp add: fpx_strerror_def fpx_os_strerror_def error_text_def error_loop_table)
  moreover have "0 \<notin> set (error_text strerror err)" using assms error_text_nz by simp
  then obtain b where "copy_text (error_text strerror err) errstr = Some b"
    "is_cstr b (take 1023 (error_text strerror err))"
    using copy_text_cstr [of "error_text strerror err" errstr] assms(2) by fastforce
  moreover have "cstr b = take 1023 (error_text strerror err)" using calculation(3)
    by (auto simp: is_cstr_append)
  ultimately show ?thesis using assms(3) by (simp add: err_suffix_def err_desc_def)
qed

lemma err_desc_nz:
  assumes "\<forall>e. 0 \<notin> set (strerror e)"
  shows "0 \<notin> set (err_desc strerror err)"
  using take_nz [OF error_text_nz [of strerror err, OF assms [rule_format]], of 1023] fmt_i_nz [of err]
  by (simp add: err_desc_def bytes_def)

lemma log_error_fill_ok:
  assumes "length (lm_str m0) = 1000" "length (lm_time m0) = 24" "length errstr = 1024"
    and "0 \<notin> set msg" "\<forall>e. 0 \<notin> set (strerror e)"
  shows "\<exists>m. log_error_fill strerror level err msg tm errstr m0 = Some m \<and> lm_level m = level \<and>
    cstr (lm_time m) = take 23 (tm_text tm) \<and> cstr (lm_str m) = take 999 (msg @ err_desc strerror err)"
proof -
  obtain str where str: "(let (str, len) = snprintf_at (lm_str m0) 0 FPX_LOG_STR_SIZE msg in
      if err \<noteq> FPX_OK \<and> len < FPX_LOG_STR_SIZE then do {
        suffix \<leftarrow> err_suffix strerror err errstr;
        Some (fst (snprintf_at str len (FPX_LOG_STR_SIZE - len) suffix))
      } else Some str) = Some str" "cstr str = take 999 (msg @ err_desc strerror err)"
    using log_str_fill [OF assms(1,4), of err strerror errstr "err_desc strerror err"]
      err_suffix_desc [OF assms(5,3), of err] err_desc_nz [OF assms(5), of err]
    by (auto simp: err_desc_def)
  have "cstr (fst (snprintf_at (lm_time m0) 0 24 (tm_text tm))) = take 23 (tm_text tm)"
    using snprintf_at_0 [of "lm_time m0" 24 "tm_text tm"] assms(2) take_nz [OF tm_text_nz] by simp
  then show ?thesis using str
    by (auto simp: log_error_fill_def FPX_LOG_TIMESTR_SIZE_def Let_def split: prod.splits Option.bind_splits)
qed

lemma snprintf_sent:
  assumes "length buf = n" "0 < n"
  shows "(case snprintf_at buf 0 n msg of (b, len) \<Rightarrow> buf_read b len) = sent n msg"
  using assms snprintf_at_0 [of buf n msg] by (auto simp: buf_read_def sent_def)

lemma length_log_prio: "length fpx_log_prio = 5"
  by (simp add: fpx_log_prio_def)

lemma worker_line_sent:
  assumes "length buf = 1024" "lm_level m < 5"
  shows "(do { (b, len) \<leftarrow> worker_line m buf; buf_read b len }) =
    sent 1024 (cstr (lm_time m) @ bytes '' ['' @ fpx_log_prio ! lm_level m @ bytes ''] '' @ cstr (lm_str m) @ [0xA])"
  using assms snprintf_sent [of buf 1024]
  by (simp add: worker_line_def FPX_LOG_TOTAL_STR_SIZE_def FPX_LOG_STR_SIZE_def FPX_LOG_TIMESTR_SIZE_def
      length_log_prio del: append.simps)

lemma write_to_log_cases:
  "fpx_write_to_log S fsync l level buf len os =
     (if level > l_level l then Some (l, os)
      else map_option (\<lambda>d. (if l_size l \<noteq> 0 \<and> f_offset (l_file l) + of_nat len > l_size l
             then l\<lparr>l_file := (l_file l)\<lparr>f_offset := 0\<rparr>\<rparr> else l,
             fsync (f_fd (l_file l)) (snd (s_write S (f_fd (l_file l)) d os)))) (buf_read buf len))"
  by (cases "buf_read buf len") (auto simp: fpx_write_to_log_def Let_def fpx_write_fd_def split: prod.splits)

lemma worker_handle_one:
  assumes "lm_level m \<le> l_level l"
  shows "map_option (\<lambda>(ls, b, os). os) (worker_handle S fsync [l] m buf os) =
    map_option (\<lambda>d. fsync (f_fd (l_file l)) (snd (s_write S (f_fd (l_file l)) d os)))
      (do { (b, len) \<leftarrow> worker_line m buf; buf_read b len })"
  using assms
  by (cases "worker_line m buf")
    (auto simp: worker_handle_def write_to_log_cases option.map_comp comp_def split: prod.splits Option.bind_splits)

text \<open>
  C32 (fpx_log_line_written). What a log receives for a message, from \<open>fpx_log_error\<close> through its
  slot to the handler: the time, the level, and the text with the error description cut to 999
  bytes, on one line. The whole line is written when it is shorter than the 1024 bytes of the
  thread's buffer; at exactly 1024 bytes the line end is replaced by a zero byte; and beyond
  that, which a text of 992 bytes at level debug already reaches, \<open>write\<close> is told to read
  behind the buffer, since \<open>snprintf\<close> reports the length of the uncut line.
\<close>

theorem fpx_log_line_written:
  assumes "length (lm_str m0) = 1000" "length (lm_time m0) = 24" "length buf = 1024" "length errstr = 1024"
    and "0 \<notin> set msg" "\<forall>e. 0 \<notin> set (strerror e)" "level < 5" "level \<le> l_level l"
  shows "\<exists>m. log_error_fill strerror level err msg tm errstr m0 = Some m \<and>
    map_option (\<lambda>(ls, b, os). os) (worker_handle S fsync [l] m buf os) =
    map_option (\<lambda>d. fsync (f_fd (l_file l)) (snd (s_write S (f_fd (l_file l)) d os)))
      (sent 1024 (log_line strerror level err msg tm))"
proof -
  obtain m where m: "log_error_fill strerror level err msg tm errstr m0 = Some m" "lm_level m = level"
    "cstr (lm_time m) = take 23 (tm_text tm)" "cstr (lm_str m) = take 999 (msg @ err_desc strerror err)"
    using log_error_fill_ok [OF assms(1,2,4,5,6), of level err tm] by blast
  show ?thesis
    using m worker_handle_one [of m l S fsync buf os] worker_line_sent [OF assms(3), of m] assms(7,8)
    by (intro exI [of _ m] conjI) (simp_all only: log_line_def)
qed

definition demo_tm :: fpx_tm where
  "demo_tm = \<lparr>tm_mday = 3, tm_mon = 12, tm_year = 2021, tm_hour = 9, tm_min = 5, tm_sec = 59\<rparr>"

lemma length_demo_tm: "length (tm_text demo_tm) = 23"
  by code_simp

theorem fpx_log_line_written_witness:
  "\<exists>m. log_error_fill (\<lambda>_. [0x45]) 4 0 (replicate 992 0x78) demo_tm (replicate 1024 0)
      \<lparr>lm_level = 0, lm_time = replicate 24 0, lm_str = replicate 1000 0\<rparr> = Some m \<and>
    worker_handle mem_sys (\<lambda>_ os. os) [\<lparr>l_level = 4, l_file = zero_file, l_size = 0\<rparr>] m (replicate 1024 0) ([], 0) = None"
proof -
  have "length (log_line (\<lambda>_. [0x45]) 4 0 (replicate 992 0x78) demo_tm) = 1025"
    by (simp add: log_line_def length_demo_tm fpx_log_prio_def bytes_def err_desc_def FPX_OK_def)
  then have "sent 1024 (log_line (\<lambda>_. [0x45]) 4 0 (replicate 992 0x78) demo_tm) = None"
    by (simp add: sent_def)
  then show ?thesis
    using fpx_log_line_written [of "\<lparr>lm_level = 0, lm_time = replicate 24 0, lm_str = replicate 1000 0\<rparr>"
        "replicate 1024 0" "replicate 1024 0" "replicate 992 0x78" "\<lambda>_. [0x45]" 4
        "\<lparr>l_level = 4, l_file = zero_file, l_size = 0\<rparr>" 0 demo_tm mem_sys "\<lambda>_ os. os" "([], 0)"]
    by simp
qed

lemma buf_read_sent:
  "length (take 999 t @ 0 # r) = 1000 \<Longrightarrow> buf_read (take 999 t @ 0 # r) (length t) = sent 1000 t"
  by (auto simp: buf_read_def sent_def)

lemma console_tail:
  assumes "length logstr = 1000" "length msg < 1000"
  shows "(case snprintf_at logstr 0 1000 msg of (b, len) \<Rightarrow>
      case snprintf_at b len (1000 - len) sfx of (b, n) \<Rightarrow> buf_read b (len + n)) = sent 1000 (msg @ sfx)"
proof -
  obtain r where r: "snprintf_at (fst (snprintf_at logstr 0 1000 msg)) (length msg) (1000 - length msg) sfx =
      (take 999 (msg @ sfx) @ 0 # r, length sfx)" "length (take 999 (msg @ sfx) @ 0 # r) = 1000"
    using snprintf_twice [OF assms, of sfx] by auto
  have "snprintf_at logstr 0 1000 msg = (fst (snprintf_at logstr 0 1000 msg), length msg)"
    by (simp add: snprintf_at_def)
  moreover have "buf_read (take 999 (msg @ sfx) @ 0 # r) (length (msg @ sfx)) = sent 1000 (msg @ sfx)"
    by (rule buf_read_sent [OF r(2)])
  ultimately show ?thesis using r(1) by (metis (no_types, lifting) case_prod_conv length_append)
qed

text \<open>
  A console message is written with its error description and a
  line end when all of it is shorter than the 1000 bytes of the buffer. At exactly 1000 bytes a
  zero byte takes the place of the line end, or the line end the place of the last byte of the
  text; beyond that the call reads behind the buffer.
\<close>

theorem fpx_log_console_output:
  assumes "length logstr = 1000" "length errstr = 1024" "\<forall>e. 0 \<notin> set (strerror e)"
  shows "fpx_log_console S fd strerror err msg logstr errstr os =
    map_option (\<lambda>d. fpx_write_fd S fd d os)
      (if length msg < 1000 then sent 1000 (msg @ err_desc strerror err @ [0xA])
       else if length msg = 1000 then Some (take 999 msg @ [0xA]) else None)"
proof (cases "length msg < 1000")
  case True
  have "(if err \<noteq> FPX_OK then do { suffix \<leftarrow> err_suffix strerror err errstr; Some (suffix @ [0xA]) } else Some [0xA]) =
      Some (err_desc strerror err @ [0xA])"
    using err_suffix_desc [OF assms(3,2), of err] by (auto simp: err_desc_def)
  then show ?thesis
    using True console_tail [OF assms(1) True, of "err_desc strerror err @ [0xA]"]
    by (cases "sent 1000 (msg @ err_desc strerror err @ [0xA])")
      (auto simp: fpx_log_console_def FPX_LOG_STR_SIZE_def snprintf_at_def [of logstr 0 1000] split: prod.splits)
next
  case False
  have "snprintf_at logstr 0 1000 msg = (take 999 msg @ [0], length msg)"
    using snprintf_at_0 [of logstr 1000 msg] False assms(1) by simp
  then show ?thesis using False
    by (auto simp: fpx_log_console_def FPX_LOG_STR_SIZE_def buf_read_def list_update_append)
qed

theorem fpx_log_console_output_witness:
  "fpx_log_console mem_sys 2 (\<lambda>_. [0x45]) 0 (bytes ''hello'') (replicate 1000 0) (replicate 1024 0) ([], 0) =
     Some (fpx_write_fd mem_sys 2 (bytes ''hello'' @ [0xA]) ([], 0))"
  using fpx_log_console_output [of "replicate 1000 0" "replicate 1024 0" "\<lambda>_. [0x45]" mem_sys 2 0 "bytes ''hello''" "([], 0)"]
  by (simp add: sent_def err_desc_def FPX_OK_def bytes_def)

section \<open>Properties of the logs\<close>

text \<open>A sequence of lines for one log.\<close>

fun log_lines :: "'os sys \<Rightarrow> (fd \<Rightarrow> 'os \<Rightarrow> 'os) \<Rightarrow> log \<Rightarrow> (nat \<times> byte list) list \<Rightarrow> 'os \<Rightarrow> (log \<times> 'os) option" where
  "log_lines S fsync l [] os = Some (l, os)"
| "log_lines S fsync l ((level, line) # ls) os = do {
     (l, os) \<leftarrow> fpx_write_to_log S fsync l level line (length line) os;
     log_lines S fsync l ls os
   }"

definition same_log :: "log \<Rightarrow> log \<Rightarrow> bool" where
  "same_log l l' \<longleftrightarrow> l_level l' = l_level l \<and> f_fd (l_file l') = f_fd (l_file l)"

lemma same_log_write:
  assumes "same_log l l'"
  shows "\<exists>l1 l1' os1. fpx_write_to_log S fsync l level line (length line) os = Some (l1, os1) \<and>
    fpx_write_to_log S fsync l' level line (length line) os = Some (l1', os1) \<and> same_log l1 l1' \<and>
    f_offset (l_file l1) \<in> {0, f_offset (l_file l)} \<and> l_size l1 = l_size l"
  using assms by (auto simp: write_to_log_cases buf_read_def same_log_def)

lemma same_log_lines:
  "same_log l l' \<Longrightarrow> \<exists>l1 l1' os1. log_lines S fsync l ls os = Some (l1, os1) \<and>
    log_lines S fsync l' ls os = Some (l1', os1) \<and> f_offset (l_file l1) \<in> {0, f_offset (l_file l)}"
proof (induction ls arbitrary: l l' os)
  case (Cons a ls)
  obtain level line where a: "a = (level, line)" by (cases a)
  obtain l1 l1' os1 where w: "fpx_write_to_log S fsync l level line (length line) os = Some (l1, os1)"
    "fpx_write_to_log S fsync l' level line (length line) os = Some (l1', os1)" "same_log l1 l1'"
    "f_offset (l_file l1) \<in> {0, f_offset (l_file l)}"
    using same_log_write [OF Cons.prems, of S fsync level line os] by blast
  from Cons.IH [OF w(3), of os1] w show ?case by (auto simp: a)
qed simp

text \<open>
  The size limit of a log has no effect: after any sequence of
  lines, every call has returned and the operating system has seen exactly what it would have
  seen without a limit. The offset that the limit is compared with is never advanced by a
  write, so that it stays what it was or is reset to zero.
\<close>

theorem fpx_write_to_log_unbounded:
  "\<exists>l1 l1' os1. log_lines S fsync l ls os = Some (l1, os1) \<and>
     log_lines S fsync (l\<lparr>l_size := 0\<rparr>) ls os = Some (l1', os1) \<and>
     f_offset (l_file l1) \<in> {0, f_offset (l_file l)}"
  by (rule same_log_lines) (simp add: same_log_def)

lemma open_log_file_eq:
  "s_open S fname 0x441 0x180 os = (fd, os1) \<Longrightarrow> open_log_file S fname os =
     (if fd = -1 then (s_errno S os1, zero_file, os1)
      else (FPX_OK, \<lparr>f_fd = fd, f_name = Some fname, f_offset = 0\<rparr>, os1))"
  by (simp add: open_log_file_def fpx_file_open_def FPX_INVALID_FILE_def FPX_FILE_WRONLY_def
      FPX_FILE_CREATE_OR_APPEND_def FPX_FILE_OWNER_ACCESS_def Let_def)

text \<open>
  Adding a log file, when the pool can register the file for
  closing and a failed \<open>open\<close> sets \<open>errno\<close>: on success exactly one log is appended, with the descriptor that was opened in
  append mode, and its offset is the size of the file when that is below the limit; a
  running logger, a failed allocation, a file that cannot be opened or measured change
  nothing in the list of logs; and every descriptor that was opened is registered to be
  closed.
\<close>

theorem fpx_logger_add_log_file_effect:
  assumes "pe_ok (lr_pool lg) (pe_next (lr_pool lg) + 2)"
    and "fst (s_open S fname 0x441 0x180 os) = -1 \<longrightarrow> s_errno S (snd (s_open S fname 0x441 0x180 os)) \<noteq> FPX_OK"
  shows "\<exists>err lg' os'. fpx_logger_add_log_file S lg level fname sz os = Some (err, lg', os') \<and>
    (lr_running lg \<longrightarrow> err = FPX_FAILED \<and> lg' = lg \<and> os' = os) \<and>
    (lr_logs lg' = lr_logs lg \<or>
      (\<exists>file. err = FPX_OK \<and> lr_logs lg' = lr_logs lg @ [\<lparr>l_level = level, l_file = file, l_size = sz\<rparr>] \<and>
         f_fd file = fst (s_open S fname 0x441 0x180 os) \<and> f_fd file \<noteq> -1 \<and> lr_closes lg' = f_fd file # lr_closes lg \<and>
         (sz \<noteq> 0 \<longrightarrow> f_offset file = 0 \<or> f_offset file < sz))) \<and>
    (lr_closes lg' = lr_closes lg \<or> lr_closes lg' = fst (s_open S fname 0x441 0x180 os) # lr_closes lg)"
proof (cases "lr_running lg \<or> \<not> pe_ok (lr_pool lg) (pe_next (lr_pool lg)) \<or> \<not> pe_ok (lr_pool lg) (Suc (pe_next (lr_pool lg)))")
  case True
  then show ?thesis by (auto simp: fpx_logger_add_log_file_def palloc_def Let_def)
next
  case False
  obtain fd os1 where o: "s_open S fname 0x441 0x180 os = (fd, os1)" by fastforce
  let ?file = "\<lparr>f_fd = fd, f_name = Some fname, f_offset = 0\<rparr>"
  obtain n os2 where n: "fpx_file_size S ?file os1 = (n, os2)" by fastforce
  show ?thesis
  proof (cases "fd = -1")
    case True
    then show ?thesis using False assms o
      by (auto simp: fpx_logger_add_log_file_def palloc_def Let_def open_log_file_eq)
  next
    case fd: False
    then show ?thesis using False assms o n
      by (auto simp: fpx_logger_add_log_file_def palloc_def pcleanup_def Let_def open_log_file_eq)
  qed
qed

theorem fpx_logger_add_log_file_effect_witness:
  "\<exists>err lg' os'. fpx_logger_add_log_file mem_sys \<lparr>lr_running = True, lr_logs = [], lr_pool = ok_pool, lr_closes = []\<rparr>
     4 [0x2F, 0x61] 0 ([], 0) = Some (err, lg', os') \<and> err = FPX_FAILED \<and> lr_logs lg' = []"
  using fpx_logger_add_log_file_effect [of "\<lparr>lr_running = True, lr_logs = [], lr_pool = ok_pool, lr_closes = []\<rparr>"
      mem_sys "[0x2F, 0x61]" "([], 0)" 4 0]
  by (auto simp: ok_pool_def mem_sys_def)

end
