(* ===== verification/Fpx_Sync.thy ===== *)
theory Fpx_Sync
  imports Fpx_Logger
begin

unbundle bit_operations_syntax

text \<open>
  Mutexes, semaphores and threads (the POSIX parts of \<open>src/system/sync/mutex.c\<close>,
  \<open>src/system/sync/semaphore.c\<close> and \<open>src/system/thread.c\<close>), and the creation and the end of a logger
  (\<open>src/core/log.c\<close>), which is their main client. The library calls are values of a type, so that
  what is assumed of all of them can be said at once; a trace records which attribute
  objects, mutexes, semaphores and threads come into being and go.
\<close>

section \<open>Library calls\<close>

datatype pcall =
  Mutexattr_init | Mutexattr_setpshared bool | Mutexattr_settype_recursive | Mutexattr_destroy
| Mutex_init addr | Mutex_lock addr | Mutex_trylock addr | Mutex_unlock addr | Mutex_destroy addr
| Sem_init addr bool "32 word" | Sem_wait addr | Sem_trywait addr | Sem_post addr | Sem_destroy addr
| Attr_init | Attr_setscope bool | Attr_setdetachstate bool | Attr_setstacksize size_t | Attr_destroy
| Thread_create addr | Thread_join addr | Thread_cancel addr

fun is_sem :: "pcall \<Rightarrow> bool" where
  "is_sem (Sem_init _ _ _) = True" | "is_sem (Sem_wait _) = True" | "is_sem (Sem_trywait _) = True"
| "is_sem (Sem_post _) = True" | "is_sem (Sem_destroy _) = True" | "is_sem _ = False"

record 'os pth =
  t_errno :: "'os \<Rightarrow> fpx_err_t"
  t_call :: "pcall \<Rightarrow> 'os \<Rightarrow> int \<times> 'os"

datatype tevent = AttrNew | AttrGone | New addr | Gone addr | Started addr

record 'os tst =
  ts_os :: 'os
  ts_trace :: "tevent list"

definition ev :: "tevent \<Rightarrow> 'os tst \<Rightarrow> 'os tst" where
  "ev e st = st\<lparr>ts_trace := ts_trace st @ [e]\<rparr>"

text \<open>A call, and the value of \<open>errno\<close> that is read when its result is not zero.\<close>

definition call :: "'os pth \<Rightarrow> pcall \<Rightarrow> 'os tst \<Rightarrow> fpx_err_t option \<times> 'os tst" where
  "call P c st =
     (case t_call P c (ts_os st) of (r, os) \<Rightarrow>
        (if r \<noteq> 0 then Some (t_errno P os) else None, st\<lparr>ts_os := os\<rparr>))"

definition result :: "fpx_err_t option \<times> 'os tst \<Rightarrow> fpx_err_t \<times> 'os tst" where
  "result x = (case x of (None, st) \<Rightarrow> (FPX_OK, st) | (Some err, st) \<Rightarrow> (err, st))"

section \<open>Mutexes\<close>

definition FPX_MUTEX_SHARED :: "32 word" where "FPX_MUTEX_SHARED = 1"
definition FPX_MUTEX_PRIVATE :: "32 word" where "FPX_MUTEX_PRIVATE = 2"
definition FPX_MUTEX_RECURSIVE :: "32 word" where "FPX_MUTEX_RECURSIVE = 4"

definition mutexattr_destroy :: "'os pth \<Rightarrow> 'os tst \<Rightarrow> 'os tst" where
  "mutexattr_destroy P st = ev AttrGone (snd (call P Mutexattr_destroy st))"

definition fpx_mutex_init :: "'os pth \<Rightarrow> addr \<Rightarrow> 32 word \<Rightarrow> 'os tst \<Rightarrow> fpx_err_t \<times> 'os tst" where
  "fpx_mutex_init P mutex params st =
     (case call P Mutexattr_init st of
        (Some err, st) \<Rightarrow> (err, st)
      | (None, st) \<Rightarrow>
          (case (if params AND FPX_MUTEX_SHARED \<noteq> 0 then call P (Mutexattr_setpshared True) (ev AttrNew st)
                 else if params AND FPX_MUTEX_PRIVATE \<noteq> 0 then call P (Mutexattr_setpshared False) (ev AttrNew st)
                 else (None, ev AttrNew st)) of
             (Some err, st) \<Rightarrow> (err, mutexattr_destroy P st)
           | (None, st) \<Rightarrow>
               (case (if params AND FPX_MUTEX_RECURSIVE \<noteq> 0 then call P Mutexattr_settype_recursive st
                      else (None, st)) of
                  (Some err, st) \<Rightarrow> (err, mutexattr_destroy P st)
                | (None, st) \<Rightarrow>
                    (case call P (Mutex_init mutex) st of
                       (Some err, st) \<Rightarrow> (err, mutexattr_destroy P st)
                     | (None, st) \<Rightarrow> (FPX_OK, mutexattr_destroy P (ev (New mutex) st))))))"

definition fpx_mutex_lock :: "'os pth \<Rightarrow> addr \<Rightarrow> 'os tst \<Rightarrow> fpx_err_t \<times> 'os tst" where
  "fpx_mutex_lock P mutex st = result (call P (Mutex_lock mutex) st)"

definition fpx_mutex_trylock :: "'os pth \<Rightarrow> addr \<Rightarrow> 'os tst \<Rightarrow> fpx_err_t \<times> 'os tst" where
  "fpx_mutex_trylock P mutex st =
     (case call P (Mutex_trylock mutex) st of (None, st) \<Rightarrow> (FPX_OK, st) | (Some _, st) \<Rightarrow> (FPX_BUSY, st))"

definition fpx_mutex_unlock :: "'os pth \<Rightarrow> addr \<Rightarrow> 'os tst \<Rightarrow> fpx_err_t \<times> 'os tst" where
  "fpx_mutex_unlock P mutex st = result (call P (Mutex_unlock mutex) st)"

definition fpx_mutex_fini :: "'os pth \<Rightarrow> addr \<Rightarrow> 'os tst \<Rightarrow> 'os tst" where
  "fpx_mutex_fini P mutex st = ev (Gone mutex) (snd (call P (Mutex_destroy mutex) st))"

section \<open>Semaphores\<close>

definition FPX_SEMAPHORE_PRIVATE :: "32 word" where "FPX_SEMAPHORE_PRIVATE = 1"
definition FPX_SEMAPHORE_SHARED :: "32 word" where "FPX_SEMAPHORE_SHARED = 2"

definition fpx_semaphore_init :: "'os pth \<Rightarrow> addr \<Rightarrow> 32 word \<Rightarrow> 32 word \<Rightarrow> 32 word \<Rightarrow> 'os tst \<Rightarrow> fpx_err_t \<times> 'os tst" where
  "fpx_semaphore_init P sem val maxval params st =
     (if params AND FPX_SEMAPHORE_SHARED \<noteq> 0 \<and> params AND FPX_SEMAPHORE_PRIVATE \<noteq> 0 then (FPX_FAILED, st)
      else
        case call P (Sem_init sem (params AND FPX_SEMAPHORE_SHARED \<noteq> 0) val) st of
          (Some err, st) \<Rightarrow> (err, st)
        | (None, st) \<Rightarrow> (FPX_OK, ev (New sem) st))"

definition fpx_semaphore_wait :: "'os pth \<Rightarrow> addr \<Rightarrow> 'os tst \<Rightarrow> fpx_err_t \<times> 'os tst" where
  "fpx_semaphore_wait P sem st = result (call P (Sem_wait sem) st)"

definition fpx_semaphore_trywait :: "'os pth \<Rightarrow> addr \<Rightarrow> 'os tst \<Rightarrow> fpx_err_t \<times> 'os tst" where
  "fpx_semaphore_trywait P sem st =
     (case call P (Sem_trywait sem) st of (None, st) \<Rightarrow> (FPX_OK, st) | (Some _, st) \<Rightarrow> (FPX_BUSY, st))"

definition fpx_semaphore_post :: "'os pth \<Rightarrow> addr \<Rightarrow> 'os tst \<Rightarrow> fpx_err_t \<times> 'os tst" where
  "fpx_semaphore_post P sem st = result (call P (Sem_post sem) st)"

definition fpx_semaphore_fini :: "'os pth \<Rightarrow> addr \<Rightarrow> 'os tst \<Rightarrow> 'os tst" where
  "fpx_semaphore_fini P sem st = ev (Gone sem) (snd (call P (Sem_destroy sem) st))"

section \<open>Threads\<close>

definition FPX_THREAD_SCOPE_SYSTEM :: "32 word" where "FPX_THREAD_SCOPE_SYSTEM = 1"
definition FPX_THREAD_SCOPE_PROCESS :: "32 word" where "FPX_THREAD_SCOPE_PROCESS = 2"
definition FPX_THREAD_CREATE_DETACHED :: "32 word" where "FPX_THREAD_CREATE_DETACHED = 4"
definition FPX_THREAD_CREATE_JOINABLE :: "32 word" where "FPX_THREAD_CREATE_JOINABLE = 8"

definition thread_attributes :: "'os pth \<Rightarrow> 32 word \<Rightarrow> size_t \<Rightarrow> 'os tst \<Rightarrow> fpx_err_t option \<times> 'os tst" where
  "thread_attributes P params stack_size st =
     (case (if params AND FPX_THREAD_SCOPE_SYSTEM \<noteq> 0 then call P (Attr_setscope True) st
            else if params AND FPX_THREAD_SCOPE_PROCESS \<noteq> 0 then call P (Attr_setscope False) st
            else (None, st)) of
        (Some err, st) \<Rightarrow> (Some err, st)
      | (None, st) \<Rightarrow>
          (case (if params AND FPX_THREAD_CREATE_DETACHED \<noteq> 0 then call P (Attr_setdetachstate True) st
                 else if params AND FPX_THREAD_CREATE_JOINABLE \<noteq> 0 then call P (Attr_setdetachstate False) st
                 else (None, st)) of
             (Some err, st) \<Rightarrow> (Some err, st)
           | (None, st) \<Rightarrow> if stack_size \<noteq> 0 then call P (Attr_setstacksize stack_size) st else (None, st)))"

definition fpx_thread_init :: "'os pth \<Rightarrow> addr \<Rightarrow> 32 word \<Rightarrow> size_t \<Rightarrow> 'os tst \<Rightarrow> fpx_err_t \<times> 'os tst" where
  "fpx_thread_init P thread params stack_size st =
     (case call P Attr_init st of
        (Some err, st) \<Rightarrow> (err, st)
      | (None, st) \<Rightarrow>
          (case thread_attributes P params stack_size (ev AttrNew st) of
             (Some err, st) \<Rightarrow> (err, st)
           | (None, st) \<Rightarrow>
               (case call P (Thread_create thread) st of
                  (Some err, st) \<Rightarrow> (err, st)
                | (None, st) \<Rightarrow> (FPX_OK, ev AttrGone (snd (call P Attr_destroy (ev (Started thread) st)))))))"

definition fpx_thread_join :: "'os pth \<Rightarrow> addr \<Rightarrow> 'os tst \<Rightarrow> fpx_err_t \<times> 'os tst" where
  "fpx_thread_join P thread st = result (call P (Thread_join thread) st)"

definition fpx_thread_cancel :: "'os pth \<Rightarrow> addr \<Rightarrow> 'os tst \<Rightarrow> fpx_err_t \<times> 'os tst" where
  "fpx_thread_cancel P thread st = result (call P (Thread_cancel thread) st)"

section \<open>The life of a logger\<close>

definition sizeof_log_message :: addr where "sizeof_log_message = 1028"
definition sizeof_mutex :: addr where "sizeof_mutex = 40"
definition sizeof_semaphore :: addr where "sizeof_semaphore = 32"

definition logger_mem_size :: addr where
  "logger_mem_size = sizeof_log_message * of_nat FPX_MAX_LOG_SLOTS + sizeof_mutex * 2 + sizeof_semaphore * 2"

text \<open>
  The addresses of the four objects behind the messages: \<open>mutex_deposit\<close>, \<open>mutex_fetch\<close>,
  \<open>sem_empty\<close> and \<open>sem_full\<close>.
\<close>

definition logger_objects :: "addr \<Rightarrow> addr \<times> addr \<times> addr \<times> addr" where
  "logger_objects messages =
     (let mem = messages + sizeof_log_message * of_nat FPX_MAX_LOG_SLOTS;
          mutex_deposit = mem; mem = mem + sizeof_mutex;
          mutex_fetch = mem; mem = mem + sizeof_mutex;
          sem_empty = mem; mem = mem + sizeof_semaphore;
          sem_full = mem
      in (mutex_deposit, mutex_fetch, sem_empty, sem_full))"

text \<open>
  Initialising an object and registering its cleanup, for one object after the other; the
  cleanups are listed with the newest first, as the pool runs them.
\<close>

fun init_steps :: "(('os tst \<Rightarrow> fpx_err_t \<times> 'os tst) \<times> ('os tst \<Rightarrow> 'os tst)) list \<Rightarrow> penv \<Rightarrow>
    ('os tst \<Rightarrow> 'os tst) list \<Rightarrow> 'os tst \<Rightarrow> (fpx_err_t \<times> penv \<times> ('os tst \<Rightarrow> 'os tst) list \<times> 'os tst) option" where
  "init_steps [] pool cleanups st = Some (FPX_OK, pool, cleanups, st)"
| "init_steps ((init, fini) # steps) pool cleanups st =
     (case init st of (err, st) \<Rightarrow>
        if err \<noteq> FPX_OK then Some (err, pool, cleanups, st)
        else do {
          pool \<leftarrow> pcleanup pool;
          init_steps steps pool (fini # cleanups) st
        })"

text \<open>
  \<open>pool\<close> is the result of \<open>fpx_pool_create\<close>; when that fails, the failure path reads the variable
  \<open>pool\<close>, which has no value then. \<open>messages\<close> is the address of the block from the pool. The
  result holds the cleanups of the logger.
\<close>

definition fpx_logger_init :: "'os pth \<Rightarrow> penv option \<Rightarrow> addr \<Rightarrow> 'os tst \<Rightarrow>
    (fpx_err_t \<times> (logger \<times> ('os tst \<Rightarrow> 'os tst) list) option \<times> 'os tst) option" where
  "fpx_logger_init P pool messages st = do {
     pool \<leftarrow> pool;
     let (ok, pool) = palloc pool;
     if \<not> ok then Some (pe_errno pool, None, st)
     else
       let (ok, pool) = palloc pool in
       if \<not> ok then Some (pe_errno pool, None, st)
       else do {
         let (mutex_deposit, mutex_fetch, sem_empty, sem_full) = logger_objects messages;
         (err, pool, cleanups, st) \<leftarrow> init_steps
           [(fpx_semaphore_init P sem_empty (of_nat FPX_MAX_LOG_SLOTS) (of_nat FPX_MAX_LOG_SLOTS) FPX_SEMAPHORE_SHARED,
             fpx_semaphore_fini P sem_empty),
            (fpx_semaphore_init P sem_full 0 (of_nat FPX_MAX_LOG_SLOTS) FPX_SEMAPHORE_SHARED, fpx_semaphore_fini P sem_full),
            (fpx_mutex_init P mutex_deposit FPX_MUTEX_SHARED, fpx_mutex_fini P mutex_deposit),
            (fpx_mutex_init P mutex_fetch FPX_MUTEX_SHARED, fpx_mutex_fini P mutex_fetch)] pool [] st;
         if err \<noteq> FPX_OK then Some (err, None, fold (\<lambda>f. f) cleanups st)
         else Some (FPX_OK, Some (\<lparr>lr_running = False, lr_logs = [], lr_pool = pool, lr_closes = []\<rparr>, cleanups), st)
       }
   }"

text \<open>
  Starting the logging thread; \<open>tid\<close> is the address of its number in the logger's pool. The pause
  at the end is left out.
\<close>

definition fpx_logger_start :: "'os pth \<Rightarrow> addr \<Rightarrow> logger \<Rightarrow> 'os tst \<Rightarrow> (fpx_err_t \<times> logger \<times> 'os tst) option" where
  "fpx_logger_start P tid logger st =
     (let logger = logger\<lparr>lr_running := True\<rparr>; (ok, pool) = palloc (lr_pool logger);
          logger = logger\<lparr>lr_pool := pool\<rparr> in
      if \<not> ok then Some (pe_errno pool, logger, st)
      else
        case fpx_thread_init P tid (FPX_THREAD_SCOPE_SYSTEM OR FPX_THREAD_CREATE_DETACHED) 0 st of (err, st) \<Rightarrow>
          if err \<noteq> FPX_OK then Some (err, logger, st)
          else do {
            pool \<leftarrow> pcleanup (lr_pool logger);
            Some (FPX_OK, logger\<lparr>lr_pool := pool\<rparr>, st)
          })"

definition fpx_logger_destroy :: "'os pth \<Rightarrow> addr \<Rightarrow> logger \<times> ('os tst \<Rightarrow> 'os tst) list \<Rightarrow> 'os tst \<Rightarrow> 'os tst" where
  "fpx_logger_destroy P tid lc st =
     fold (\<lambda>f. f) (snd lc) (if lr_running (fst lc) then snd (fpx_thread_cancel P tid st) else st)"

lemma logger_init_result:
  "fpx_logger_init P pool messages st = Some (err, Some l, st') \<Longrightarrow> err = FPX_OK"
  by (auto simp: fpx_logger_init_def Let_def split: Option.bind_splits prod.splits if_splits)

section \<open>Errors and attribute objects\<close>

text \<open>
  What POSIX documents: no call sets \<open>errno\<close> to zero, a failed semaphore call sets it, and the
  thread functions report errors by their result and leave \<open>errno\<close> alone.
\<close>

definition posix_errno :: "'os pth \<Rightarrow> bool" where
  "posix_errno P \<longleftrightarrow> (\<forall>c os. (t_errno P os \<noteq> 0 \<longrightarrow> t_errno P (snd (t_call P c os)) \<noteq> 0) \<and>
     (if is_sem c then fst (t_call P c os) \<noteq> 0 \<longrightarrow> t_errno P (snd (t_call P c os)) \<noteq> 0
      else t_errno P (snd (t_call P c os)) = t_errno P os))"

lemma call_trace [simp]: "ts_trace (snd (call P c st)) = ts_trace st"
  by (simp add: call_def split: prod.splits)

lemma ev_simps [simp]: "ts_os (ev e st) = ts_os st" "ts_trace (ev e st) = ts_trace st @ [e]"
  by (simp_all add: ev_def)

lemma callD:
  assumes "call P c st = (r, st')"
  shows "ts_trace st' = ts_trace st" "ts_os st' = snd (t_call P c (ts_os st))"
    "r = (if fst (t_call P c (ts_os st)) = 0 then None else Some (t_errno P (snd (t_call P c (ts_os st)))))"
  using assms by (auto simp: call_def split: prod.splits if_splits)

lemma errno_call:
  assumes "posix_errno P" "call P c st = (r, st')"
  shows "\<not> is_sem c \<Longrightarrow> t_errno P (ts_os st') = t_errno P (ts_os st)"
    and "\<not> is_sem c \<Longrightarrow> r = Some e \<Longrightarrow> e = t_errno P (ts_os st)"
    and "is_sem c \<Longrightarrow> r \<noteq> Some 0"
    and "t_errno P (ts_os st) \<noteq> 0 \<Longrightarrow> t_errno P (ts_os st') \<noteq> 0"
  using assms(1) [unfolded posix_errno_def, THEN spec [of _ c], THEN spec [of _ "ts_os st"]] callD [OF assms(2)]
  by (auto split: if_splits)

text \<open>One call of the thread library, or none.\<close>

definition quiet :: "'os pth \<Rightarrow> 'os tst \<Rightarrow> fpx_err_t option \<times> 'os tst \<Rightarrow> bool" where
  "quiet P st x \<longleftrightarrow> ts_trace (snd x) = ts_trace st \<and>
     (posix_errno P \<longrightarrow> t_errno P (ts_os (snd x)) = t_errno P (ts_os st) \<and> (\<forall>e. fst x = Some e \<longrightarrow> e = t_errno P (ts_os st)))"

lemma quiet_call: "\<not> is_sem c \<Longrightarrow> quiet P st (call P c st)"
  by (cases "call P c st") (auto simp: quiet_def dest: callD(1) errno_call)

lemma quiet_none: "quiet P st (None, st)"
  by (simp add: quiet_def)

lemma quiet_if: "quiet P st x \<Longrightarrow> quiet P st y \<Longrightarrow> quiet P st (if b then x else y)"
  by simp

lemma quiet_trans:
  assumes "quiet P st (None, st1)" "quiet P st1 x"
  shows "quiet P st x"
  using assms by (auto simp: quiet_def)

lemmas quiet_intros = quiet_if quiet_none quiet_call

lemma destroy_trace [simp]: "ts_trace (mutexattr_destroy P st) = ts_trace st @ [AttrGone]"
  by (simp add: mutexattr_destroy_def)

lemma destroy_errno: "posix_errno P \<Longrightarrow> t_errno P (ts_os (mutexattr_destroy P st)) = t_errno P (ts_os st)"
  using quiet_call [of Mutexattr_destroy P st] by (simp add: mutexattr_destroy_def quiet_def)

lemma mutex_init_cases:
  "(posix_errno P \<longrightarrow> t_errno P (ts_os (snd (fpx_mutex_init P m params st))) = t_errno P (ts_os st)) \<and> (fst (fpx_mutex_init P m params st) = FPX_OK \<and> ts_trace (snd (fpx_mutex_init P m params st)) = ts_trace st @ [AttrNew, New m, AttrGone] \<or>
    ts_trace (snd (fpx_mutex_init P m params st)) \<in> {ts_trace st, ts_trace st @ [AttrNew, AttrGone]} \<and>
    (posix_errno P \<longrightarrow> fst (fpx_mutex_init P m params st) = t_errno P (ts_os st)))"
proof -
  obtain r1 st1 where 1: "call P Mutexattr_init st = (r1, st1)" by fastforce
  let ?c2 = "if params AND FPX_MUTEX_SHARED \<noteq> 0 then call P (Mutexattr_setpshared True) (ev AttrNew st1)
    else if params AND FPX_MUTEX_PRIVATE \<noteq> 0 then call P (Mutexattr_setpshared False) (ev AttrNew st1) else (None, ev AttrNew st1)"
  obtain r2 st2 where 2: "?c2 = (r2, st2)" by fastforce
  let ?c3 = "if params AND FPX_MUTEX_RECURSIVE \<noteq> 0 then call P Mutexattr_settype_recursive st2 else (None, st2)"
  obtain r3 st3 where 3: "?c3 = (r3, st3)" by fastforce
  obtain r4 st4 where 4: "call P (Mutex_init m) st3 = (r4, st4)" by fastforce
  have q1: "quiet P st (r1, st1)" using quiet_call [of Mutexattr_init P st] 1 by simp
  have "quiet P (ev AttrNew st1) ?c2" by (intro quiet_intros) simp_all
  then have q2: "quiet P (ev AttrNew st1) (r2, st2)" by (simp only: 2)
  have "quiet P st2 ?c3" by (intro quiet_intros) simp
  then have q3: "quiet P st2 (r3, st3)" by (simp only: 3)
  have q4: "quiet P st3 (r4, st4)" using quiet_call [of "Mutex_init m" P st3] 4 by simp
  show ?thesis
    unfolding fpx_mutex_init_def 1
    using 2 3 4 q1 q2 q3 q4 by (cases r1; cases r2; cases r3; cases r4) (simp_all add: quiet_def destroy_errno)
qed

lemma thread_attributes_quiet: "quiet P st (thread_attributes P params stack_size st)"
proof -
  let ?c1 = "if params AND FPX_THREAD_SCOPE_SYSTEM \<noteq> 0 then call P (Attr_setscope True) st
    else if params AND FPX_THREAD_SCOPE_PROCESS \<noteq> 0 then call P (Attr_setscope False) st else (None, st)"
  obtain r1 st1 where 1: "?c1 = (r1, st1)" by fastforce
  let ?c2 = "if params AND FPX_THREAD_CREATE_DETACHED \<noteq> 0 then call P (Attr_setdetachstate True) st1
    else if params AND FPX_THREAD_CREATE_JOINABLE \<noteq> 0 then call P (Attr_setdetachstate False) st1 else (None, st1)"
  obtain r2 st2 where 2: "?c2 = (r2, st2)" by fastforce
  let ?c3 = "if stack_size \<noteq> 0 then call P (Attr_setstacksize stack_size) st2 else (None, st2)"
  have "quiet P st ?c1" "quiet P st1 ?c2" "quiet P st2 ?c3" by (intro quiet_intros; simp)+
  then have q: "quiet P st (r1, st1)" "quiet P st1 (r2, st2)" "quiet P st2 ?c3" by (simp_all only: 1 2)
  have e: "thread_attributes P params stack_size st =
      (case (r1, st1) of (Some err, st) \<Rightarrow> (Some err, st) | (None, _) \<Rightarrow>
        (case (r2, st2) of (Some err, st) \<Rightarrow> (Some err, st) | (None, _) \<Rightarrow> ?c3))"
    unfolding thread_attributes_def 1 using 2 by (cases r1) auto
  show ?thesis
  proof (cases r1)
    case None
    then have q2: "quiet P st (r2, st2)" using q(1,2) quiet_trans by metis
    show ?thesis using e None q2 q(3) quiet_trans [of P st st2] by (cases r2) simp_all
  qed (use e q(1) in simp)
qed

lemma thread_init_cases:
  "fst (fpx_thread_init P t params stack_size st) = FPX_OK \<and>
     ts_trace (snd (fpx_thread_init P t params stack_size st)) = ts_trace st @ [AttrNew, Started t, AttrGone] \<or>
   ts_trace (snd (fpx_thread_init P t params stack_size st)) \<in> {ts_trace st, ts_trace st @ [AttrNew]} \<and>
     (posix_errno P \<longrightarrow> fst (fpx_thread_init P t params stack_size st) = t_errno P (ts_os st))"
proof -
  obtain r1 st1 where 1: "call P Attr_init st = (r1, st1)" by fastforce
  obtain r2 st2 where 2: "thread_attributes P params stack_size (ev AttrNew st1) = (r2, st2)" by fastforce
  obtain r3 st3 where 3: "call P (Thread_create t) st2 = (r3, st3)" by fastforce
  have q1: "quiet P st (r1, st1)" using quiet_call [of Attr_init P st] 1 by simp
  have q2: "quiet P (ev AttrNew st1) (r2, st2)" using thread_attributes_quiet [of P "ev AttrNew st1"] 2 by metis
  have q3: "quiet P st2 (r3, st3)" using quiet_call [of "Thread_create t" P st2] 3 by simp
  show ?thesis
    unfolding fpx_thread_init_def 1
    using 2 3 q1 q2 q3 by (cases r1; cases r2; cases r3) (simp_all add: quiet_def)
qed

text \<open>
  C34 (fpx_sync_errors). What the results of the wrappers tell. The semaphore functions report
  success exactly when the call has succeeded. The mutex and thread functions take their error from
  \<open>errno\<close>, which those calls do not set: a failed call is reported as success when \<open>errno\<close> is
  zero. Initialising a mutex gives back its attribute object on every path, creating a
  thread does so only when it succeeds.
\<close>

theorem fpx_sync_errors:
  assumes "posix_errno P"
  shows "(fst (fpx_semaphore_wait P s st) = FPX_OK \<longleftrightarrow> fst (t_call P (Sem_wait s) (ts_os st)) = 0) \<and>
    (fst (fpx_semaphore_post P s st) = FPX_OK \<longleftrightarrow> fst (t_call P (Sem_post s) (ts_os st)) = 0) \<and>
    (fst (fpx_mutex_lock P m st) = FPX_OK \<longleftrightarrow> fst (t_call P (Mutex_lock m) (ts_os st)) = 0 \<or> t_errno P (ts_os st) = 0) \<and>
    (fst (fpx_mutex_unlock P m st) = FPX_OK \<longleftrightarrow> fst (t_call P (Mutex_unlock m) (ts_os st)) = 0 \<or> t_errno P (ts_os st) = 0) \<and>
    (fst (fpx_thread_join P t st) = FPX_OK \<longleftrightarrow> fst (t_call P (Thread_join t) (ts_os st)) = 0 \<or> t_errno P (ts_os st) = 0) \<and>
    (\<exists>tr. ts_trace (snd (fpx_mutex_init P m params st)) = ts_trace st @ tr \<and>
       tr \<in> {[], [AttrNew, AttrGone], [AttrNew, New m, AttrGone]} \<and>
       (fst (fpx_mutex_init P m params st) = FPX_OK \<longleftrightarrow> New m \<in> set tr \<or> t_errno P (ts_os st) = 0)) \<and>
    (\<exists>tr. ts_trace (snd (fpx_thread_init P t params stack_size st)) = ts_trace st @ tr \<and>
       tr \<in> {[], [AttrNew], [AttrNew, Started t, AttrGone]} \<and>
       (fst (fpx_thread_init P t params stack_size st) = FPX_OK \<longleftrightarrow> Started t \<in> set tr \<or> t_errno P (ts_os st) = 0))"
proof -
  have sem: "fst (result (call P c st)) = FPX_OK \<longleftrightarrow> fst (t_call P c (ts_os st)) = 0" if "is_sem c" for c
  proof -
    obtain r st' where c: "call P c st = (r, st')" by fastforce
    show ?thesis using errno_call(3) [OF assms c that] callD(3) [OF c] c by (cases r) (auto simp: result_def FPX_OK_def split: if_splits)
  qed
  have pth: "fst (result (call P c st)) = FPX_OK \<longleftrightarrow> fst (t_call P c (ts_os st)) = 0 \<or> t_errno P (ts_os st) = 0"
    if "\<not> is_sem c" for c
  proof -
    obtain r st' where c: "call P c st = (r, st')" by fastforce
    show ?thesis using errno_call(2) [OF assms c that] callD(3) [OF c] c by (cases r) (auto simp: result_def FPX_OK_def split: if_splits)
  qed
  have mu: "\<exists>tr. ts_trace (snd (fpx_mutex_init P m params st)) = ts_trace st @ tr \<and>
       tr \<in> {[], [AttrNew, AttrGone], [AttrNew, New m, AttrGone]} \<and>
       (fst (fpx_mutex_init P m params st) = FPX_OK \<longleftrightarrow> New m \<in> set tr \<or> t_errno P (ts_os st) = 0)"
    (is "\<exists>tr. ?P tr")
  proof -
    have "?P [AttrNew, New m, AttrGone] \<or> ?P [] \<or> ?P [AttrNew, AttrGone]"
      using mutex_init_cases [of P m params st] assms unfolding FPX_OK_def by force
    then show ?thesis by blast
  qed
  have th: "\<exists>tr. ts_trace (snd (fpx_thread_init P t params stack_size st)) = ts_trace st @ tr \<and>
       tr \<in> {[], [AttrNew], [AttrNew, Started t, AttrGone]} \<and>
       (fst (fpx_thread_init P t params stack_size st) = FPX_OK \<longleftrightarrow> Started t \<in> set tr \<or> t_errno P (ts_os st) = 0)"
    (is "\<exists>tr. ?P tr")
  proof -
    have "?P [AttrNew, Started t, AttrGone] \<or> ?P [] \<or> ?P [AttrNew]"
      using thread_init_cases [of P t params stack_size st] assms unfolding FPX_OK_def by force
    then show ?thesis by blast
  qed
  show ?thesis
    using mu th unfolding fpx_semaphore_wait_def fpx_semaphore_post_def fpx_mutex_lock_def fpx_mutex_unlock_def fpx_thread_join_def
    by (intro conjI sem pth) simp_all
qed

text \<open>A library in which every call fails with result 11, and a semaphore call sets \<open>errno\<close> to 4.\<close>

definition failing_pth :: "int pth" where
  "failing_pth = \<lparr>t_errno = (\<lambda>os. os), t_call = (\<lambda>c os. if is_sem c then (-1, 4) else (11, os))\<rparr>"

theorem fpx_sync_errors_witness:
  "fst (fpx_mutex_lock failing_pth 8 \<lparr>ts_os = 0, ts_trace = []\<rparr>) = FPX_OK \<and>
   fst (t_call failing_pth (Mutex_lock 8) 0) \<noteq> 0"
proof -
  have "posix_errno failing_pth" by (simp add: posix_errno_def failing_pth_def)
  then show ?thesis
    using fpx_sync_errors [of failing_pth 0 "\<lparr>ts_os = 0, ts_trace = []\<rparr>" 8 0 0 0] by (simp add: failing_pth_def)
qed

section \<open>All of a logger, or nothing of it\<close>

definition objs :: "'os tst \<Rightarrow> tevent list" where
  "objs st = filter (\<lambda>e. e \<noteq> AttrNew \<and> e \<noteq> AttrGone) (ts_trace st)"

definition fini_ok :: "('os tst \<Rightarrow> 'os tst) \<Rightarrow> addr \<Rightarrow> bool" where
  "fini_ok fini a \<longleftrightarrow> (\<forall>st. objs (fini st) = objs st @ [Gone a])"

definition init_ok :: "'os pth \<Rightarrow> ('os tst \<Rightarrow> fpx_err_t \<times> 'os tst) \<Rightarrow> addr \<Rightarrow> bool" where
  "init_ok P init a \<longleftrightarrow> (\<forall>st. t_errno P (ts_os st) \<noteq> 0 \<longrightarrow> t_errno P (ts_os (snd (init st))) \<noteq> 0 \<and>
     objs (snd (init st)) = objs st @ (if fst (init st) = FPX_OK then [New a] else []))"

lemma fold_fini:
  "list_all2 fini_ok fs as \<Longrightarrow> objs (fold (\<lambda>f. f) fs st) = objs st @ map Gone as"
  by (induction fs as arbitrary: st rule: list_all2_induct) (auto simp: fini_ok_def)

lemma init_steps_objs:
  assumes "list_all2 (\<lambda>(init, fini) a. init_ok P init a \<and> fini_ok fini a) steps as" "t_errno P (ts_os st) \<noteq> 0"
    and "init_steps steps pool cl st = Some (err, pool', cl', st')"
  shows "\<exists>k fs. k \<le> length as \<and> objs st' = objs st @ map New (take k as) \<and> cl' = rev fs @ cl \<and>
    list_all2 fini_ok fs (take k as) \<and> (err = FPX_OK \<longleftrightarrow> k = length as)"
  using assms
proof (induction steps as arbitrary: st pool cl rule: list_all2_induct)
  case Nil
  then show ?case by auto
next
  case (Cons x steps a as)
  obtain init fini where x: "x = (init, fini)" "init_ok P init a" "fini_ok fini a" using Cons.hyps(1) by (cases x) auto
  obtain e st1 where i: "init st = (e, st1)" by fastforce
  have s1: "t_errno P (ts_os st1) \<noteq> 0" "objs st1 = objs st @ (if e = FPX_OK then [New a] else [])"
    using x(2) [unfolded init_ok_def, rule_format, OF Cons.prems(1)] i by simp_all
  show ?case
  proof (cases "e = FPX_OK")
    case True
    then obtain pool1 where "init_steps steps pool1 (fini # cl) st1 = Some (err, pool', cl', st')"
      using Cons.prems(2) x(1) i by (auto split: Option.bind_splits)
    from Cons.IH [OF s1(1) this] obtain k fs where k: "k \<le> length as" "objs st' = objs st1 @ map New (take k as)"
      "cl' = rev fs @ fini # cl" "list_all2 fini_ok fs (take k as)" "err = FPX_OK \<longleftrightarrow> k = length as" by blast
    then show ?thesis using s1(2) True x(3) by (intro exI [of _ "Suc k"] exI [of _ "fini # fs"]) simp
  next
    case False
    then show ?thesis using Cons.prems(2) x(1) i s1(2) by (intro exI [of _ 0] exI [of _ "[]"]) auto
  qed
qed

lemma mutex_init_ok:
  assumes "posix_errno P"
  shows "init_ok P (fpx_mutex_init P m params) m"
  unfolding init_ok_def
proof (intro allI impI)
  fix st :: "'a tst"
  assume "t_errno P (ts_os st) \<noteq> 0"
  then show "t_errno P (ts_os (snd (fpx_mutex_init P m params st))) \<noteq> 0 \<and>
      objs (snd (fpx_mutex_init P m params st)) = objs st @ (if fst (fpx_mutex_init P m params st) = FPX_OK then [New m] else [])"
    using mutex_init_cases [of P m params st] assms by (elim disjE conjE) (auto simp: objs_def FPX_OK_def)
qed

lemma semaphore_init_ok:
  assumes "posix_errno P"
  shows "init_ok P (fpx_semaphore_init P s val maxval params) s"
  unfolding init_ok_def
proof (intro allI impI)
  fix st :: "'a tst"
  assume st: "t_errno P (ts_os st) \<noteq> 0"
  let ?c = "Sem_init s (params AND FPX_SEMAPHORE_SHARED \<noteq> 0) val"
  obtain r st' where c: "call P ?c st = (r, st')" by fastforce
  then show "t_errno P (ts_os (snd (fpx_semaphore_init P s val maxval params st))) \<noteq> 0 \<and>
      objs (snd (fpx_semaphore_init P s val maxval params st)) =
      objs st @ (if fst (fpx_semaphore_init P s val maxval params st) = FPX_OK then [New s] else [])"
    using errno_call(3,4) [OF assms c] callD(1) [OF c] st
    by (cases r) (auto simp: fpx_semaphore_init_def objs_def FPX_OK_def FPX_FAILED_def)
qed

lemma fini_oks: "fini_ok (fpx_mutex_fini P m) m" "fini_ok (fpx_semaphore_fini P s) s"
  by (simp_all add: fini_ok_def objs_def fpx_mutex_fini_def fpx_semaphore_fini_def)

lemma logger_init_errno_set:
  assumes "posix_errno P" "t_errno P (ts_os st) \<noteq> 0" "pe_errno pool \<noteq> FPX_OK"
    and "fpx_logger_init P (Some pool) messages st = Some (err, lc, st')"
    and "as = map (\<lambda>off. messages + off) [32976, 33008, 32896, 32936]"
  shows "(case lc of
      None \<Rightarrow> err \<noteq> FPX_OK \<and> (\<exists>k < 4. objs st' = objs st @ map New (take k as) @ map Gone (rev (take k as)))
    | Some l \<Rightarrow> err = FPX_OK \<and> objs st' = objs st @ map New as \<and> \<not> lr_running (fst l) \<and> lr_logs (fst l) = [] \<and>
        objs (fpx_logger_destroy P tid l st') = objs st' @ map Gone (rev as)) \<and>
    logger_mem_size = 33008 + sizeof_semaphore"
proof -
  have layout: "logger_objects messages = (messages + 32896, messages + 32936, messages + 32976, messages + 33008)"
    "logger_mem_size = 33008 + sizeof_semaphore"
    by (simp_all add: logger_objects_def logger_mem_size_def sizeof_log_message_def sizeof_mutex_def sizeof_semaphore_def
        FPX_MAX_LOG_SLOTS_def Let_def)
  define steps where "steps =
     [(fpx_semaphore_init P (messages + 32976) (of_nat FPX_MAX_LOG_SLOTS) (of_nat FPX_MAX_LOG_SLOTS) FPX_SEMAPHORE_SHARED,
       fpx_semaphore_fini P (messages + 32976)),
      (fpx_semaphore_init P (messages + 33008) 0 (of_nat FPX_MAX_LOG_SLOTS) FPX_SEMAPHORE_SHARED, fpx_semaphore_fini P (messages + 33008)),
      (fpx_mutex_init P (messages + 32896) FPX_MUTEX_SHARED, fpx_mutex_fini P (messages + 32896)),
      (fpx_mutex_init P (messages + 32936) FPX_MUTEX_SHARED, fpx_mutex_fini P (messages + 32936))]"
  have ok: "list_all2 (\<lambda>(init, fini) a. init_ok P init a \<and> fini_ok fini a) steps as"
    using mutex_init_ok [OF assms(1)] semaphore_init_ok [OF assms(1)] by (simp add: fini_oks steps_def assms(5))
  consider "err \<noteq> FPX_OK" "lc = None" "st' = st"
  | pool1 e pool2 cl st1 where "init_steps steps pool1 [] st = Some (e, pool2, cl, st1)" "err = e"
      "lc = (if e \<noteq> FPX_OK then None else Some (\<lparr>lr_running = False, lr_logs = [], lr_pool = pool2, lr_closes = []\<rparr>, cl))"
      "st' = (if e \<noteq> FPX_OK then fold (\<lambda>f. f) cl st1 else st1)"
    using assms(3,4) unfolding fpx_logger_init_def layout(1) steps_def
    by (auto simp: Let_def palloc_def split: if_splits Option.bind_splits)
  then show ?thesis
  proof cases
    case 1
    then show ?thesis using layout(2) by (auto intro: exI [of _ 0])
  next
    case 2
    obtain k fs where k: "k \<le> length as" "objs st1 = objs st @ map New (take k as)" "cl = rev fs"
      "list_all2 fini_ok fs (take k as)" "e = FPX_OK \<longleftrightarrow> k = length as"
      using init_steps_objs [OF ok assms(2) 2(1)] by auto
    have f: "objs (fold (\<lambda>f. f) cl s) = objs s @ map Gone (rev (take k as))" for s
      using fold_fini [of cl "rev (take k as)"] k(3,4) by (simp add: list_all2_rev)
    have n: "length as = 4" by (simp add: assms(5))
    show ?thesis
    proof (cases "e = FPX_OK")
      case True
      then show ?thesis using n k(1,2,5) 2 f layout(2) by (auto simp: fpx_logger_destroy_def)
    next
      case False
      then have "k < 4" using n k(1,5) by simp
      then show ?thesis using False k(2) 2 f layout(2) by auto
    qed
  qed
qed

text \<open>A library that can make no mutex, where everything else succeeds and nothing sets \<open>errno\<close>, as the documentation allows.\<close>

definition no_mutexes :: "'os pth \<Rightarrow> bool" where
  "no_mutexes P \<longleftrightarrow> (\<forall>c os. t_errno P (snd (t_call P c os)) = t_errno P os \<and> (fst (t_call P c os) = 0 \<longleftrightarrow> (\<forall>m. c \<noteq> Mutex_init m)))"

lemma no_mutexes_call:
  assumes "no_mutexes P"
  shows "call P c st = (if \<exists>m. c = Mutex_init m then Some (t_errno P (ts_os st)) else None, st\<lparr>ts_os := snd (t_call P c (ts_os st))\<rparr>)"
    and "t_errno P (snd (t_call P c os)) = t_errno P os"
  using assms by (auto simp: no_mutexes_def call_def case_prod_beta)

lemma no_mutexes_inits:
  assumes "no_mutexes P" "t_errno P (ts_os st) = FPX_OK"
  shows "\<exists>st'. fpx_mutex_init P m FPX_MUTEX_SHARED st = (FPX_OK, st') \<and> t_errno P (ts_os st') = FPX_OK \<and> objs st' = objs st"
    and "\<exists>st'. fpx_semaphore_init P s val maxval FPX_SEMAPHORE_SHARED st = (FPX_OK, st') \<and> t_errno P (ts_os st') = FPX_OK \<and>
      objs st' = objs st @ [New s]"
  using assms(2)
  by (auto simp: fpx_mutex_init_def fpx_semaphore_init_def mutexattr_destroy_def no_mutexes_call [OF assms(1)] objs_def
      FPX_MUTEX_SHARED_def FPX_MUTEX_RECURSIVE_def FPX_SEMAPHORE_SHARED_def FPX_SEMAPHORE_PRIVATE_def)

lemma pcleanup_endless: "pe_ok pool = (\<lambda>_. True) \<Longrightarrow> \<exists>pool'. pcleanup pool = Some pool' \<and> pe_ok pool' = (\<lambda>_. True)"
  by (simp add: pcleanup_def palloc_def)

lemma logger_init_errno_zero:
  assumes "no_mutexes P" "t_errno P (ts_os st) = FPX_OK" "pe_ok pool = (\<lambda>_. True)"
    and "as = map (\<lambda>off. messages + off) [32976, 33008, 32896, 32936]"
  shows "\<exists>l st'. fpx_logger_init P (Some pool) messages st = Some (FPX_OK, Some l, st') \<and>
    objs st' = objs st @ map New (take 2 as) \<and> objs (fpx_logger_destroy P tid l st') = objs st' @ map Gone (rev as)"
proof -
  have layout: "logger_objects messages = (messages + 32896, messages + 32936, messages + 32976, messages + 33008)"
    by (simp add: logger_objects_def sizeof_log_message_def sizeof_mutex_def sizeof_semaphore_def FPX_MAX_LOG_SLOTS_def Let_def)
  note sem = no_mutexes_inits(2) [OF assms(1)] and mut = no_mutexes_inits(1) [OF assms(1)]
  obtain s1 where 1: "fpx_semaphore_init P (messages + 32976) (of_nat FPX_MAX_LOG_SLOTS) (of_nat FPX_MAX_LOG_SLOTS) FPX_SEMAPHORE_SHARED st = (FPX_OK, s1)"
    "t_errno P (ts_os s1) = FPX_OK" "objs s1 = objs st @ [New (messages + 32976)]" using sem [OF assms(2)] by blast
  obtain s2 where 2: "fpx_semaphore_init P (messages + 33008) 0 (of_nat FPX_MAX_LOG_SLOTS) FPX_SEMAPHORE_SHARED s1 = (FPX_OK, s2)"
    "t_errno P (ts_os s2) = FPX_OK" "objs s2 = objs s1 @ [New (messages + 33008)]" using sem [OF 1(2)] by blast
  obtain s3 where 3: "fpx_mutex_init P (messages + 32896) FPX_MUTEX_SHARED s2 = (FPX_OK, s3)"
    "t_errno P (ts_os s3) = FPX_OK" "objs s3 = objs s2" using mut [OF 2(2)] by blast
  obtain s4 where 4: "fpx_mutex_init P (messages + 32936) FPX_MUTEX_SHARED s3 = (FPX_OK, s4)" "objs s4 = objs s3"
    using mut [OF 3(2)] by blast
  let ?fs = "[fpx_mutex_fini P (messages + 32936), fpx_mutex_fini P (messages + 32896),
      fpx_semaphore_fini P (messages + 33008), fpx_semaphore_fini P (messages + 32976)]"
  obtain q1 q2 where q: "palloc pool = (True, q1)" "palloc q1 = (True, q2)" "pe_ok q2 = (\<lambda>_. True)"
    using assms(3) by (simp add: palloc_def)
  obtain p1 where p1: "pcleanup q2 = Some p1" "pe_ok p1 = (\<lambda>_. True)" using pcleanup_endless [OF q(3)] by blast
  obtain p2 where p2: "pcleanup p1 = Some p2" "pe_ok p2 = (\<lambda>_. True)" using pcleanup_endless [OF p1(2)] by blast
  obtain p3 where p3: "pcleanup p2 = Some p3" "pe_ok p3 = (\<lambda>_. True)" using pcleanup_endless [OF p2(2)] by blast
  obtain p4 where p4: "pcleanup p3 = Some p4" using pcleanup_endless [OF p3(2)] by blast
  have "fpx_logger_init P (Some pool) messages st =
      Some (FPX_OK, Some (\<lparr>lr_running = False, lr_logs = [], lr_pool = p4, lr_closes = []\<rparr>, ?fs), s4)"
    by (simp add: fpx_logger_init_def layout Let_def q(1,2) 1(1) 2(1) 3(1) 4(1) p1(1) p2(1) p3(1) p4)
  moreover have "objs (fold (\<lambda>f. f) ?fs s4) = objs s4 @ map Gone (rev as)"
    using fold_fini [of ?fs "rev as" s4] by (simp add: assms(4) fini_oks)
  ultimately show ?thesis
    using 1(3) 2(3) 3(3) 4(2) by (simp add: assms(4) fpx_logger_destroy_def numeral_2_eq_2)
qed

text \<open>
  C17 (fpx_logger_init_all_or_nothing). When \<open>errno\<close> is not zero at the start, creating a logger
  either initialises its two semaphores and two mutexes, in this order, and keeps all of them
  until \<open>fpx_logger_destroy\<close> finalises each once in the opposite order, or it reports an error
  and finalises exactly those it had initialised. The four objects lie behind the messages, one
  behind the other, and fill the block that was allocated. But \<open>errno\<close> is zero when a process starts, and
  the thread functions do not set it: when no mutex can be made then, creating the logger reports
  success all the same and keeps a logger without its mutexes, whose end finalises all four objects.
\<close>

theorem fpx_logger_init_all_or_nothing:
  assumes "posix_errno P" "pe_errno pool \<noteq> FPX_OK"
    and "fpx_logger_init P (Some pool) messages st = Some (err, lc, st')"
    and "as = map (\<lambda>off. messages + off) [32976, 33008, 32896, 32936]"
  shows "(t_errno P (ts_os st) \<noteq> FPX_OK \<longrightarrow> (case lc of
      None \<Rightarrow> err \<noteq> FPX_OK \<and> (\<exists>k < 4. objs st' = objs st @ map New (take k as) @ map Gone (rev (take k as)))
    | Some l \<Rightarrow> err = FPX_OK \<and> objs st' = objs st @ map New as \<and> \<not> lr_running (fst l) \<and> lr_logs (fst l) = [] \<and>
        objs (fpx_logger_destroy P tid l st') = objs st' @ map Gone (rev as))) \<and>
    (t_errno P (ts_os st) = FPX_OK \<and> no_mutexes P \<and> pe_ok pool = (\<lambda>_. True) \<longrightarrow>
      err = FPX_OK \<and> (\<exists>l. lc = Some l \<and> objs st' = objs st @ map New (take 2 as) \<and>
        objs (fpx_logger_destroy P tid l st') = objs st' @ map Gone (rev as))) \<and>
    logger_mem_size = 33008 + sizeof_semaphore"
  using logger_init_errno_set [OF assms(1) _ assms(2-4), of tid] logger_init_errno_zero [OF _ _ _ assms(4), of P st pool tid] assms(3)
  by (auto simp: FPX_OK_def logger_mem_size_def sizeof_log_message_def sizeof_mutex_def sizeof_semaphore_def FPX_MAX_LOG_SLOTS_def)

text \<open>A library in which creating a mutex fails and everything else succeeds.\<close>

definition no_mutex_pth :: "int pth" where
  "no_mutex_pth = \<lparr>t_errno = (\<lambda>os. os), t_call = (\<lambda>c os. (case c of Mutex_init _ \<Rightarrow> 12 | _ \<Rightarrow> 0, os))\<rparr>"

theorem fpx_logger_init_all_or_nothing_witness:
  "(\<exists>st'. fpx_logger_init no_mutex_pth (Some ok_pool) 0 \<lparr>ts_os = 12, ts_trace = []\<rparr> = Some (12, None, st') \<and>
     (\<exists>k < 4. objs st' = map New (take k [32976, 33008, 32896, 32936]) @ map Gone (rev (take k [32976, 33008, 32896, 32936])))) \<and>
   (\<exists>l st'. fpx_logger_init no_mutex_pth (Some ok_pool) 0 \<lparr>ts_os = 0, ts_trace = []\<rparr> = Some (0, Some l, st') \<and>
     objs st' = [New 32976, New 33008])"
proof
  let ?st = "\<lambda>e. \<lparr>ts_os = e, ts_trace = []\<rparr> :: int tst"
  have h: "posix_errno no_mutex_pth" "pe_errno ok_pool \<noteq> FPX_OK"
    by (simp_all add: posix_errno_def no_mutex_pth_def ok_pool_def FPX_OK_def split: pcall.splits)
  note run = fpx_logger_init_def ok_pool_def palloc_def Let_def logger_objects_def pcleanup_def
        fpx_semaphore_init_def fpx_mutex_init_def call_def no_mutex_pth_def FPX_OK_def FPX_SEMAPHORE_SHARED_def
        FPX_SEMAPHORE_PRIVATE_def FPX_MUTEX_SHARED_def FPX_MUTEX_RECURSIVE_def ev_def mutexattr_destroy_def
  have "\<exists>st'. fpx_logger_init no_mutex_pth (Some ok_pool) 0 (?st 12) = Some (12, None, st')"
    by (simp add: run)
  then obtain st' where r: "fpx_logger_init no_mutex_pth (Some ok_pool) 0 (?st 12) = Some (12, None, st')" by blast
  then show "\<exists>st'. fpx_logger_init no_mutex_pth (Some ok_pool) 0 (?st 12) = Some (12, None, st') \<and>
     (\<exists>k < 4. objs st' = map New (take k [32976, 33008, 32896, 32936]) @ map Gone (rev (take k [32976, 33008, 32896, 32936])))"
    using fpx_logger_init_all_or_nothing [OF h r refl] by (auto simp: objs_def no_mutex_pth_def FPX_OK_def)
  have "\<exists>l st'. fpx_logger_init no_mutex_pth (Some ok_pool) 0 (?st 0) = Some (0, Some l, st')"
    by (simp add: run)
  then obtain l st' where r: "fpx_logger_init no_mutex_pth (Some ok_pool) 0 (?st 0) = Some (0, Some l, st')" by blast
  have "no_mutexes no_mutex_pth" by (simp add: no_mutexes_def no_mutex_pth_def split: pcall.splits)
  then show "\<exists>l st'. fpx_logger_init no_mutex_pth (Some ok_pool) 0 (?st 0) = Some (0, Some l, st') \<and> objs st' = [New 32976, New 33008]"
    using fpx_logger_init_all_or_nothing [OF h r refl] r
    by (auto simp: objs_def no_mutex_pth_def FPX_OK_def ok_pool_def)
qed

end
