(* ===== verification/Fpx_Net.thy ===== *)
theory Fpx_Net
  imports Fpx_Filesys
begin

unbundle bit_operations_syntax

text \<open>
  Sockets, listeners and connections: \<open>src/system/net/socket.c\<close>, the Linux part of
  \<open>sockopt.c\<close>, \<open>src/core/listen.c\<close> and the socket side of \<open>src/core/connection.c\<close>. The system
  calls are the fields of a record over an abstract state; the model itself keeps the
  sequence of sockets opened and closed, so that leaks and double closes can be stated.
\<close>

section \<open>Sockets\<close>

datatype nevent = NOpen fd | NClose fd

record 'os nst =
  ns_os :: 'os
  ns_trace :: "nevent list"

record addrinfo =
  ai_family :: int
  ai_socktype :: int
  ai_protocol :: int
  ai_addr :: "byte list"

record 'os net =
  n_errno :: "'os \<Rightarrow> fpx_err_t"
  n_socket :: "int \<Rightarrow> int \<Rightarrow> int \<Rightarrow> 'os \<Rightarrow> fd \<times> 'os"
  n_setsockopt :: "fd \<Rightarrow> int \<Rightarrow> 'os \<Rightarrow> int \<times> 'os"
  n_getfl :: "fd \<Rightarrow> 'os \<Rightarrow> 32 word"
  n_setfl :: "fd \<Rightarrow> 32 word \<Rightarrow> 'os \<Rightarrow> int \<times> 'os"
  n_bind :: "fd \<Rightarrow> byte list \<Rightarrow> 'os \<Rightarrow> int \<times> 'os"
  n_listen :: "fd \<Rightarrow> int \<Rightarrow> 'os \<Rightarrow> int \<times> 'os"
  n_accept :: "fd \<Rightarrow> nat \<Rightarrow> 'os \<Rightarrow> fd \<times> byte list \<times> 'os"
  n_connect :: "fd \<Rightarrow> byte list \<Rightarrow> 'os \<Rightarrow> int \<times> 'os"
  n_shutdown :: "fd \<Rightarrow> int \<Rightarrow> 'os \<Rightarrow> int \<times> 'os"
  n_close :: "fd \<Rightarrow> 'os \<Rightarrow> 'os"
  n_getaddrinfo :: "byte list \<Rightarrow> byte list \<Rightarrow> int \<Rightarrow> 'os \<Rightarrow> int \<times> addrinfo list \<times> 'os"
  n_getsockname :: "fd \<Rightarrow> 'os \<Rightarrow> int \<times> byte list \<times> 'os"

definition FPX_INVALID_SOCKET :: fd where "FPX_INVALID_SOCKET = -1"

definition FPX_SHUT_RD :: int where "FPX_SHUT_RD = 0"
definition FPX_SHUT_WR :: int where "FPX_SHUT_WR = 1"
definition FPX_SHUT_RDWR :: int where "FPX_SHUT_RDWR = 2"

text \<open>A call whose only result is -1 or success.\<close>

definition sys_result :: "'os net \<Rightarrow> int \<times> 'os \<Rightarrow> 'os nst \<Rightarrow> fpx_err_t \<times> 'os nst" where
  "sys_result N r st =
     (case r of (rv, os) \<Rightarrow> (if rv = -1 then n_errno N os else FPX_OK, st\<lparr>ns_os := os\<rparr>))"

definition fpx_socket_init :: "'os net \<Rightarrow> fd \<Rightarrow> int \<Rightarrow> int \<Rightarrow> int \<Rightarrow> 'os nst \<Rightarrow> fpx_err_t \<times> fd \<times> 'os nst" where
  "fpx_socket_init N new_sockfd domain type protocol st =
     (let (sockfd, os) = n_socket N domain type protocol (ns_os st); st = st\<lparr>ns_os := os\<rparr> in
      if sockfd = FPX_INVALID_SOCKET then (n_errno N os, new_sockfd, st)
      else (FPX_OK, sockfd, st\<lparr>ns_trace := ns_trace st @ [NOpen sockfd]\<rparr>))"

definition fpx_socket_bind :: "'os net \<Rightarrow> fd \<Rightarrow> byte list \<Rightarrow> 'os nst \<Rightarrow> fpx_err_t \<times> 'os nst" where
  "fpx_socket_bind N sockfd addr st = sys_result N (n_bind N sockfd addr (ns_os st)) st"

definition fpx_socket_listen :: "'os net \<Rightarrow> fd \<Rightarrow> int \<Rightarrow> 'os nst \<Rightarrow> fpx_err_t \<times> 'os nst" where
  "fpx_socket_listen N sockfd backlog st = sys_result N (n_listen N sockfd backlog (ns_os st)) st"

definition fpx_socket_accept :: "'os net \<Rightarrow> fd \<Rightarrow> fd \<Rightarrow> nat \<Rightarrow> 'os nst \<Rightarrow> fpx_err_t \<times> fd \<times> byte list \<times> 'os nst" where
  "fpx_socket_accept N new_sockfd sockfd addrlen st =
     (let (sockfd1, addr, os) = n_accept N sockfd addrlen (ns_os st); st = st\<lparr>ns_os := os\<rparr> in
      if sockfd1 = FPX_INVALID_SOCKET then (n_errno N os, new_sockfd, addr, st)
      else (FPX_OK, sockfd1, addr, st\<lparr>ns_trace := ns_trace st @ [NOpen sockfd1]\<rparr>))"

definition fpx_socket_connect :: "'os net \<Rightarrow> fd \<Rightarrow> byte list \<Rightarrow> 'os nst \<Rightarrow> fpx_err_t \<times> 'os nst" where
  "fpx_socket_connect N sockfd addr st = sys_result N (n_connect N sockfd addr (ns_os st)) st"

definition fpx_socket_shutdown :: "'os net \<Rightarrow> fd \<Rightarrow> int \<Rightarrow> 'os nst \<Rightarrow> fpx_err_t \<times> 'os nst" where
  "fpx_socket_shutdown N sockfd how st = sys_result N (n_shutdown N sockfd how (ns_os st)) st"

definition fpx_socket_close :: "'os net \<Rightarrow> fd \<Rightarrow> 'os nst \<Rightarrow> 'os nst" where
  "fpx_socket_close N sockfd st =
     st\<lparr>ns_os := n_close N sockfd (ns_os st), ns_trace := ns_trace st @ [NClose sockfd]\<rparr>"

text \<open>Options. \<open>fpx_socket_nopush\<close> sets \<open>SO_REUSEADDR\<close>; the mode of a descriptor is a bit mask.\<close>

definition O_NONBLOCK :: "32 word" where "O_NONBLOCK = 0x800"

definition fpx_socket_nopush :: "'os net \<Rightarrow> fd \<Rightarrow> 'os nst \<Rightarrow> fpx_err_t \<times> 'os nst" where
  "fpx_socket_nopush N sockfd st = sys_result N (n_setsockopt N sockfd 1 (ns_os st)) st"

definition fpx_socket_push :: "'os net \<Rightarrow> fd \<Rightarrow> 'os nst \<Rightarrow> fpx_err_t \<times> 'os nst" where
  "fpx_socket_push N sockfd st = sys_result N (n_setsockopt N sockfd 0 (ns_os st)) st"

definition fpx_socket_nonblocking :: "'os net \<Rightarrow> fd \<Rightarrow> 'os nst \<Rightarrow> fpx_err_t \<times> 'os nst" where
  "fpx_socket_nonblocking N sockfd st =
     (let flags = n_getfl N sockfd (ns_os st) in
      sys_result N (n_setfl N sockfd (flags OR O_NONBLOCK) (ns_os st)) st)"

definition fpx_socket_blocking :: "'os net \<Rightarrow> fd \<Rightarrow> 'os nst \<Rightarrow> fpx_err_t \<times> 'os nst" where
  "fpx_socket_blocking N sockfd st =
     (let flags = n_getfl N sockfd (ns_os st) in
      sys_result N (n_setfl N sockfd (flags AND NOT O_NONBLOCK) (ns_os st)) st)"

section \<open>Listeners\<close>

definition AF_INET :: int where "AF_INET = 2"
definition AF_INET6 :: int where "AF_INET6 = 10"
definition FPX_MAX_BIND_ATTEMPTS :: nat where "FPX_MAX_BIND_ATTEMPTS = 3"
definition FPX_MAX_CONNECT_QUEUELEN :: int where "FPX_MAX_CONNECT_QUEUELEN = 5"

text \<open>The member \<open>type_id\<close> is a \<open>bool\<close>: storing an identifier keeps only whether it is zero.\<close>

record listener =
  ls_type_id :: bool
  ls_fd :: fd
  ls_family :: int
  ls_sockaddr :: "byte list"
  ls_addr :: "byte list option"
  ls_port :: "byte list option"

definition FPX_LISTENER_ID :: "32 word" where "FPX_LISTENER_ID = 1"

definition fpx_listener_init_ipv4 :: "byte list option \<Rightarrow> byte list option \<Rightarrow> fpx_err_t \<times> listener" where
  "fpx_listener_init_ipv4 addr port =
     (FPX_OK, \<lparr>ls_type_id = (FPX_LISTENER_ID \<noteq> 0), ls_fd = FPX_INVALID_SOCKET, ls_family = AF_INET,
        ls_sockaddr = [], ls_addr = addr, ls_port = port\<rparr>)"

definition fpx_listener_init_ipv6 :: "byte list option \<Rightarrow> byte list option \<Rightarrow> fpx_err_t \<times> listener" where
  "fpx_listener_init_ipv6 addr port =
     (FPX_OK, \<lparr>ls_type_id = (FPX_LISTENER_ID \<noteq> 0), ls_fd = FPX_INVALID_SOCKET, ls_family = AF_INET6,
        ls_sockaddr = [], ls_addr = addr, ls_port = port\<rparr>)"

fun bind_tries :: "'os net \<Rightarrow> fd \<Rightarrow> addrinfo \<Rightarrow> nat \<Rightarrow> fpx_err_t \<Rightarrow> 'os nst \<Rightarrow> bool \<times> fpx_err_t \<times> 'os nst" where
  "bind_tries N fd rp 0 err st = (False, err, st)"
| "bind_tries N fd rp (Suc tries) err st =
     (case fpx_socket_bind N fd (ai_addr rp) st of
        (err, st) \<Rightarrow> if err \<noteq> FPX_OK then bind_tries N fd rp tries err st else (True, err, st))"

text \<open>
  The loop over the addresses: whether an address was found, the value of \<open>fd\<close>, and \<open>err\<close>,
  which has no value before the first address.
\<close>

fun bind_loop :: "'os net \<Rightarrow> addrinfo list \<Rightarrow> fd \<Rightarrow> fpx_err_t option \<Rightarrow> 'os nst \<Rightarrow>
    bool \<times> fd \<times> fpx_err_t option \<times> 'os nst" where
  "bind_loop N [] fd err st = (False, fd, err, st)"
| "bind_loop N (rp # rps) fd err st =
     (case fpx_socket_init N fd (ai_family rp) (ai_socktype rp) (ai_protocol rp) st of (err, fd, st) \<Rightarrow>
        if err \<noteq> FPX_OK then bind_loop N rps fd (Some err) st
        else case fpx_socket_nopush N fd st of (err, st) \<Rightarrow>
          if err \<noteq> FPX_OK then bind_loop N rps fd (Some err) (fpx_socket_close N fd st)
          else case fpx_socket_nonblocking N fd st of (err, st) \<Rightarrow>
            if err \<noteq> FPX_OK then bind_loop N rps fd (Some err) (fpx_socket_close N fd st)
            else case bind_tries N fd rp FPX_MAX_BIND_ATTEMPTS err st of (done, err, st) \<Rightarrow>
              if done then (True, fd, Some err, st)
              else bind_loop N rps fd (Some err) (fpx_socket_close N fd st))"

text \<open>
  Binding. The text of the address or the port may be missing (see the address parser); the
  call of \<open>getaddrinfo\<close> then reads an unassigned pointer.
\<close>

definition fpx_listener_bind :: "'os net \<Rightarrow> listener \<Rightarrow> 'os nst \<Rightarrow> (fpx_err_t \<times> listener \<times> 'os nst) option" where
  "fpx_listener_bind N listener st =
     (case (ls_addr listener, ls_port listener) of
        (Some addr, Some port) \<Rightarrow>
          (let (rv, result, os) = n_getaddrinfo N addr port (ls_family listener) (ns_os st); st = st\<lparr>ns_os := os\<rparr> in
           if rv \<noteq> 0 then Some (n_errno N os, listener, st)
           else
             let (found, fd, err, st) = bind_loop N result FPX_INVALID_SOCKET None st in
             if \<not> found then
               map_option (\<lambda>err. (err, listener,
                  if fd \<noteq> FPX_INVALID_SOCKET then fpx_socket_close N fd st else st)) err
             else
               let (rv, sa, os) = n_getsockname N fd (ns_os st); st = st\<lparr>ns_os := os\<rparr> in
               if rv \<noteq> 0 then
                 Some (n_errno N os, listener\<lparr>ls_sockaddr := sa\<rparr>,
                   if fd \<noteq> FPX_INVALID_SOCKET then fpx_socket_close N fd st else st)
               else Some (FPX_OK, listener\<lparr>ls_sockaddr := sa, ls_fd := fd\<rparr>, st))
      | _ \<Rightarrow> None)"

definition fpx_listener_open :: "'os net \<Rightarrow> listener \<Rightarrow> 'os nst \<Rightarrow> fpx_err_t \<times> 'os nst" where
  "fpx_listener_open N listener st = fpx_socket_listen N (ls_fd listener) FPX_MAX_CONNECT_QUEUELEN st"

definition fpx_listener_close :: "'os net \<Rightarrow> listener \<Rightarrow> 'os nst \<Rightarrow> listener \<times> 'os nst" where
  "fpx_listener_close N listener st =
     (if ls_fd listener \<noteq> FPX_INVALID_SOCKET then
        (listener\<lparr>ls_fd := FPX_INVALID_SOCKET\<rparr>, fpx_socket_close N (ls_fd listener) st)
      else (listener, st))"

definition zero_listener :: listener where
  "zero_listener = \<lparr>ls_type_id = False, ls_fd = 0, ls_family = 0, ls_sockaddr = [], ls_addr = None, ls_port = None\<rparr>"

definition fpx_listener_clear :: "'os net \<Rightarrow> listener \<Rightarrow> 'os nst \<Rightarrow> listener \<times> 'os nst" where
  "fpx_listener_clear N listener st =
     (case fpx_listener_close N listener st of (_, st) \<Rightarrow> (zero_listener, st))"

section \<open>Connections\<close>

record connect =
  co_type_id :: bool
  co_fd :: fd
  co_sockaddr :: "byte list"
  co_owner :: "listener option"

definition FPX_CONNECTION_ID :: "32 word" where "FPX_CONNECTION_ID = 2"
definition sizeof_sockaddr_in :: nat where "sizeof_sockaddr_in = 16"

definition fpx_connection_accept :: "'os net \<Rightarrow> connect \<Rightarrow> listener \<Rightarrow> 'os nst \<Rightarrow> fpx_err_t \<times> connect \<times> 'os nst" where
  "fpx_connection_accept N connect listener st =
     (case fpx_socket_accept N FPX_INVALID_SOCKET (ls_fd listener) sizeof_sockaddr_in st of
        (err, fd, sa, st) \<Rightarrow>
          let connect = connect\<lparr>co_sockaddr := sa\<rparr> in
          if err \<noteq> FPX_OK then (err, connect, st)
          else case fpx_socket_nonblocking N fd st of (err, st) \<Rightarrow>
            if err \<noteq> FPX_OK then (err, connect, fpx_socket_close N fd st)
            else (FPX_OK, connect\<lparr>co_fd := fd, co_owner := Some listener\<rparr>, st))"

definition fpx_connection_close :: "'os net \<Rightarrow> connect \<Rightarrow> 'os nst \<Rightarrow> connect \<times> 'os nst" where
  "fpx_connection_close N connect st =
     (if co_fd connect \<noteq> FPX_INVALID_SOCKET then
        let (_, st) = fpx_socket_shutdown N (co_fd connect) FPX_SHUT_RDWR st in
        (connect\<lparr>co_fd := FPX_INVALID_SOCKET\<rparr>, fpx_socket_close N (co_fd connect) st)
      else (connect, st))"

section \<open>The sockets a listener leaves behind\<close>

text \<open>A trace in which every socket is closed right after its use.\<close>

fun paired :: "nevent list \<Rightarrow> bool" where
  "paired [] = True"
| "paired (NOpen a # NClose b # tr) = (a = b \<and> paired tr)"
| "paired _ = False"

lemma paired_append: "paired xs \<Longrightarrow> paired ys \<Longrightarrow> paired (xs @ ys)"
  by (induction xs rule: paired.induct) auto

lemma sys_result_trace: "sys_result N r st = (err, st') \<Longrightarrow> ns_trace st' = ns_trace st"
  by (auto simp: sys_result_def split: prod.splits)

lemmas option_traces = fpx_socket_bind_def fpx_socket_nopush_def fpx_socket_nonblocking_def fpx_socket_listen_def

lemma bind_tries_trace: "bind_tries N fd rp n err st = (done, err', st') \<Longrightarrow> ns_trace st' = ns_trace st \<and> (done \<longrightarrow> err' = FPX_OK)"
proof (induction n arbitrary: err st)
  case (Suc n)
  obtain e st1 where b: "fpx_socket_bind N fd (ai_addr rp) st = (e, st1)" by fastforce
  then have "ns_trace st1 = ns_trace st" unfolding fpx_socket_bind_def by (rule sys_result_trace)
  with Suc b show ?case by (auto split: if_splits)
qed simp

definition loop_trace :: "bool \<Rightarrow> fd \<Rightarrow> fd \<Rightarrow> nevent list \<Rightarrow> bool" where
  "loop_trace found fd0 fd tr \<longleftrightarrow>
     (if found then \<exists>us. paired us \<and> tr = us @ [NOpen fd]
      else if tr = [] then fd = fd0
      else \<exists>us. paired us \<and> tr = us @ [NOpen fd, NClose fd])"

lemma loop_trace_pair:
  assumes "loop_trace found fd1 fd tr"
  shows "loop_trace found fd0 fd ([NOpen fd1, NClose fd1] @ tr)"
  using assms unfolding loop_trace_def
  by (auto split: if_splits intro: exI [of _ "[]"] exI [of _ "NOpen fd1 # NClose fd1 # _"])

text \<open>What is assumed of the system: a failing \<open>socket\<close> leaves a code in \<open>errno\<close>.\<close>

definition errno_set :: "'os net \<Rightarrow> bool" where
  "errno_set N \<longleftrightarrow> (\<forall>d t p os. case n_socket N d t p os of (fd, os') \<Rightarrow> fd = -1 \<longrightarrow> n_errno N os' \<noteq> FPX_OK)"

lemma close_trace [simp]: "ns_trace (fpx_socket_close N fd st) = ns_trace st @ [NClose fd]"
  by (simp add: fpx_socket_close_def)

lemma socket_init_cases:
  assumes "errno_set N" "fpx_socket_init N fd d t p st = (err, fd', st')"
  shows "err \<noteq> FPX_OK \<and> fd' = fd \<and> ns_trace st' = ns_trace st \<or>
    err = FPX_OK \<and> fd' \<noteq> -1 \<and> ns_trace st' = ns_trace st @ [NOpen fd']"
proof -
  obtain n os' where n: "n_socket N d t p (ns_os st) = (n, os')" by fastforce
  have "n = -1 \<longrightarrow> n_errno N os' \<noteq> FPX_OK"
    using assms(1) [unfolded errno_set_def, rule_format, of d t p "ns_os st"] n by simp
  with assms(2) n show ?thesis
    by (auto simp: fpx_socket_init_def FPX_INVALID_SOCKET_def Let_def split: if_splits)
qed

text \<open>What one address does to the trace, whichever of the four ways it fails.\<close>

lemma bind_loop_Cons:
  assumes "errno_set N"
  shows "(\<exists>e st1. bind_loop N (rp # rps) fd err st = bind_loop N rps fd (Some e) st1 \<and> ns_trace st1 = ns_trace st) \<or>
    (\<exists>e fd1 st1. bind_loop N (rp # rps) fd err st = bind_loop N rps fd1 (Some e) st1 \<and> fd1 \<noteq> -1 \<and>
       ns_trace st1 = ns_trace st @ [NOpen fd1, NClose fd1]) \<or>
    (\<exists>fd1 st1. bind_loop N (rp # rps) fd err st = (True, fd1, Some FPX_OK, st1) \<and> fd1 \<noteq> -1 \<and>
       ns_trace st1 = ns_trace st @ [NOpen fd1])"
proof -
  obtain e1 fd1 s1 where 1: "fpx_socket_init N fd (ai_family rp) (ai_socktype rp) (ai_protocol rp) st = (e1, fd1, s1)"
    by (metis prod_cases3)
  obtain e2 s2 where 2: "fpx_socket_nopush N fd1 s1 = (e2, s2)" by fastforce
  obtain e3 s3 where 3: "fpx_socket_nonblocking N fd1 s2 = (e3, s3)" by fastforce
  obtain dn e4 s4 where 4: "bind_tries N fd1 rp FPX_MAX_BIND_ATTEMPTS e3 s3 = (dn, e4, s4)" by (metis prod_cases3)
  have t2: "ns_trace s2 = ns_trace s1" using 2 unfolding fpx_socket_nopush_def by (rule sys_result_trace)
  have t3: "ns_trace s3 = ns_trace s2"
    using 3 unfolding fpx_socket_nonblocking_def Let_def by (rule sys_result_trace)
  have t4: "ns_trace s4 = ns_trace s3" "dn \<longrightarrow> e4 = FPX_OK" using bind_tries_trace [OF 4] by blast+
  from socket_init_cases [OF assms 1] show ?thesis
  proof
    assume "e1 \<noteq> FPX_OK \<and> fd1 = fd \<and> ns_trace s1 = ns_trace st"
    then show ?thesis using 1 by auto
  next
    assume a: "e1 = FPX_OK \<and> fd1 \<noteq> -1 \<and> ns_trace s1 = ns_trace st @ [NOpen fd1]"
    then have c: "ns_trace (fpx_socket_close N fd1 s) = ns_trace st @ [NOpen fd1, NClose fd1]"
      if "ns_trace s = ns_trace s1" for s using that by simp
    consider "e2 \<noteq> FPX_OK" | "e2 = FPX_OK" "e3 \<noteq> FPX_OK" | "e2 = FPX_OK" "e3 = FPX_OK" "\<not> dn"
      | "e2 = FPX_OK" "e3 = FPX_OK" dn by blast
    then show ?thesis
    proof cases
      case 4
      with a 1 2 3 t2 t3 t4 \<open>bind_tries N fd1 rp FPX_MAX_BIND_ATTEMPTS e3 s3 = (dn, e4, s4)\<close>
      show ?thesis by simp
    qed (use a 1 2 3 \<open>bind_tries N fd1 rp FPX_MAX_BIND_ATTEMPTS e3 s3 = (dn, e4, s4)\<close> t2 t3 t4 c in fastforce)+
  qed
qed

lemma bind_loop_trace:
  assumes "errno_set N" "bind_loop N rps fd err st = (found, fd', err', st')"
  shows "\<exists>tr. ns_trace st' = ns_trace st @ tr \<and> loop_trace found fd fd' tr \<and> (found \<longrightarrow> err' = Some FPX_OK) \<and>
    (rps \<noteq> [] \<or> err \<noteq> None \<longrightarrow> err' \<noteq> None) \<and> (found \<or> tr \<noteq> [] \<longrightarrow> fd' \<noteq> -1)"
  using assms(2)
proof (induction rps arbitrary: fd err st)
  case Nil
  then show ?case by (auto simp: loop_trace_def)
next
  case (Cons rp rps)
  from bind_loop_Cons [OF assms(1), of rp rps fd err st] show ?case
  proof (elim disjE exE conjE)
    fix e st1
    assume "bind_loop N (rp # rps) fd err st = bind_loop N rps fd (Some e) st1" "ns_trace st1 = ns_trace st"
    with Cons.IH [of fd "Some e" st1] Cons.prems show ?thesis by auto
  next
    fix e fd1 st1
    assume a: "bind_loop N (rp # rps) fd err st = bind_loop N rps fd1 (Some e) st1" "fd1 \<noteq> -1"
      "ns_trace st1 = ns_trace st @ [NOpen fd1, NClose fd1]"
    from Cons.IH [of fd1 "Some e" st1] a(1) Cons.prems obtain tr where
      t: "ns_trace st' = ns_trace st1 @ tr" "loop_trace found fd1 fd' tr" "found \<longrightarrow> err' = Some FPX_OK" "err' \<noteq> None"
        "found \<or> tr \<noteq> [] \<longrightarrow> fd' \<noteq> -1" by auto
    have "fd' \<noteq> -1" using t(2,5) a(2) by (cases "tr = []") (auto simp: loop_trace_def split: if_splits)
    with t show ?thesis using a(2,3) loop_trace_pair [OF t(2), of fd]
      by (intro exI [of _ "[NOpen fd1, NClose fd1] @ tr"]) auto
  next
    fix fd1 st1
    assume "bind_loop N (rp # rps) fd err st = (True, fd1, Some FPX_OK, st1)" "fd1 \<noteq> -1"
      "ns_trace st1 = ns_trace st @ [NOpen fd1]"
    with Cons.prems show ?thesis by (auto simp: loop_trace_def)
  qed
qed

text \<open>What is documented of \<open>getaddrinfo\<close>: when it succeeds it gives at least one address.\<close>

definition resolver_ok :: "'os net \<Rightarrow> bool" where
  "resolver_ok N \<longleftrightarrow> (\<forall>addr port family os. case n_getaddrinfo N addr port family os of (rv, rps, os') \<Rightarrow> rv = 0 \<longrightarrow> rps \<noteq> [])"

lemma listener_bind_addresses:
  assumes "errno_set N" "ls_addr l = Some addr" "ls_port l = Some port"
    and "n_getaddrinfo N addr port (ls_family l) (ns_os st) = (0, rp # rps, os)"
  shows "\<exists>err l' st' tr. fpx_listener_bind N l st = Some (err, l', st') \<and> ns_trace st' = ns_trace st @ tr \<and>
    (if fst (bind_loop N (rp # rps) FPX_INVALID_SOCKET None (st\<lparr>ns_os := os\<rparr>)) then
       \<exists>us fd. paired us \<and> (err = FPX_OK \<and> ls_fd l' = fd \<and> tr = us @ [NOpen fd] \<or>
         ls_fd l' = ls_fd l \<and> tr = us @ [NOpen fd, NClose fd])
     else l' = l \<and> (tr = [] \<or> (\<exists>us fd. paired us \<and> tr = us @ [NOpen fd, NClose fd, NClose fd])))"
proof -
  obtain found fd e st1 where b: "bind_loop N (rp # rps) (-1) None (st\<lparr>ns_os := os\<rparr>) = (found, fd, e, st1)"
    by (metis prod_cases4)
  have f: "fst (bind_loop N (rp # rps) FPX_INVALID_SOCKET None (st\<lparr>ns_os := os\<rparr>)) = found"
    using b by (simp add: FPX_INVALID_SOCKET_def)
  from bind_loop_trace [OF assms(1) b] obtain tr where
    t: "ns_trace st1 = ns_trace st @ tr" "loop_trace found (-1) fd tr" "found \<longrightarrow> e = Some FPX_OK" "e \<noteq> None"
      "found \<or> tr \<noteq> [] \<longrightarrow> fd \<noteq> -1" by auto
  note bind_loop.simps [simp del]
  show ?thesis
  proof (cases found)
    case True
    obtain us where us: "paired us" "tr = us @ [NOpen fd]" using t(2) True by (auto simp: loop_trace_def)
    obtain rv sa os2 where g: "n_getsockname N fd (ns_os st1) = (rv, sa, os2)" by (metis prod_cases3)
    show ?thesis
    proof (cases "rv = 0")
      case rv: True
      then have "fpx_listener_bind N l st = Some (FPX_OK, l\<lparr>ls_sockaddr := sa, ls_fd := fd\<rparr>, st1\<lparr>ns_os := os2\<rparr>)"
        using assms b True g by (simp add: fpx_listener_bind_def FPX_INVALID_SOCKET_def Let_def)
      then show ?thesis using us t(1) True f
        by (intro exI [of _ FPX_OK] exI [of _ "l\<lparr>ls_sockaddr := sa, ls_fd := fd\<rparr>"] exI [of _ "st1\<lparr>ns_os := os2\<rparr>"]
            exI [of _ tr]) auto
    next
      case False
      then have "fpx_listener_bind N l st =
          Some (n_errno N os2, l\<lparr>ls_sockaddr := sa\<rparr>, fpx_socket_close N fd (st1\<lparr>ns_os := os2\<rparr>))"
        using assms b True g t(5) by (simp add: fpx_listener_bind_def FPX_INVALID_SOCKET_def Let_def)
      then show ?thesis using us t(1) True f by (intro exI conjI) (assumption, auto)
    qed
  next
    case False
    then obtain err where err: "e = Some err" using t(4) by blast
    have r: "fpx_listener_bind N l st = Some (err, l, if fd \<noteq> -1 then fpx_socket_close N fd st1 else st1)"
      using assms b False err by (simp add: fpx_listener_bind_def FPX_INVALID_SOCKET_def Let_def)
    show ?thesis
    proof (cases "tr = []")
      case True
      with t(2) False have "fd = -1" by (simp add: loop_trace_def)
      with r t(1) True False f show ?thesis by auto
    next
      case tr: False
      then obtain us where "paired us" "tr = us @ [NOpen fd, NClose fd]" using t(2) False by (auto simp: loop_trace_def)
      moreover have "fd \<noteq> -1" using t(5) tr by blast
      ultimately show ?thesis using r t(1) False f by auto
    qed
  qed
qed

text \<open>
  C15 (fpx_listener_bind_sockets). Binding a listener whose address and port are assigned returns,
  and accounts for the sockets it opens. When the address cannot be resolved, nothing is opened. Otherwise
  every address that does not work has its socket closed before the next is tried.
  On success exactly the socket of the listener stays open; when \<open>getsockname\<close> fails, that
  socket is closed too. But when no address works and a socket had been opened, the
  last one is closed twice: by then the descriptor may belong to another thread's file. A listener
  with an unassigned address or port is the one case without a result.
\<close>

theorem fpx_listener_bind_sockets:
  assumes "errno_set N" "resolver_ok N"
  shows "case (ls_addr l, ls_port l) of
      (Some addr, Some port) \<Rightarrow>
        (\<exists>err l' st' tr. fpx_listener_bind N l st = Some (err, l', st') \<and> ns_trace st' = ns_trace st @ tr \<and>
          (case n_getaddrinfo N addr port (ls_family l) (ns_os st) of (rv, rps, os) \<Rightarrow>
            if rv \<noteq> 0 then err = n_errno N os \<and> l' = l \<and> tr = []
            else if fst (bind_loop N rps FPX_INVALID_SOCKET None (st\<lparr>ns_os := os\<rparr>)) then
              \<exists>us fd. paired us \<and> (err = FPX_OK \<and> ls_fd l' = fd \<and> tr = us @ [NOpen fd] \<or>
                ls_fd l' = ls_fd l \<and> tr = us @ [NOpen fd, NClose fd])
            else l' = l \<and> (tr = [] \<or> (\<exists>us fd. paired us \<and> tr = us @ [NOpen fd, NClose fd, NClose fd]))))
    | _ \<Rightarrow> fpx_listener_bind N l st = None"
proof (cases "ls_addr l = None \<or> ls_port l = None")
  case True
  then show ?thesis by (auto simp: fpx_listener_bind_def split: option.splits)
next
  case False
  then obtain addr port where l: "ls_addr l = Some addr" "ls_port l = Some port" by auto
  obtain rv rps os where g: "n_getaddrinfo N addr port (ls_family l) (ns_os st) = (rv, rps, os)" by (metis prod_cases3)
  show ?thesis
  proof (cases "rv = 0")
    case True
    then have "rps \<noteq> []"
      using assms(2) [unfolded resolver_ok_def, rule_format, of addr port "ls_family l" "ns_os st"] g by simp
    then obtain rp rps' where "rps = rp # rps'" by (cases rps) auto
    with listener_bind_addresses [OF assms(1) l, of st rp rps' os] g l True show ?thesis by simp
  next
    case False
    then show ?thesis using g l by (simp add: fpx_listener_bind_def)
  qed
qed

text \<open>A system in which every socket is number 3 and no address can be bound.\<close>

definition no_bind_net :: "unit net" where
  "no_bind_net = \<lparr>n_errno = (\<lambda>_. 98), n_socket = (\<lambda>_ _ _ os. (3, os)), n_setsockopt = (\<lambda>_ _ os. (0, os)),
     n_getfl = (\<lambda>_ _. 2), n_setfl = (\<lambda>_ _ os. (0, os)), n_bind = (\<lambda>_ _ os. (-1, os)), n_listen = (\<lambda>_ _ os. (0, os)),
     n_accept = (\<lambda>_ _ os. (-1, [], os)), n_connect = (\<lambda>_ _ os. (-1, os)), n_shutdown = (\<lambda>_ _ os. (0, os)),
     n_close = (\<lambda>_ os. os), n_getaddrinfo = (\<lambda>_ _ _ os. (0, [\<lparr>ai_family = 2, ai_socktype = 1, ai_protocol = 6, ai_addr = []\<rparr>], os)),
     n_getsockname = (\<lambda>_ os. (0, [], os))\<rparr>"

definition demo_listener :: listener where
  "demo_listener = snd (fpx_listener_init_ipv4 (Some [0x31]) (Some [0x38]))"

theorem fpx_listener_bind_sockets_witness:
  "\<exists>err l' st' tr. fpx_listener_bind no_bind_net demo_listener \<lparr>ns_os = (), ns_trace = []\<rparr> = Some (err, l', st') \<and>
     ns_trace st' = tr \<and> tr = [NOpen 3, NClose 3, NClose 3]"
proof -
  let ?st = "\<lparr>ns_os = (), ns_trace = []\<rparr>"
  have h: "errno_set no_bind_net" "resolver_ok no_bind_net" "ls_addr demo_listener = Some [0x31]" "ls_port demo_listener = Some [0x38]"
    by (simp_all add: errno_set_def resolver_ok_def no_bind_net_def FPX_OK_def demo_listener_def fpx_listener_init_ipv4_def)
  obtain err l' st' where r: "fpx_listener_bind no_bind_net demo_listener ?st = Some (err, l', st')"
    using fpx_listener_bind_sockets [OF h(1,2), of demo_listener ?st] h(3,4) by auto
  moreover have "ns_trace st' = [NOpen 3, NClose 3, NClose 3]"
    using r by (auto simp: fpx_listener_bind_def no_bind_net_def demo_listener_def fpx_listener_init_ipv4_def
        Let_def fpx_socket_init_def FPX_INVALID_SOCKET_def option_traces sys_result_def FPX_OK_def
        FPX_MAX_BIND_ATTEMPTS_def numeral_3_eq_3)
  ultimately show ?thesis by blast
qed

end
