(* ===== verification/Fpx_Connection.thy ===== *)
theory Fpx_Connection
  imports Fpx_Net Fpx_Pool
begin

text \<open>
  Connections with their pools (\<open>src/core/connection.c\<close>): creating, clearing and destroying a
  connection, which puts the sockets of theory \<open>Fpx_Net\<close> and the pools of theory
  \<open>Fpx_Pool\<close> together. The two states are separate: a pool opens no socket, and a socket takes
  no memory from a pool.
\<close>

section \<open>Operations\<close>

record conn = connect +
  co_pool :: addr

definition zero_conn :: conn where
  "zero_conn = \<lparr>co_type_id = False, co_fd = 0, co_sockaddr = [], co_owner = None, co_pool = NULL\<rparr>"

definition fpx_connection_init :: "world \<Rightarrow> (fpx_err_t \<times> conn \<times> world) option" where
  "fpx_connection_init w =
     (case fpx_pool_create w 0 NULL of
        None \<Rightarrow> None
      | Some (err, pool, w) \<Rightarrow>
          if err \<noteq> FPX_OK then Some (err, zero_conn, w)
          else Some (FPX_OK, zero_conn\<lparr>co_type_id := FPX_CONNECTION_ID \<noteq> 0, co_fd := FPX_INVALID_SOCKET, co_pool := pool\<rparr>, w))"

text \<open>Closing, for a connection with its pool.\<close>

definition conn_close :: "'os net \<Rightarrow> conn \<Rightarrow> 'os nst \<Rightarrow> conn \<times> 'os nst" where
  "conn_close N c st =
     (case fpx_connection_close N (connect.truncate c) st of (c', st) \<Rightarrow> (connect.extend c' \<lparr>co_pool = co_pool c\<rparr>, st))"

definition fpx_connection_clear :: "'os net \<Rightarrow> conn \<Rightarrow> world \<Rightarrow> 'os nst \<Rightarrow> (conn \<times> world \<times> 'os nst) option" where
  "fpx_connection_clear N c w st =
     (case conn_close N c st of (c, st) \<Rightarrow> map_option (\<lambda>w. (c, w, st)) (fpx_pool_clear w (co_pool c)))"

definition fpx_connection_destroy :: "'os net \<Rightarrow> conn \<Rightarrow> world \<Rightarrow> 'os nst \<Rightarrow> (conn \<times> world \<times> 'os nst) option" where
  "fpx_connection_destroy N c w st =
     (case conn_close N c st of (c, st) \<Rightarrow> map_option (\<lambda>w. (c, w, st)) (fpx_pool_destroy w (co_pool c)))"

section \<open>Using a connection again\<close>

lemma conn_close_eq:
  "\<exists>os. conn_close N c st =
     (if co_fd c \<noteq> FPX_INVALID_SOCKET
      then (c\<lparr>co_fd := FPX_INVALID_SOCKET\<rparr>, \<lparr>ns_os = os, ns_trace = ns_trace st @ [NClose (co_fd c)]\<rparr>) else (c, st))"
  by (cases c; cases st) (auto simp: conn_close_def fpx_connection_close_def fpx_socket_close_def fpx_socket_shutdown_def
      sys_result_def connect.truncate_def connect.extend_def split: prod.splits)

lemma conn_close_closed [simp]: "co_fd c = FPX_INVALID_SOCKET \<Longrightarrow> conn_close N c st = (c, st)"
  using conn_close_eq [of N c st] by simp

text \<open>
  C24 (fpx_connection_recycled). A connection that is cleared can be used again: its socket is closed
  once and marked as closed, the handlers of its pool and of the pools below are run once each, and
  the pool is there with every node reset, so that the memory it has free is all of its memory; a
  request that fits one of its nodes is then served from the beginning of such a node, without
  new memory from the system. Clearing the connection again closes nothing. A
  connection whose initialisation failed, however, has the descriptor 0 for its socket, and
  closing it closes the standard input.
\<close>

theorem fpx_connection_recycled:
  assumes "tree_ok (w_pools w) (w_thread w) (Pool (co_pool c) ts)" "distinct (addrs (Pool (co_pool c) ts))"
    and "freeable w (tree_calls (w_pools w) (Pool (co_pool c) ts))"
    and "fpx_connection_init w0 = Some (err, bad, w1)" "err \<noteq> FPX_OK"
  shows "(\<exists>c' w' st'. fpx_connection_clear N c w st = Some (c', w', st') \<and> c' = c\<lparr>co_fd := FPX_INVALID_SOCKET\<rparr> \<and>
      ns_trace st' = ns_trace st @ (if co_fd c \<noteq> FPX_INVALID_SOCKET then [NClose (co_fd c)] else []) \<and>
      w_calls w' = w_calls w @ tree_calls (w_pools w) (Pool (co_pool c) ts) \<and>
      (\<exists>pool pool'. w_pools w (co_pool c) = Some pool \<and> w_pools w' (co_pool c) = Some pool' \<and> emptied pool pool' \<and>
         (\<forall>sz. fits (w_page w) pool sz \<longrightarrow>
            (\<exists>w2 m. fpx_palloc1 w' (co_pool c) sz = Some (w2, mn_begin m) \<and> m \<in> set (concat (p_nodes pool)) \<and>
               w_live w2 = w_live w'))) \<and>
      conn_close N c' st' = (c', st')) \<and>
    ns_trace (snd (conn_close N bad st)) = ns_trace st @ [NClose 0]"
proof -
  obtain os where cl: "conn_close N c st =
     (if co_fd c \<noteq> FPX_INVALID_SOCKET
      then (c\<lparr>co_fd := FPX_INVALID_SOCKET\<rparr>, \<lparr>ns_os = os, ns_trace = ns_trace st @ [NClose (co_fd c)]\<rparr>) else (c, st))"
    using conn_close_eq [of N c st] by blast
  obtain pool where pool: "w_pools w (co_pool c) = Some pool" using assms(1) by auto
  define w' where "w' = clear_world (addrs (Pool (co_pool c) ts)) (tree_calls (w_pools w) (Pool (co_pool c) ts)) w"
  have pc: "fpx_pool_clear w (co_pool c) = Some w'"
    using pool_clear_tree [OF assms(1-3)] by (simp add: fpx_pool_clear_def w'_def)
  have w': "w_pools w' (co_pool c) = Some (clear_pool pool)" "w_page w' = w_page w"
    "w_calls w' = w_calls w @ tree_calls (w_pools w) (Pool (co_pool c) ts)"
    using pool by (simp_all add: w'_def clear_world_def)
  have p: "\<exists>pool pool'. w_pools w (co_pool c) = Some pool \<and> w_pools w' (co_pool c) = Some pool' \<and> emptied pool pool' \<and>
         (\<forall>sz. fits (w_page w) pool sz \<longrightarrow>
            (\<exists>w2 m. fpx_palloc1 w' (co_pool c) sz = Some (w2, mn_begin m) \<and> m \<in> set (concat (p_nodes pool)) \<and>
               w_live w2 = w_live w'))"
    using pool w'(1,2) clear_pool_emptied palloc_cleared [OF w'(1)] by auto
  have "co_fd bad = 0" using assms(4,5) by (auto simp: fpx_connection_init_def zero_conn_def split: option.splits if_splits)
  then have b: "ns_trace (snd (conn_close N bad st)) = ns_trace st @ [NClose 0]"
    using conn_close_eq [of N bad st] by (auto simp: FPX_INVALID_SOCKET_def)
  have same: "c\<lparr>co_fd := FPX_INVALID_SOCKET\<rparr> = c" if "co_fd c = FPX_INVALID_SOCKET" using that by (cases c) simp
  show ?thesis
    using b cl pc w'(3) p same
    by (cases "co_fd c = FPX_INVALID_SOCKET") (simp_all add: fpx_connection_clear_def)
qed

theorem fpx_connection_recycled_witness:
  "\<exists>c' w' st'. fpx_connection_clear no_bind_net
      \<lparr>co_type_id = True, co_fd = 5, co_sockaddr = [], co_owner = None, co_pool = 4144\<rparr> tree_demo \<lparr>ns_os = (), ns_trace = []\<rparr> =
      Some (c', w', st') \<and> ns_trace st' = [NClose 5] \<and> co_fd c' = -1 \<and>
      (\<exists>w2 mem. fpx_palloc1 w' 4144 100 = Some (w2, mem) \<and> w_live w2 = w_live w')"
proof -
  let ?c = "\<lparr>co_type_id = True, co_fd = 5, co_sockaddr = [], co_owner = None, co_pool = 4144\<rparr> :: conn"
    and ?t = "Pool 4144 [Pool 8256 []]" and ?st = "\<lparr>ns_os = (), ns_trace = []\<rparr>"
  have c: "tree_calls (w_pools tree_demo) ?t = [(9, 7), (1, 20000), (9, 3)]"
    by (simp add: tree_demo_def cleanup_calls_def)
  have t: "tree_ok (w_pools tree_demo) (w_thread tree_demo) ?t" "distinct (addrs ?t)"
    by (simp_all add: tree_demo_def demo_pool_def demo_world_def world0_def)
  have f: "freeable tree_demo (tree_calls (w_pools tree_demo) ?t)"
    unfolding c by (auto simp: freeable_def fpx_free_handler_def tree_demo_def in_block_def split: if_splits)
  let ?w0 = "world0\<lparr>w_malloc := \<lambda>_ _. NULL\<rparr>"
  have a: "unat (fpx_align_allocation 0) + 264 < 81920" "fpx_align_allocation 0 \<noteq> 0"
    using fpx_align_allocation_small(2) [of 0] by (simp_all add: fpx_align_allocation_unat)
  have m: "fpx_memnode_allocate ?w0 n = (?w0, None)" for n
    by (simp add: fpx_memnode_allocate_def fpx_malloc1_def)
  have "fpx_pool_create ?w0 0 NULL = Some (12, NULL, ?w0)"
    by (rule trans [OF fpx_pool_create_eq(1) [OF _ _ a]]) (simp_all only: m prod.case option.case, simp_all add: world0_def)
  then have i: "fpx_connection_init ?w0 = Some (12, zero_conn, ?w0)"
    by (simp add: fpx_connection_init_def FPX_OK_def)
  let ?p = "demo_pool\<lparr>p_nodes := full_nodes, p_child := 8256, p_cleanups :=
         [\<lparr>cn_addr = 4448, cn_data = 7, cn_handler = 9\<rparr>, \<lparr>cn_addr = 4424, cn_data = 20000, cn_handler = 1\<rparr>]\<rparr>"
  have g: "w_pools tree_demo 4144 = Some ?p" "w_page tree_demo = 4096"
    by (simp_all add: tree_demo_def demo_world_def world0_def)
  have "fits 4096 ?p 100" by code_simp
  then show ?thesis
    using fpx_connection_recycled [of tree_demo ?c "[Pool 8256 []]" ?w0 12 zero_conn ?w0 no_bind_net ?st] t f i
    by (auto simp: FPX_OK_def FPX_INVALID_SOCKET_def g)
qed

end
