(* ===== verification/Fpx_Win32.thy ===== *)
theory Fpx_Win32
  imports Fpx_Filesys Fpx_Utf8
begin

unbundle bit_operations_syntax

text \<open>
  The Windows part of \<open>src/system/filesys.c\<close> over a record of the calls it makes: files,
  directories and patterns. Paths go through \<open>fpx_path_to_wchar\<close> (theory \<open>Fpx_Utf8\<close>); a path that it
  does not convert leaves the buffer without a terminator, and passing it on is undefined. Values
  that the code leaves unassigned are the parameters called \<open>junk\<close>.
\<close>

section \<open>Calls\<close>

type_synonym handle = "64 word"

definition INVALID_HANDLE_VALUE :: handle where "INVALID_HANDLE_VALUE = -1"
definition MAX_PATH :: nat where "MAX_PATH = 260"
definition E2BIG :: fpx_err_t where "E2BIG = 7"
definition ERROR_NO_MORE_FILES :: fpx_err_t where "ERROR_NO_MORE_FILES = 18"
definition FILE_ATTRIBUTE_DIRECTORY :: "32 word" where "FILE_ATTRIBUTE_DIRECTORY = 0x10"
definition backslash :: byte where "backslash = 0x5C"

record wstat =
  ws_attributes :: "32 word"
  ws_times :: "64 word \<times> 64 word \<times> 64 word"
  ws_size_high :: "32 word"
  ws_size_low :: "32 word"

text \<open>
  The third argument of reading and writing is the offset from the structure \<open>OVERLAPPED\<close>;
  an enumeration gives the name of the entry it has found.
\<close>

record 'os win =
  w_errno :: "'os \<Rightarrow> fpx_err_t"
  w_create :: "16 word list \<Rightarrow> 32 word \<Rightarrow> 32 word \<Rightarrow> 'os \<Rightarrow> handle \<times> 'os"
  w_read :: "handle \<Rightarrow> 32 word \<Rightarrow> (32 word \<times> 32 word) option \<Rightarrow> 'os \<Rightarrow> byte list option \<times> 'os"
  w_write :: "handle \<Rightarrow> byte list \<Rightarrow> (32 word \<times> 32 word) option \<Rightarrow> 'os \<Rightarrow> 32 word option \<times> 'os"
  w_size :: "handle \<Rightarrow> 'os \<Rightarrow> int \<times> 64 word"
  w_close :: "handle \<Rightarrow> 'os \<Rightarrow> 'os"
  w_attributes :: "16 word list \<Rightarrow> 'os \<Rightarrow> wstat option"
  w_information :: "handle \<Rightarrow> 'os \<Rightarrow> wstat option"
  w_find_first :: "byte list \<Rightarrow> 'os \<Rightarrow> (handle \<times> path) \<times> 'os"
  w_find_next :: "handle \<Rightarrow> 'os \<Rightarrow> path option \<times> 'os"
  w_find_close :: "handle \<Rightarrow> 'os \<Rightarrow> 'os"

section \<open>Files\<close>

definition win_stat_get_file_type :: "wstat \<Rightarrow> 64 word" where
  "win_stat_get_file_type stat =
     (let type = 0;
          type = (if ws_attributes stat AND FILE_ATTRIBUTE_DIRECTORY \<noteq> 0 then 2 else type);
          type = (if \<not> (ws_attributes stat AND FILE_ATTRIBUTE_DIRECTORY \<noteq> 0) then 1 else type)
      in type)"

record win_file =
  wf_fd :: handle
  wf_name :: "path option"
  wf_offset :: size_t

definition zero_wfile :: win_file where
  "zero_wfile = \<lparr>wf_fd = 0, wf_name = None, wf_offset = 0\<rparr>"

text \<open>The text that is passed on, when the whole path has been converted.\<close>

definition wide :: "path \<Rightarrow> 16 word list option" where
  "wide path = (case wpath_of MAX_PATH (path @ [0]) of Some (True, w) \<Rightarrow> Some w | _ \<Rightarrow> None)"

definition win_file_open :: "'os win \<Rightarrow> path \<Rightarrow> 32 word \<Rightarrow> 32 word \<Rightarrow> 'os \<Rightarrow> (fpx_err_t \<times> win_file \<times> 'os) option" where
  "win_file_open W path mode create os = do {
     wpath \<leftarrow> wide path;
     let (fd, os) = w_create W wpath mode create os;
     Some (if fd = INVALID_HANDLE_VALUE then (w_errno W os, zero_wfile, os)
           else (FPX_OK, \<lparr>wf_fd = fd, wf_name = Some path, wf_offset = 0\<rparr>, os))
   }"

text \<open>Only the low half of the offset is stored; \<open>junk\<close> is the high half.\<close>

definition win_file_read :: "'os win \<Rightarrow> 32 word \<Rightarrow> win_file \<Rightarrow> size_t \<Rightarrow> size_t \<Rightarrow> 'os \<Rightarrow>
    int \<times> byte list \<times> win_file \<times> 'os" where
  "win_file_read W junk file sz offset os =
     (case w_read W (wf_fd file) (ucast sz) (Some (junk, ucast offset)) os of
        (None, os) \<Rightarrow> (-1, [], file, os)
      | (Some bs, os) \<Rightarrow> (int (length bs), bs, file\<lparr>wf_offset := wf_offset file + of_nat (length bs)\<rparr>, os))"

definition win_file_write :: "'os win \<Rightarrow> 32 word \<Rightarrow> win_file \<Rightarrow> byte list \<Rightarrow> size_t \<Rightarrow> 'os \<Rightarrow> int \<times> win_file \<times> 'os" where
  "win_file_write W junk file buf offset os =
     (let sz = of_nat (length buf) :: size_t in
      case w_write W (wf_fd file) (take (unat (ucast sz :: 32 word)) buf) (Some (junk, ucast offset)) os of
        (None, os) \<Rightarrow> (-1, file, os)
      | (Some n, os) \<Rightarrow>
          if (ucast n :: size_t) \<noteq> sz then (-1, file, os)
          else (int (unat n), file\<lparr>wf_offset := wf_offset file + ucast n\<rparr>, os))"

definition win_file_size :: "'os win \<Rightarrow> win_file \<Rightarrow> 'os \<Rightarrow> int" where
  "win_file_size W file os = (case w_size W (wf_fd file) os of (r, n) \<Rightarrow> if r \<noteq> 1 then -1 else sint n)"

text \<open>The variant for 32-bit systems, where \<open>ssize_t\<close> has 32 bits, over the result of \<open>GetFileSize\<close>.\<close>

definition win32_file_size :: "(handle \<Rightarrow> 'os \<Rightarrow> 32 word) \<Rightarrow> win_file \<Rightarrow> 'os \<Rightarrow> int" where
  "win32_file_size get_file_size file os =
     (let size = get_file_size (wf_fd file) os in if size = 0xFFFFFFFF then -1 else sint size)"

definition win_read_fd :: "'os win \<Rightarrow> handle \<Rightarrow> size_t \<Rightarrow> 'os \<Rightarrow> int \<times> byte list \<times> 'os" where
  "win_read_fd W fd sz os =
     (case w_read W fd (ucast sz) None os of (None, os) \<Rightarrow> (-1, [], os) | (Some bs, os) \<Rightarrow> (int (length bs), bs, os))"

definition win_write_fd :: "'os win \<Rightarrow> handle \<Rightarrow> byte list \<Rightarrow> 'os \<Rightarrow> int \<times> 'os" where
  "win_write_fd W fd buf os =
     (case w_write W fd (take (unat (ucast (of_nat (length buf) :: size_t) :: 32 word)) buf) None os of
        (None, os) \<Rightarrow> (-1, os) | (Some n, os) \<Rightarrow> (int (unat n), os))"

text \<open>When the call fails the caller's structure keeps what it held.\<close>

definition win_file_stat_by_path :: "'os win \<Rightarrow> wstat \<Rightarrow> path \<Rightarrow> 'os \<Rightarrow> (fpx_err_t \<times> wstat) option" where
  "win_file_stat_by_path W stat path os = do {
     wpath \<leftarrow> wide path;
     Some (case w_attributes W wpath os of None \<Rightarrow> (w_errno W os, stat) | Some st \<Rightarrow> (FPX_OK, st))
   }"

record win_info =
  wi_type :: "64 word"
  wi_access :: "64 word"
  wi_stat :: wstat

definition win_file_info_by_path :: "'os win \<Rightarrow> win_info \<Rightarrow> path \<Rightarrow> 'os \<Rightarrow> (fpx_err_t \<times> win_info) option" where
  "win_file_info_by_path W info path os = do {
     (err, stat) \<leftarrow> win_file_stat_by_path W (wi_stat info) path os;
     Some (if err \<noteq> FPX_OK then (err, info\<lparr>wi_stat := stat\<rparr>)
           else (FPX_OK, \<lparr>wi_type = win_stat_get_file_type stat, wi_access = 0, wi_stat = stat\<rparr>))
   }"

text \<open>The result of the call, which is 0 when it fails, is compared with -1.\<close>

definition win_file_info :: "'os win \<Rightarrow> win_info \<Rightarrow> win_file \<Rightarrow> 'os \<Rightarrow> fpx_err_t \<times> win_info" where
  "win_file_info W info file os =
     (let (r, stat) = (case w_information W (wf_fd file) os of None \<Rightarrow> (0, wi_stat info) | Some st \<Rightarrow> (1 :: int, st)) in
      if r = -1 then (w_errno W os, info\<lparr>wi_stat := stat\<rparr>)
      else (FPX_OK, \<lparr>wi_type = win_stat_get_file_type stat, wi_access = 0, wi_stat = stat\<rparr>))"

definition win_file_close :: "'os win \<Rightarrow> win_file option \<Rightarrow> 'os \<Rightarrow> win_file option \<times> 'os" where
  "win_file_close W file os =
     (case file of
        None \<Rightarrow> (None, os)
      | Some f \<Rightarrow> (Some (f\<lparr>wf_fd := INVALID_HANDLE_VALUE, wf_name := None, wf_offset := 0\<rparr>), w_close W (wf_fd f) os))"

section \<open>Directories and patterns\<close>

record win_dir =
  wd_dir :: handle
  wd_find :: path
  wd_name :: "path option"
  wd_type :: "8 word"

text \<open>
  The pattern is built in \<open>str\<close>, which has \<open>MAX_PATH + 3\<close> bytes; a store behind it is
  undefined. Opening a directory consumes the first entry of the enumeration.
\<close>

definition win_dir_open :: "'os win \<Rightarrow> byte list \<Rightarrow> 'os \<Rightarrow> (fpx_err_t \<times> win_dir \<times> 'os) option" where
  "win_dir_open W path os = do {
     len \<leftarrow> fpx_strlen path;
     let dir = \<lparr>wd_dir = 0, wd_find = [], wd_name = None, wd_type = 0\<rparr>;
     if len \<ge> MAX_PATH + 3 then Some (E2BIG, dir, os)
     else
       let str = take len path @ [backslash, 0x2A, 0] in
       if length str > MAX_PATH + 3 then None
       else
         let ((h, name), os) = w_find_first W (take len path @ [backslash, 0x2A]) os; dir = dir\<lparr>wd_dir := h\<rparr> in
         Some (if h = INVALID_HANDLE_VALUE then (if w_errno W os \<noteq> FPX_OK then w_errno W os else FPX_DONE, dir, os)
               else (FPX_OK, dir\<lparr>wd_find := name, wd_name := Some (take len path)\<rparr>, os))
   }"

text \<open>
  The full path of the entry goes into a buffer of \<open>MAX_PATH\<close> bytes. The result of asking for its
  attributes is ignored: when that fails the type is that of the unassigned \<open>junk\<close>.
\<close>

definition win_dir_read :: "'os win \<Rightarrow> wstat \<Rightarrow> win_dir \<Rightarrow> 'os \<Rightarrow> (fpx_err_t \<times> win_dir \<times> 'os) option" where
  "win_dir_read W junk dir os =
     (case w_find_next W (wd_dir dir) os of
        (None, os) \<Rightarrow>
          (let err = w_errno W os in
           Some (if err \<noteq> FPX_OK \<and> err \<noteq> ERROR_NO_MORE_FILES then (err, dir, os) else (FPX_DONE, dir, os)))
      | (Some name, os) \<Rightarrow> do {
          let dir = dir\<lparr>wd_find := name\<rparr>;
          path \<leftarrow> wd_name dir;
          (n, full) \<leftarrow> full_path backslash MAX_PATH (path @ [0]) (name @ [0]);
          (_, stat) \<leftarrow> win_file_stat_by_path W junk (take n full) os;
          Some (FPX_OK, dir\<lparr>wd_type := ucast (win_stat_get_file_type stat)\<rparr>, os)
        })"

definition win_dir_close :: "'os win \<Rightarrow> win_dir option \<Rightarrow> 'os \<Rightarrow> 'os" where
  "win_dir_close W dir os = (case dir of None \<Rightarrow> os | Some d \<Rightarrow> w_find_close W (wd_dir d) os)"

definition win_dir_current_name :: "win_dir \<Rightarrow> path" where
  "win_dir_current_name dir = wd_find dir"

text \<open>\<open>last_res\<close> points into \<open>finddata\<close>, so that it always names the entry found last.\<close>

record win_glob =
  wg_dir :: handle
  wg_find :: path
  wg_pattern :: path
  wg_done :: bool
  wg_prefix_len :: nat

fun last_backslash :: "byte list \<Rightarrow> nat \<Rightarrow> nat option" where
  "last_backslash pattern i = do {
     c \<leftarrow> rd pattern i;
     if c = backslash then Some i
     else (case i of 0 \<Rightarrow> Some 0 | Suc j \<Rightarrow> last_backslash pattern j)
   }"

text \<open>On failure the other members of the caller's structure stay as they were.\<close>

definition win_glob_open :: "'os win \<Rightarrow> win_glob \<Rightarrow> byte list \<Rightarrow> 'os \<Rightarrow> (fpx_err_t \<times> win_glob \<times> 'os) option" where
  "win_glob_open W gl pattern os = do {
     n \<leftarrow> fpx_strlen pattern;
     let ((h, name), os) = w_find_first W (take n pattern) os;
     let gl = gl\<lparr>wg_dir := h, wg_find := name\<rparr>;
     if h = INVALID_HANDLE_VALUE then Some (FPX_FAILED, gl, os)
     else do {
       len \<leftarrow> last_backslash pattern n;
       Some (if len = 0 then (FPX_ERR_FILESYS_ABS_PATH, gl, os)
             else (FPX_OK, gl\<lparr>wg_prefix_len := len + 1, wg_pattern := pattern, wg_done := False\<rparr>, os))
     }
   }"

definition win_glob_read :: "'os win \<Rightarrow> win_glob \<Rightarrow> 'os \<Rightarrow> fpx_err_t \<times> path \<times> win_glob \<times> 'os" where
  "win_glob_read W gl os =
     (if wg_done gl then (FPX_DONE, [], gl, os)
      else
        let len = wg_prefix_len gl + length (wg_find gl) + 1 in
        if MAX_PATH < len then (FPX_ERR_FILESYS_LONG_PATH, [], gl, os)
        else
          let res = take (wg_prefix_len gl) (wg_pattern gl) @ wg_find gl in
          case w_find_next W (wg_dir gl) os of
            (Some name, os) \<Rightarrow>
              (let err = w_errno W os; gl = gl\<lparr>wg_find := name\<rparr> in
               if err \<noteq> FPX_OK \<and> err \<noteq> ERROR_NO_MORE_FILES then (err, res, gl\<lparr>wg_done := True\<rparr>, os)
               else (FPX_OK, res, gl, os))
          | (None, os) \<Rightarrow> (FPX_OK, res, gl\<lparr>wg_done := True\<rparr>, os))"

definition win_glob_close :: "'os win \<Rightarrow> win_glob \<Rightarrow> 'os \<Rightarrow> 'os" where
  "win_glob_close W gl os = w_find_close W (wg_dir gl) os"

section \<open>Absolute paths\<close>

text \<open>The tests are made one after the other, as \<open>&&\<close> does.\<close>

definition starts_with :: "byte list \<Rightarrow> (byte \<Rightarrow> bool) list \<Rightarrow> bool option" where
  "starts_with path tests = foldr (\<lambda>(i, t) k. do {
     c \<leftarrow> rd path i;
     if t c then k else Some False
   }) (enumerate 0 tests) (Some True)"

definition win_check_absolute_path :: "byte list \<Rightarrow> fpx_err_t option" where
  "win_check_absolute_path path = do {
     drive \<leftarrow> starts_with path [fpx_isalpha, (=) 0x3A, (=) backslash];
     if drive then Some FPX_OK
     else do {
       unc \<leftarrow> starts_with path [(=) backslash, (=) backslash];
       Some (if unc then FPX_OK else FPX_ERR_FILESYS_ABS_PATH)
     }
   }"

section \<open>Large files and lost errors\<close>

text \<open>
  What the Windows file functions lose. Reading at an offset behind 4 GiB
  reads where the offset modulo 4 GiB says, because only its low half is passed on; writing
  4 GiB or more at once is reported as a failure, whatever has been written; and
  \<open>fpx_file_info\<close> never reports an error: after a failed call it gives the type that the
  caller's structure happened to hold.
\<close>

theorem win_file_limits:
  "win_file_read W junk file sz (off + push_bit 32 k) os = win_file_read W junk file sz off os \<and>
   (2 ^ 32 \<le> length buf \<and> length buf < 2 ^ 64 \<longrightarrow> fst (win_file_write W junk file buf off os) = -1) \<and>
   fst (win_file_info W info file os) = FPX_OK \<and>
   (w_information W (wf_fd file) os = None \<longrightarrow>
      wi_type (snd (win_file_info W info file os)) = win_stat_get_file_type (wi_stat info))"
proof (intro conjI impI)
  have "(ucast (off + push_bit 32 k) :: 32 word) = ucast off"
  proof -
    have "uint (ucast (off + push_bit 32 k) :: 32 word) = take_bit 32 (take_bit 64 (uint off + uint (push_bit 32 k)))"
      by (simp only: unsigned_ucast_eq uint_word_ariths take_bit_eq_mod) (simp add: uint_word_ariths mod_mod_cancel flip: take_bit_eq_mod)
    also have "\<dots> = take_bit 32 (take_bit 32 (uint off) + take_bit 32 (uint (push_bit 32 k)))"
      by (simp add: take_bit_add)
    also have "take_bit 32 (uint (push_bit 32 k)) = 0" by (simp add: unsigned_push_bit_eq take_bit_push_bit)
    finally show ?thesis by (simp add: word_uint_eq_iff unsigned_ucast_eq)
  qed
  then show "win_file_read W junk file sz (off + push_bit 32 k) os = win_file_read W junk file sz off os"
    by (simp add: win_file_read_def)
  assume l: "2 ^ 32 \<le> length buf \<and> length buf < 2 ^ 64"
  have "(ucast (n :: 32 word) :: size_t) \<noteq> of_nat (length buf)" for n
  proof
    assume "(ucast n :: size_t) = of_nat (length buf)"
    then have "unat (ucast n :: size_t) = length buf" using l by (simp add: unsigned_of_nat take_bit_eq_mod)
    moreover have n: "unat n < 2 ^ LENGTH(32)" by (rule unsigned_less)
    then have "unat (ucast n :: size_t) = unat n" by (simp only: unsigned_ucast_eq) (rule take_bit_nat_eq_self, simp)
    ultimately show False using l n by simp
  qed
  then show "fst (win_file_write W junk file buf off os) = -1"
    by (auto simp: win_file_write_def Let_def split: prod.splits option.splits)
qed (simp_all add: win_file_info_def Let_def split: option.splits)

text \<open>A system in which every call fails.\<close>

definition no_win :: "unit win" where
  "no_win = \<lparr>w_errno = (\<lambda>_. 5), w_create = (\<lambda>_ _ _ os. (INVALID_HANDLE_VALUE, os)), w_read = (\<lambda>_ _ _ os. (None, os)),
     w_write = (\<lambda>_ _ _ os. (None, os)), w_size = (\<lambda>_ _. (0, 0)), w_close = (\<lambda>_ os. os), w_attributes = (\<lambda>_ _. None),
     w_information = (\<lambda>_ _. None), w_find_first = (\<lambda>_ os. ((INVALID_HANDLE_VALUE, []), os)),
     w_find_next = (\<lambda>_ os. (None, os)), w_find_close = (\<lambda>_ os. os)\<rparr>"

definition stale_info :: win_info where
  "stale_info = \<lparr>wi_type = 0, wi_access = 0,
     wi_stat = \<lparr>ws_attributes = 0x10, ws_times = (0, 0, 0), ws_size_high = 0, ws_size_low = 0\<rparr>\<rparr>"

theorem win_file_limits_witness:
  "fst (win_file_write no_win 0 zero_wfile (replicate (2 ^ 32) 0) 0 ()) = -1 \<and>
   wi_type (snd (win_file_info no_win stale_info zero_wfile ())) = 2"
proof -
  have "2 ^ 32 \<le> length (replicate (2 ^ 32) (0 :: byte)) \<and> length (replicate (2 ^ 32) (0 :: byte)) < 2 ^ 64"
    unfolding length_replicate by simp
  moreover have "w_information no_win (wf_fd zero_wfile) () = None" by (simp add: no_win_def)
  moreover have "win_stat_get_file_type (wi_stat stale_info) = 2" by code_simp
  ultimately show ?thesis using win_file_limits [of no_win 0 zero_wfile 0 0 0 "()" "replicate (2 ^ 32) 0" stale_info]
    by (intro conjI) (blast, metis)
qed

section \<open>Plain paths\<close>

definition plain :: "path \<Rightarrow> bool" where
  "plain s \<longleftrightarrow> list_all (\<lambda>c. c \<noteq> 0 \<and> c < 0x80) s"

lemma plain_no_zero: "plain s \<Longrightarrow> 0 \<notin> set s"
  by (auto simp: plain_def list_all_iff)

lemma strlen_app: "0 \<notin> set p \<Longrightarrow> fpx_strlen (p @ [0]) = Some (length p)"
  using fpx_strlen_cstr [of "p @ [0]" p] by simp

lemma plain_codes:
  assumes "plain s"
  shows "list_all code_point (map unat s)" "utf8 (map unat s) = s" "units (map unat s) = map ucast s"
proof -
  have b: "c \<noteq> 0 \<Longrightarrow> c < 0x80 \<Longrightarrow> 0 < unat c \<and> unat c < 0x80" for c :: byte
    by (simp add: word_less_nat_alt unat_gt_0)
  show "list_all code_point (map unat s)"
    using assms b by (fastforce simp: plain_def list_all_iff code_point_def)
  show "utf8 (map unat s) = s"
    using assms b by (induction s) (auto simp: plain_def utf8_def enc8_def)
  have e: "(of_nat (unat c) :: 16 word) = ucast c" for c :: byte by simp
  show "units (map unat s) = map ucast s"
    using assms b by (induction s) (fastforce simp: plain_def units_def enc16_def e)+
qed

lemma wide_plain:
  assumes "plain s" "length s < MAX_PATH"
  shows "wide s = Some (map ucast s @ [0])"
  using wchar_loop_utf8 [OF plain_codes(1) [OF assms(1)], of "[]" "2 * MAX_PATH" MAX_PATH "[]"] assms(2)
  by (simp add: plain_codes(2,3) [OF assms(1)] wide_def wpath_of_def fpx_path_to_wchar_def)

section \<open>Listing a directory\<close>

text \<open>
  The entries that an enumeration still gives, before it reports its end. The two lists below
  are the loops of a caller, who goes on while the result is \<open>FPX_OK\<close>.
\<close>

fun finds :: "'os win \<Rightarrow> handle \<Rightarrow> 'os \<Rightarrow> path list \<Rightarrow> bool" where
  "finds W h os [] \<longleftrightarrow> (\<exists>os'. w_find_next W h os = (None, os') \<and> w_errno W os' = ERROR_NO_MORE_FILES)"
| "finds W h os (n # ns) \<longleftrightarrow> (\<exists>os'. w_find_next W h os = (Some n, os') \<and> finds W h os' ns)"

fun dir_list :: "nat \<Rightarrow> 'os win \<Rightarrow> wstat \<Rightarrow> win_dir \<Rightarrow> 'os \<Rightarrow> (fpx_err_t \<times> path list) option" where
  "dir_list 0 W junk dir os = None"
| "dir_list (Suc k) W junk dir os = do {
     (r, dir, os) \<leftarrow> win_dir_read W junk dir os;
     if r \<noteq> FPX_OK then Some (r, [])
     else do {
       (r, ns) \<leftarrow> dir_list k W junk dir os;
       Some (r, win_dir_current_name dir # ns)
     }
   }"

fun glob_list :: "nat \<Rightarrow> 'os win \<Rightarrow> win_glob \<Rightarrow> 'os \<Rightarrow> (fpx_err_t \<times> path list) option" where
  "glob_list 0 W gl os = None"
| "glob_list (Suc k) W gl os =
     (case win_glob_read W gl os of (r, res, gl, os) \<Rightarrow>
        if r \<noteq> FPX_OK then Some (r, []) else map_option (map_prod id (Cons res)) (glob_list k W gl os))"

definition dir_prefix :: "path \<Rightarrow> path" where
  "dir_prefix p = (if last p = backslash then butlast p else p)"

lemma full_path_plain:
  assumes "plain p" "plain n" "p \<noteq> []" "length p + length n + 2 \<le> MAX_PATH"
  shows "full_path backslash MAX_PATH (p @ [0]) (n @ [0]) =
    Some (length (dir_prefix p @ [backslash] @ n), dir_prefix p @ [backslash] @ n @ [0])"
proof -
  have "rd (p @ [0]) (length p - 1) = Some (last p)" using assms(3) by (simp add: nth_append last_conv_nth)
  then show ?thesis
    using assms plain_no_zero [OF assms(1)] plain_no_zero [OF assms(2)]
    by (auto simp: full_path_def Let_def dir_prefix_def butlast_conv_take strlen_app)
qed

lemma wide_full_path:
  assumes "plain p" "plain n" "length p + length n + 2 \<le> MAX_PATH"
  shows "\<exists>w. wide (dir_prefix p @ [backslash] @ n) = Some w"
proof -
  have "plain (dir_prefix p @ [backslash] @ n)"
    using assms(1,2) by (auto simp: plain_def dir_prefix_def backslash_def list_all_iff dest: in_set_butlastD)
  moreover have "length (dir_prefix p @ [backslash] @ n) < MAX_PATH" using assms(3) by (auto simp: dir_prefix_def)
  ultimately show ?thesis using wide_plain by blast
qed

lemma dir_list_finds:
  assumes "finds W h os ns" "plain p" "p \<noteq> []" "\<forall>n\<in>set ns. plain n \<and> length p + length n + 2 \<le> MAX_PATH"
    and "wd_dir dir = h" "wd_name dir = Some p" "length ns < k"
  shows "dir_list k W junk dir os = Some (FPX_DONE, ns)"
  using assms
proof (induction ns arbitrary: os dir k)
  case Nil
  then obtain k' where "k = Suc k'" by (cases k) auto
  with Nil show ?case by (auto simp: win_dir_read_def Let_def ERROR_NO_MORE_FILES_def)
next
  case (Cons n ns)
  obtain os' where f: "w_find_next W h os = (Some n, os')" "finds W h os' ns" using Cons.prems(1) by auto
  obtain k' where k: "k = Suc k'" "length ns < k'" using Cons.prems(7) by (cases k) auto
  have n: "plain n" "length p + length n + 2 \<le> MAX_PATH" using Cons.prems(4) by auto
  obtain w where w: "wide (dir_prefix p @ [backslash] @ n) = Some w" using wide_full_path [OF Cons.prems(2) n] by blast
  obtain dir' where r: "win_dir_read W junk dir os = Some (FPX_OK, dir', os')" "wd_dir dir' = h" "wd_name dir' = Some p"
    "win_dir_current_name dir' = n"
    using f(1) w full_path_plain [OF Cons.prems(2) n(1) Cons.prems(3) n(2)] Cons.prems(5,6)
    by (cases "w_attributes W w os'") (auto simp: win_dir_read_def win_file_stat_by_path_def win_dir_current_name_def)
  have "dir_list k' W junk dir' os' = Some (FPX_DONE, ns)"
    using Cons.IH [OF f(2) Cons.prems(2,3) _ r(2,3) k(2)] Cons.prems(4) by simp
  then show ?case using r k(1) by simp
qed

text \<open>
  C35 (win_dir_listing). Listing a Windows directory with a plain path of at most 260 bytes,
  all of whose entries give full paths that fit: it opens, and reading it until it
  reports its end gives all entries in order but the first, which opening has consumed. A path of
  261 or 262 bytes is written behind the buffer; only longer ones are refused.
\<close>

theorem win_dir_listing:
  "(plain p \<and> p \<noteq> [] \<and> length p \<le> MAX_PATH \<and> w_find_first W (p @ [backslash, 0x2A]) os = ((h, n0), os0) \<and>
      h \<noteq> INVALID_HANDLE_VALUE \<and> finds W h os0 ns \<and>
      (\<forall>n\<in>set ns. plain n \<and> length p + length n + 2 \<le> MAX_PATH) \<and> length ns < k \<longrightarrow>
    (\<exists>dir. win_dir_open W (p @ [0]) os = Some (FPX_OK, dir, os0) \<and>
       dir_list k W junk dir os0 = Some (FPX_DONE, ns))) \<and>
   (0 \<notin> set p \<and> MAX_PATH < length p \<longrightarrow>
      win_dir_open W (p @ [0]) os =
        (if length p < MAX_PATH + 3 then None
         else Some (E2BIG, \<lparr>wd_dir = 0, wd_find = [], wd_name = None, wd_type = 0\<rparr>, os)))"
proof (intro conjI impI)
  assume a: "plain p \<and> p \<noteq> [] \<and> length p \<le> MAX_PATH \<and> w_find_first W (p @ [backslash, 0x2A]) os = ((h, n0), os0) \<and>
      h \<noteq> INVALID_HANDLE_VALUE \<and> finds W h os0 ns \<and>
      (\<forall>n\<in>set ns. plain n \<and> length p + length n + 2 \<le> MAX_PATH) \<and> length ns < k"
  let ?dir = "\<lparr>wd_dir = h, wd_find = n0, wd_name = Some p, wd_type = 0\<rparr>"
  have "win_dir_open W (p @ [0]) os = Some (FPX_OK, ?dir, os0)"
    using a plain_no_zero [of p] by (simp add: win_dir_open_def Let_def strlen_app)
  moreover have "dir_list k W junk ?dir os0 = Some (FPX_DONE, ns)" using a by (intro dir_list_finds) auto
  ultimately show "\<exists>dir. win_dir_open W (p @ [0]) os = Some (FPX_OK, dir, os0) \<and>
       dir_list k W junk dir os0 = Some (FPX_DONE, ns)" by blast
qed (auto simp: win_dir_open_def Let_def strlen_app)

section \<open>Listing a pattern\<close>

lemma last_backslash_scan:
  assumes "backslash \<notin> set m" "d \<noteq> []" "j \<le> length m"
  shows "last_backslash (d @ backslash # m @ [0]) (Suc (length d) + j) = Some (length d)"
  using assms(3)
proof (induction j)
  case 0
  have "rd (d @ backslash # m @ [0]) (Suc (length d)) = Some ((m @ [0]) ! 0)" by (simp add: nth_append)
  moreover have "(m @ [0]) ! 0 \<noteq> backslash" using assms(1) by (cases m) (auto simp: backslash_def)
  moreover have "last_backslash (d @ backslash # m @ [0]) (length d) = Some (length d)"
    by (subst last_backslash.simps) (simp add: nth_append)
  ultimately show ?case by (subst last_backslash.simps) simp
next
  case (Suc j)
  have e: "(d @ backslash # m @ [0]) ! (Suc (length d) + Suc j) = (m @ [0]) ! Suc j" by (simp add: nth_append)
  have "(m @ [0]) ! Suc j \<noteq> backslash" using assms(1) Suc.prems by (auto simp: nth_append backslash_def in_set_conv_nth)
  then show ?case using Suc e by (subst last_backslash.simps) simp
qed

definition quiet_errno :: "'os win \<Rightarrow> bool" where
  "quiet_errno W \<longleftrightarrow> (\<forall>os. w_errno W os = FPX_OK \<or> w_errno W os = ERROR_NO_MORE_FILES)"

lemma glob_list_finds:
  assumes "finds W h os ns" "quiet_errno W" "\<forall>n\<in>set (wg_find gl # ns). wg_prefix_len gl + length n + 1 \<le> MAX_PATH"
    and "wg_dir gl = h" "\<not> wg_done gl" "take (wg_prefix_len gl) (wg_pattern gl) = pre" "Suc (length ns) < k"
  shows "glob_list k W gl os = Some (FPX_DONE, map ((@) pre) (wg_find gl # ns))"
  using assms
proof (induction ns arbitrary: os gl k)
  case Nil
  then obtain k' where k: "k = Suc (Suc k')" by (cases k; cases "k - 1") auto
  obtain os' where "w_find_next W h os = (None, os')" using Nil.prems(1) by auto
  then have "win_glob_read W gl os = (FPX_OK, pre @ wg_find gl, gl\<lparr>wg_done := True\<rparr>, os')"
    using Nil.prems by (simp add: win_glob_read_def Let_def)
  then show ?case using k by (simp add: win_glob_read_def)
next
  case (Cons n ns)
  obtain os' where f: "w_find_next W h os = (Some n, os')" "finds W h os' ns" using Cons.prems(1) by auto
  obtain k' where k: "k = Suc k'" "Suc (length ns) < k'" using Cons.prems(7) by (cases k) auto
  let ?gl = "gl\<lparr>wg_find := n\<rparr>"
  have "win_glob_read W gl os = (FPX_OK, pre @ wg_find gl, ?gl, os')"
    using f(1) Cons.prems by (simp add: win_glob_read_def Let_def quiet_errno_def)
  moreover have "glob_list k' W ?gl os' = Some (FPX_DONE, map ((@) pre) (n # ns))"
    using Cons.IH [of os' ?gl k'] f(2) Cons.prems k(2) by simp
  ultimately show ?case using k(1) by simp
qed

text \<open>
  Listing a Windows pattern below a directory: while the last error of
  the system stays clear, reading it until it reports its end gives every entry that
  matches once, in order, with the directory in front. But a successful step looks at the
  last error, which such a step does not reset: a stale error is reported for an entry that was
  found, and the rest is dropped. A name that does not fit is reported again and again,
  so that a caller who reads up to the end never gets there.
\<close>

theorem win_glob_listing:
  "(0 \<notin> set (d @ m) \<and> d \<noteq> [] \<and> backslash \<notin> set m \<and>
      w_find_first W (d @ backslash # m) os = ((h, n0), os0) \<and> h \<noteq> INVALID_HANDLE_VALUE \<and> finds W h os0 ns \<and>
      quiet_errno W \<and> (\<forall>n\<in>set (n0 # ns). length d + length n + 2 \<le> MAX_PATH) \<and> Suc (length ns) < k \<longrightarrow>
    (\<exists>gl'. win_glob_open W gl (d @ backslash # m @ [0]) os = Some (FPX_OK, gl', os0) \<and>
       glob_list k W gl' os0 = Some (FPX_DONE, map ((@) (d @ [backslash])) (n0 # ns)))) \<and>
   (\<not> wg_done gl \<and> wg_prefix_len gl + length (wg_find gl) + 1 \<le> MAX_PATH \<and>
      w_find_next W (wg_dir gl) os = (Some n, os1) \<and> w_errno W os1 \<notin> {FPX_OK, ERROR_NO_MORE_FILES} \<longrightarrow>
    (\<exists>res gl'. win_glob_read W gl os = (w_errno W os1, res, gl', os1) \<and> win_glob_read W gl' os1 = (FPX_DONE, [], gl', os1))) \<and>
   (\<not> wg_done gl \<and> MAX_PATH < wg_prefix_len gl + length (wg_find gl) + 1 \<longrightarrow>
      win_glob_read W gl os = (FPX_ERR_FILESYS_LONG_PATH, [], gl, os))"
proof (intro conjI impI)
  assume a: "0 \<notin> set (d @ m) \<and> d \<noteq> [] \<and> backslash \<notin> set m \<and>
      w_find_first W (d @ backslash # m) os = ((h, n0), os0) \<and> h \<noteq> INVALID_HANDLE_VALUE \<and> finds W h os0 ns \<and>
      quiet_errno W \<and> (\<forall>n\<in>set (n0 # ns). length d + length n + 2 \<le> MAX_PATH) \<and> Suc (length ns) < k"
  let ?p = "d @ backslash # m @ [0]"
  let ?gl = "gl\<lparr>wg_dir := h, wg_find := n0, wg_prefix_len := length d + 1, wg_pattern := ?p, wg_done := False\<rparr>"
  have "fpx_strlen ((d @ backslash # m) @ [0]) = Some (length (d @ backslash # m))"
    using a by (intro strlen_app) (auto simp: backslash_def)
  moreover have "last_backslash ?p (Suc (length d) + length m) = Some (length d)"
    using last_backslash_scan [of m d "length m"] a by simp
  ultimately have "win_glob_open W gl ?p os = Some (FPX_OK, ?gl, os0)"
    using a by (simp add: win_glob_open_def Let_def)
  moreover have "glob_list k W ?gl os0 = Some (FPX_DONE, map ((@) (d @ [backslash])) (wg_find ?gl # ns))"
    using a by (intro glob_list_finds [of W h]) auto
  ultimately show "\<exists>gl'. win_glob_open W gl ?p os = Some (FPX_OK, gl', os0) \<and>
       glob_list k W gl' os0 = Some (FPX_DONE, map ((@) (d @ [backslash])) (n0 # ns))" by auto
qed (auto simp: win_glob_read_def Let_def)

text \<open>A system with one directory, whose enumeration gives the names that are left.\<close>

definition list_win :: "fpx_err_t \<Rightarrow> path list win" where
  "list_win e = \<lparr>w_errno = (\<lambda>_. e), w_create = (\<lambda>_ _ _ os. (INVALID_HANDLE_VALUE, os)), w_read = (\<lambda>_ _ _ os. (None, os)),
     w_write = (\<lambda>_ _ _ os. (None, os)), w_size = (\<lambda>_ _. (0, 0)), w_close = (\<lambda>_ os. os), w_attributes = (\<lambda>_ _. None),
     w_information = (\<lambda>_ _. None), w_find_first = (\<lambda>_ os. ((7, hd os), tl os)),
     w_find_next = (\<lambda>_ os. (case os of [] \<Rightarrow> (None, []) | n # ns \<Rightarrow> (Some n, ns))), w_find_close = (\<lambda>_ os. os)\<rparr>"

lemma list_win_finds: "finds (list_win 18) h ns ns"
  by (induction ns) (simp_all add: list_win_def ERROR_NO_MORE_FILES_def)

theorem win_dir_listing_witness:
  "\<exists>dir. win_dir_open (list_win 18) (bytes ''C:'' @ [0]) (map bytes [''a'', ''b'', ''c'']) = Some (FPX_OK, dir, map bytes [''b'', ''c'']) \<and>
     dir_list 3 (list_win 18) (wi_stat stale_info) dir (map bytes [''b'', ''c'']) = Some (FPX_DONE, map bytes [''b'', ''c''])"
proof -
  let ?ns = "map bytes [''b'', ''c'']"
  have p: "plain (bytes ''C:'')" "bytes ''C:'' \<noteq> []" "length (bytes ''C:'') \<le> MAX_PATH"
    "\<forall>n\<in>set ?ns. plain n \<and> length (bytes ''C:'') + length n + 2 \<le> MAX_PATH"
    by (simp_all add: plain_def bytes_def MAX_PATH_def)
  have f: "w_find_first (list_win 18) (bytes ''C:'' @ [backslash, 0x2A]) (map bytes [''a'', ''b'', ''c'']) = ((7, bytes ''a''), ?ns)"
    by (simp add: list_win_def)
  have k: "length ?ns < 3" "(7 :: handle) \<noteq> INVALID_HANDLE_VALUE" by (simp_all add: INVALID_HANDLE_VALUE_def)
  show ?thesis
    using win_dir_listing [THEN conjunct1, rule_format, OF conjI [OF p(1) conjI [OF p(2) conjI [OF p(3)
      conjI [OF f conjI [OF k(2) conjI [OF list_win_finds conjI [OF p(4) k(1)]]]]]]]] .
qed

definition demo_glob :: win_glob where
  "demo_glob = \<lparr>wg_dir = 7, wg_find = bytes ''a'', wg_pattern = bytes ''C:'' @ backslash # bytes ''*'' @ [0],
     wg_done = False, wg_prefix_len = 3\<rparr>"

theorem win_glob_listing_witness:
  "(\<exists>gl'. win_glob_open (list_win 18) demo_glob (bytes ''C:'' @ backslash # bytes ''*'' @ [0]) (map bytes [''a'', ''b'']) =
       Some (FPX_OK, gl', [bytes ''b'']) \<and>
     glob_list 3 (list_win 18) gl' [bytes ''b''] = Some (FPX_DONE, map ((@) (bytes ''C:'' @ [backslash])) [bytes ''a'', bytes ''b''])) \<and>
   fst (win_glob_read (list_win 5) demo_glob [bytes ''b'']) = 5"
proof
  have g: "0 \<notin> set (bytes ''C:'' @ bytes ''*'')" "bytes ''C:'' \<noteq> []" "backslash \<notin> set (bytes ''*'')"
    "\<forall>n\<in>set [bytes ''a'', bytes ''b'']. length (bytes ''C:'') + length n + 2 \<le> MAX_PATH"
    by (simp_all add: bytes_def backslash_def MAX_PATH_def)
  have f: "w_find_first (list_win 18) (bytes ''C:'' @ backslash # bytes ''*'') (map bytes [''a'', ''b'']) = ((7, bytes ''a''), [bytes ''b''])"
    by (simp add: list_win_def)
  have q: "quiet_errno (list_win 18)" "Suc (length [bytes ''b'']) < 3" "(7 :: handle) \<noteq> INVALID_HANDLE_VALUE"
    by (simp_all add: quiet_errno_def list_win_def ERROR_NO_MORE_FILES_def INVALID_HANDLE_VALUE_def)
  show "\<exists>gl'. win_glob_open (list_win 18) demo_glob (bytes ''C:'' @ backslash # bytes ''*'' @ [0]) (map bytes [''a'', ''b'']) =
       Some (FPX_OK, gl', [bytes ''b'']) \<and>
     glob_list 3 (list_win 18) gl' [bytes ''b''] = Some (FPX_DONE, map ((@) (bytes ''C:'' @ [backslash])) [bytes ''a'', bytes ''b''])"
    using win_glob_listing [THEN conjunct1, rule_format, OF conjI [OF g(1) conjI [OF g(2) conjI [OF g(3) conjI [OF f
      conjI [OF q(3) conjI [OF list_win_finds conjI [OF q(1) conjI [OF g(4) q(2)]]]]]]]]] .
  have "\<not> wg_done demo_glob \<and> wg_prefix_len demo_glob + length (wg_find demo_glob) + 1 \<le> MAX_PATH"
    by (simp add: demo_glob_def bytes_def MAX_PATH_def)
  moreover have "w_find_next (list_win 5) (wg_dir demo_glob) [bytes ''b''] = (Some (bytes ''b''), [])"
    "w_errno (list_win 5) [] \<notin> {FPX_OK, ERROR_NO_MORE_FILES}" "w_errno (list_win 5) [] = 5"
    by (simp_all add: list_win_def FPX_OK_def ERROR_NO_MORE_FILES_def)
  ultimately show "fst (win_glob_read (list_win 5) demo_glob [bytes ''b'']) = 5"
    using win_glob_listing [THEN conjunct2, THEN conjunct1, of demo_glob "list_win 5" "[bytes ''b'']" "bytes ''b''" "[]"] by auto
qed

end
