(* ===== verification/Fpx_Event.thy ===== *)
theory Fpx_Event
  imports Fpx_Net
begin

unbundle bit_operations_syntax

text \<open>
  The event back ends \<open>src/system/event/select.c\<close>, \<open>epoll.c\<close> and \<open>iocp.c\<close>, which are older than
  the rest and not built. Functions they call that the repository does not have (the handlers
  of events, the pool of connection nodes) are fields of a record, like the system calls. Listeners and
  connections are objects at addresses; a pointer from the kernel may be either.
\<close>

section \<open>Objects and surroundings\<close>

datatype eobj = Ol listener | Oc connect bool

text \<open>
  What is read through a pointer: both structures begin with the type and the descriptor. The flag
  of a connection tells whether it is ready to be written.
\<close>

fun obj_type_id :: "eobj \<Rightarrow> bool" where
  "obj_type_id (Ol l) = ls_type_id l" | "obj_type_id (Oc c r) = co_type_id c"

fun obj_fd :: "eobj \<Rightarrow> fd" where
  "obj_fd (Ol l) = ls_fd l" | "obj_fd (Oc c r) = co_fd c"

fun obj_ready :: "eobj \<Rightarrow> bool" where
  "obj_ready (Ol l) = False" | "obj_ready (Oc c r) = r"

fun as_listener :: "eobj \<Rightarrow> listener" where
  "as_listener (Ol l) = l"
| "as_listener (Oc c r) = zero_listener\<lparr>ls_type_id := co_type_id c, ls_fd := co_fd c\<rparr>"

fun as_connect :: "eobj \<Rightarrow> connect" where
  "as_connect (Oc c r) = c"
| "as_connect (Ol l) = \<lparr>co_type_id = ls_type_id l, co_fd = ls_fd l, co_sockaddr = ls_sockaddr l, co_owner = None\<rparr>"

record 'os est =
  es_net :: "'os nst"
  es_obj :: "addr \<Rightarrow> eobj"
  es_listeners :: "addr list"
  es_conns :: "addr \<Rightarrow> addr list"
  es_epfd :: fd
  es_max :: nat

text \<open>The functions that are not in the repository, with \<open>h_new\<close> for \<open>fpx_try_use_already_exist_node\<close>.\<close>

record 'os handlers =
  h_new :: "addr \<Rightarrow> 'os est \<Rightarrow> addr \<times> 'os est"
  h_release :: "addr \<Rightarrow> 'os est \<Rightarrow> 'os est"
  h_connect :: "addr \<Rightarrow> 'os est \<Rightarrow> fpx_err_t \<times> 'os est"
  h_read :: "addr \<Rightarrow> 'os est \<Rightarrow> fpx_err_t \<times> 'os est"
  h_write :: "addr \<Rightarrow> 'os est \<Rightarrow> fpx_err_t \<times> 'os est"
  h_timer :: "'os est \<Rightarrow> 'os est"

definition es_os :: "'os est \<Rightarrow> 'os" where
  "es_os st = ns_os (es_net st)"

definition set_os :: "'os \<Rightarrow> 'os est \<Rightarrow> 'os est" where
  "set_os os st = st\<lparr>es_net := (es_net st)\<lparr>ns_os := os\<rparr>\<rparr>"

text \<open>The call of \<open>fpx_connection_accept\<close> for a connection and a listener at these addresses.\<close>

definition accept_at :: "'os net \<Rightarrow> addr \<Rightarrow> addr \<Rightarrow> 'os est \<Rightarrow> fpx_err_t \<times> 'os est" where
  "accept_at N c l st =
     (case fpx_connection_accept N (as_connect (es_obj st c)) (as_listener (es_obj st l)) (es_net st) of
        (err, connect, net) \<Rightarrow>
          (err, st\<lparr>es_net := net, es_obj := (es_obj st)(c := Oc connect (obj_ready (es_obj st c)))\<rparr>))"

section \<open>The select back end\<close>

definition FD_SETSIZE :: int where "FD_SETSIZE = 1024"

text \<open>A set of descriptors has \<open>FD_SETSIZE\<close> bits; an access outside of it is undefined.\<close>

definition FD_SET :: "fd \<Rightarrow> fd set \<Rightarrow> fd set option" where
  "FD_SET fd s = (if 0 \<le> fd \<and> fd < FD_SETSIZE then Some (insert fd s) else None)"

definition FD_ISSET :: "fd \<Rightarrow> fd set \<Rightarrow> bool option" where
  "FD_ISSET fd s = (if 0 \<le> fd \<and> fd < FD_SETSIZE then Some (fd \<in> s) else None)"

type_synonym fd_sets = "fd set \<times> fd set \<times> fd"

fun connect_events :: "'os est \<Rightarrow> addr list \<Rightarrow> fd_sets \<Rightarrow> fd_sets option" where
  "connect_events st [] acc = Some acc"
| "connect_events st (c # cs) (rfds, wfds, fdmax) = do {
     let fd = obj_fd (es_obj st c);
     rfds \<leftarrow> FD_SET fd rfds;
     let fdmax = (if fdmax < fd then fd else fdmax);
     if \<not> obj_ready (es_obj st c) then connect_events st cs (rfds, wfds, fdmax)
     else do {
       wfds \<leftarrow> FD_SET fd wfds;
       connect_events st cs (rfds, wfds, if fdmax < fd then fd else fdmax)
     }
   }"

fun listener_events :: "'os est \<Rightarrow> addr list \<Rightarrow> fd_sets \<Rightarrow> fd_sets option" where
  "listener_events st [] acc = Some acc"
| "listener_events st (l # ls) (rfds, wfds, fdmax) = do {
     let fd = obj_fd (es_obj st l);
     rfds \<leftarrow> FD_SET fd rfds;
     acc \<leftarrow> connect_events st (es_conns st l) (rfds, wfds, if fdmax < fd then fd else fdmax);
     listener_events st ls acc
   }"

definition fpx_set_events :: "'os est \<Rightarrow> fd_sets option" where
  "fpx_set_events st = listener_events st (es_listeners st) ({}, {}, 0)"

definition fpx_select_add_connect :: "'os net \<Rightarrow> 'os handlers \<Rightarrow> addr \<Rightarrow> 'os est \<Rightarrow> fpx_err_t \<times> 'os est" where
  "fpx_select_add_connect N H l st =
     (case h_new H l st of (c, st) \<Rightarrow>
        if c = NULL then (n_errno N (es_os st), st) else accept_at N c l st)"

text \<open>
  Walking a list while handlers may change it: the next element is looked up behind the current
  one, and looking behind an element that has gone is undefined.
\<close>

definition next_in :: "addr list \<Rightarrow> addr \<Rightarrow> addr option option" where
  "next_in xs x = (case dropWhile (\<lambda>y. y \<noteq> x) xs of
      [] \<Rightarrow> None | [_] \<Rightarrow> Some None | _ # y # _ \<Rightarrow> Some (Some y))"

definition first_of :: "addr list \<Rightarrow> addr option" where
  "first_of xs = (case xs of [] \<Rightarrow> None | x # _ \<Rightarrow> Some x)"

text \<open>One test of a set and the call of a handler; a result that is not \<open>FPX_OK\<close> ends the walk.\<close>

definition when_set :: "fd set \<Rightarrow> fd \<Rightarrow> ('os est \<Rightarrow> fpx_err_t \<times> 'os est) \<Rightarrow> 'os est \<Rightarrow> (fpx_err_t \<times> 'os est) option" where
  "when_set s fd h st = do {
     b \<leftarrow> FD_ISSET fd s;
     Some (if b then h st else (FPX_OK, st))
   }"

partial_function (option) connect_walk ::
  "'os handlers \<Rightarrow> fd set \<Rightarrow> fd set \<Rightarrow> addr \<Rightarrow> addr option \<Rightarrow> 'os est \<Rightarrow> (fpx_err_t \<times> 'os est) option" where
  "connect_walk H rfds wfds l cur st =
     (case cur of
        None \<Rightarrow> Some (FPX_OK, st)
      | Some c \<Rightarrow>
          Option.bind (when_set rfds (obj_fd (es_obj st c)) (h_read H c) st) (\<lambda>(err, st).
            if err \<noteq> FPX_OK then Some (err, st)
            else Option.bind (when_set wfds (obj_fd (es_obj st c)) (h_write H c) st) (\<lambda>(err, st).
              if err \<noteq> FPX_OK then Some (err, st)
              else Option.bind (next_in (es_conns st l) c) (\<lambda>cur. connect_walk H rfds wfds l cur st))))"

definition listener_ready :: "'os net \<Rightarrow> 'os handlers \<Rightarrow> addr \<Rightarrow> 'os est \<Rightarrow> fpx_err_t \<times> 'os est" where
  "listener_ready N H l st =
     (case fpx_select_add_connect N H l st of (err, st) \<Rightarrow>
        if err \<noteq> FPX_OK then (err, st) else h_connect H l st)"

partial_function (option) listener_walk ::
  "'os net \<Rightarrow> 'os handlers \<Rightarrow> fd set \<Rightarrow> fd set \<Rightarrow> addr option \<Rightarrow> 'os est \<Rightarrow> (fpx_err_t \<times> 'os est) option" where
  "listener_walk N H rfds wfds cur st =
     (case cur of
        None \<Rightarrow> Some (FPX_OK, st)
      | Some l \<Rightarrow>
          Option.bind (when_set rfds (obj_fd (es_obj st l)) (listener_ready N H l) st) (\<lambda>(err, st).
            if err \<noteq> FPX_OK then Some (err, st)
            else Option.bind (connect_walk H rfds wfds l (first_of (es_conns st l)) st) (\<lambda>(err, st).
              if err \<noteq> FPX_OK then Some (err, st)
              else Option.bind (next_in (es_listeners st) l) (\<lambda>cur. listener_walk N H rfds wfds cur st))))"

definition fpx_process_events :: "'os net \<Rightarrow> 'os handlers \<Rightarrow> fd set \<Rightarrow> fd set \<Rightarrow> 'os est \<Rightarrow> (fpx_err_t \<times> 'os est) option" where
  "fpx_process_events N H rfds wfds st = listener_walk N H rfds wfds (first_of (es_listeners st)) st"

text \<open>
  One round of \<open>fpx_select_process_events\<close>. \<open>sel\<close> is the call of \<open>select\<close>, with the highest
  descriptor plus one and the timeout in seconds and microseconds; the result tells whether the program aborts.
\<close>

definition EINTR :: fpx_err_t where "EINTR = 4"

definition select_timeout :: "nat \<Rightarrow> (nat \<times> nat) option" where
  "select_timeout timer = (if timer = 0 then None else Some (timer div 1000, timer mod 1000 * 1000))"

definition select_round ::
  "'os net \<Rightarrow> 'os handlers \<Rightarrow> (fd \<Rightarrow> fd set \<Rightarrow> fd set \<Rightarrow> (nat \<times> nat) option \<Rightarrow> 'os \<Rightarrow> (int \<times> fd set \<times> fd set) \<times> 'os) \<Rightarrow>
   nat \<Rightarrow> 'os est \<Rightarrow> (bool \<times> 'os est) option" where
  "select_round N H sel timer st = do {
     (rfds, wfds, fdmax) \<leftarrow> fpx_set_events st;
     let ((flag, rfds, wfds), os) = sel (fdmax + 1) rfds wfds (select_timeout timer) (es_os st);
     let st = set_os os st;
     if flag = -1 then Some (n_errno N os \<noteq> EINTR, st)
     else if flag = 0 then Some (False, h_timer H st)
     else do {
       (err, st) \<leftarrow> fpx_process_events N H rfds wfds st;
       Some (err \<noteq> FPX_OK, st)
     }
   }"

text \<open>The rounds until the program aborts, which is the only way out.\<close>

partial_function (option) fpx_select_process_events ::
  "'os net \<Rightarrow> 'os handlers \<Rightarrow> (fd \<Rightarrow> fd set \<Rightarrow> fd set \<Rightarrow> (nat \<times> nat) option \<Rightarrow> 'os \<Rightarrow> (int \<times> fd set \<times> fd set) \<times> 'os) \<Rightarrow>
   nat \<Rightarrow> 'os est \<Rightarrow> 'os est option" where
  "fpx_select_process_events N H sel timer st =
     Option.bind (select_round N H sel timer st) (\<lambda>(aborts, st).
       if aborts then Some st else fpx_select_process_events N H sel timer st)"

section \<open>The epoll back end\<close>

definition EPOLLIN :: "32 word" where "EPOLLIN = 0x1"
definition EPOLLOUT :: "32 word" where "EPOLLOUT = 0x4"
definition EPOLLRDHUP :: "32 word" where "EPOLLRDHUP = 0x2000"
definition EPOLLET :: "32 word" where "EPOLLET = 0x80000000"

datatype ctl_op = Ctl_add | Ctl_del

record 'os epoll =
  ep_create :: "'os \<Rightarrow> fd \<times> 'os"
  ep_malloc :: "nat \<Rightarrow> 'os \<Rightarrow> bool \<times> 'os"
  ep_ctl :: "fd \<Rightarrow> ctl_op \<Rightarrow> fd \<Rightarrow> 32 word \<Rightarrow> addr \<Rightarrow> 'os \<Rightarrow> int \<times> 'os"
  ep_wait :: "fd \<Rightarrow> nat \<Rightarrow> int \<Rightarrow> 'os \<Rightarrow> (int \<times> (32 word \<times> addr) list) \<times> 'os"

definition epoll_ctl :: "'os net \<Rightarrow> 'os epoll \<Rightarrow> ctl_op \<Rightarrow> fd \<Rightarrow> 32 word \<Rightarrow> addr \<Rightarrow> 'os est \<Rightarrow> fpx_err_t \<times> 'os est" where
  "epoll_ctl N P op fd events ptr st =
     (case ep_ctl P (es_epfd st) op fd events ptr (es_os st) of
        (r, os) \<Rightarrow> (if r = -1 then n_errno N os else FPX_OK, set_os os st))"

definition fpx_epoll_add_listener :: "'os net \<Rightarrow> 'os epoll \<Rightarrow> addr \<Rightarrow> 32 word \<Rightarrow> 'os est \<Rightarrow> fpx_err_t \<times> 'os est" where
  "fpx_epoll_add_listener N P l flags st = epoll_ctl N P Ctl_add (obj_fd (es_obj st l)) flags l st"

definition fpx_epoll_del_listener :: "'os net \<Rightarrow> 'os epoll \<Rightarrow> addr \<Rightarrow> 32 word \<Rightarrow> 'os est \<Rightarrow> fpx_err_t \<times> 'os est" where
  "fpx_epoll_del_listener N P l flags st = epoll_ctl N P Ctl_del (obj_fd (es_obj st l)) flags l st"

definition fpx_epoll_add_connect :: "'os net \<Rightarrow> 'os epoll \<Rightarrow> 'os handlers \<Rightarrow> addr \<Rightarrow> 'os est \<Rightarrow> fpx_err_t \<times> 'os est" where
  "fpx_epoll_add_connect N P H l st =
     (case h_new H l st of (c, st) \<Rightarrow>
        if c = NULL then (n_errno N (es_os st), st)
        else case accept_at N c l st of (err, st) \<Rightarrow>
          if err \<noteq> FPX_OK then (err, st)
          else epoll_ctl N P Ctl_add (obj_fd (es_obj st c)) (EPOLLIN OR EPOLLOUT OR EPOLLET OR EPOLLRDHUP) c st)"

definition fpx_epoll_del_connect :: "'os net \<Rightarrow> 'os epoll \<Rightarrow> 'os handlers \<Rightarrow> addr \<Rightarrow> 'os est \<Rightarrow> fpx_err_t \<times> 'os est" where
  "fpx_epoll_del_connect N P H c st =
     (case epoll_ctl N P Ctl_del (obj_fd (es_obj st c)) 0 NULL st of (err, st) \<Rightarrow>
        if err \<noteq> FPX_OK then (err, st) else (FPX_OK, h_release H c st))"

text \<open>
  The macro \<open>fpx_is_listener\<close> of the present header, which compares the member of type \<open>bool\<close> with the
  identifier. The back end is older than that header; nothing is claimed about the two together.
\<close>

definition fpx_is_listener :: "eobj \<Rightarrow> bool" where
  "fpx_is_listener x \<longleftrightarrow> (if obj_type_id x then 1 else 0) = FPX_LISTENER_ID"

definition epoll_event :: "'os net \<Rightarrow> 'os epoll \<Rightarrow> 'os handlers \<Rightarrow> 32 word \<times> addr \<Rightarrow> 'os est \<Rightarrow> fpx_err_t \<times> 'os est" where
  "epoll_event N P H ev st =
     (case ev of (ready_events, ptr) \<Rightarrow>
        if fpx_is_listener (es_obj st ptr) then
          case fpx_epoll_add_connect N P H ptr st of (err, st) \<Rightarrow>
            if err \<noteq> FPX_OK then (err, st) else h_connect H ptr st
        else
          case (if ready_events AND EPOLLIN \<noteq> 0 then h_read H ptr st else (FPX_OK, st)) of (err, st) \<Rightarrow>
            if err \<noteq> FPX_OK then (err, st)
            else if ready_events AND EPOLLOUT \<noteq> 0 \<and> obj_ready (es_obj st ptr) then h_write H ptr st
            else (FPX_OK, st))"

fun epoll_events :: "'os net \<Rightarrow> 'os epoll \<Rightarrow> 'os handlers \<Rightarrow> (32 word \<times> addr) list \<Rightarrow> 'os est \<Rightarrow> fpx_err_t \<times> 'os est" where
  "epoll_events N P H [] st = (FPX_OK, st)"
| "epoll_events N P H (e # es) st =
     (case epoll_event N P H e st of (err, st) \<Rightarrow>
        if err \<noteq> FPX_OK then (err, st) else epoll_events N P H es st)"

definition fpx_epoll_process_events :: "'os net \<Rightarrow> 'os epoll \<Rightarrow> 'os handlers \<Rightarrow> int \<Rightarrow> 'os est \<Rightarrow> fpx_err_t \<times> 'os est" where
  "fpx_epoll_process_events N P H timer st =
     (case ep_wait P (es_epfd st) (es_max st) timer (es_os st) of ((events, list), os) \<Rightarrow>
        let st = set_os os st in
        if events = -1 \<and> n_errno N os \<noteq> EINTR then (n_errno N os, st)
        else if events = 0 then (FPX_OK, h_timer H st)
        else epoll_events N P H (take (nat events) list) st)"

fun epoll_listeners :: "'os net \<Rightarrow> 'os epoll \<Rightarrow> addr list \<Rightarrow> 'os est \<Rightarrow> fpx_err_t \<times> 'os est" where
  "epoll_listeners N P [] st = (FPX_OK, st)"
| "epoll_listeners N P (l # ls) st =
     (case fpx_epoll_add_listener N P l (EPOLLIN OR EPOLLET) st of (err, st) \<Rightarrow>
        if err \<noteq> FPX_OK then (err, st) else epoll_listeners N P ls st)"

definition sizeof_epoll_event :: nat where "sizeof_epoll_event = 12"

definition fpx_epoll_init :: "'os net \<Rightarrow> 'os epoll \<Rightarrow> 'os est \<Rightarrow> fpx_err_t \<times> 'os est" where
  "fpx_epoll_init N P st =
     (let st = st\<lparr>es_max := length (es_listeners st)\<rparr>;
          (epfd, os) = ep_create P (es_os st);
          st = (set_os os st)\<lparr>es_epfd := epfd\<rparr> in
      if epfd = -1 then (n_errno N os, st)
      else
        case ep_malloc P (sizeof_epoll_event * es_max st) os of (ok, os) \<Rightarrow>
          if \<not> ok then (n_errno N os, set_os os st)
          else epoll_listeners N P (es_listeners st) (set_os os st))"

section \<open>The completion ports\<close>

text \<open>
  A wait gives its result, the key when a packet was taken from the port, and the address of the
  overlapped structure. Branching on a key that was not given reads an unassigned variable.
\<close>

record 'os iocp =
  ic_errno :: "'os \<Rightarrow> fpx_err_t"
  ic_create :: "64 word \<Rightarrow> addr \<Rightarrow> 32 word \<Rightarrow> 'os \<Rightarrow> addr \<times> 'os"
  ic_wait :: "addr \<Rightarrow> nat \<Rightarrow> 'os \<Rightarrow> (int \<times> 32 word option \<times> addr) \<times> 'os"

definition FPX_IOCP_ACCEPT :: "32 word" where "FPX_IOCP_ACCEPT = 0"
definition FPX_IOCP_RW :: "32 word" where "FPX_IOCP_RW = 1"
definition WAIT_TIMEOUT :: fpx_err_t where "WAIT_TIMEOUT = 258"
definition ERROR_NETNAME_DELETED :: fpx_err_t where "ERROR_NETNAME_DELETED = 64"
definition ERROR_OPERATION_ABORTED :: fpx_err_t where "ERROR_OPERATION_ABORTED = 995"

definition iocp_attach :: "'os iocp \<Rightarrow> addr \<Rightarrow> fd \<Rightarrow> 32 word \<Rightarrow> 'os \<Rightarrow> fpx_err_t \<times> 'os" where
  "iocp_attach I port fd key os =
     (case ic_create I (word_of_int fd) port key os of (p, os) \<Rightarrow> (if p = NULL then ic_errno I os else FPX_OK, os))"

text \<open>The connection is not used: it is the listener that is attached once more.\<close>

definition fpx_iocp_add_connect :: "'os iocp \<Rightarrow> addr \<Rightarrow> listener \<Rightarrow> connect \<Rightarrow> 'os \<Rightarrow> fpx_err_t \<times> 'os" where
  "fpx_iocp_add_connect I port listener connect os = iocp_attach I port (ls_fd listener) FPX_IOCP_RW os"

definition fpx_iocp_add_listener :: "'os iocp \<Rightarrow> addr \<Rightarrow> listener \<Rightarrow> 'os \<Rightarrow> fpx_err_t \<times> 'os" where
  "fpx_iocp_add_listener I port listener os = iocp_attach I port (ls_fd listener) FPX_IOCP_ACCEPT os"

definition fpx_iocp_process_events :: "'os iocp \<Rightarrow> addr \<Rightarrow> nat \<Rightarrow> 'os \<Rightarrow> (fpx_err_t \<times> 'os) option" where
  "fpx_iocp_process_events I port timer os =
     (case ic_wait I port timer os of ((events, key, ovlp), os) \<Rightarrow>
        let err = (if events = 0 then ic_errno I os else 0);
            branch = (case key of None \<Rightarrow> None | Some _ \<Rightarrow> Some (FPX_OK, os)) in
        if err \<noteq> 0 then
          if ovlp = NULL then (if err \<noteq> WAIT_TIMEOUT then Some (err, os) else branch)
          else if err = ERROR_NETNAME_DELETED \<or> err = ERROR_OPERATION_ABORTED then Some (FPX_OK, os)
          else branch
        else branch)"

fun iocp_listeners :: "'os iocp \<Rightarrow> addr \<Rightarrow> listener list \<Rightarrow> 'os \<Rightarrow> fpx_err_t \<times> 'os" where
  "iocp_listeners I port [] os = (FPX_OK, os)"
| "iocp_listeners I port (l # ls) os =
     (case fpx_iocp_add_listener I port l os of (err, os) \<Rightarrow>
        if err \<noteq> FPX_OK then (err, os) else iocp_listeners I port ls os)"

definition fpx_iocp_init :: "'os iocp \<Rightarrow> listener list \<Rightarrow> 'os \<Rightarrow> fpx_err_t \<times> addr \<times> 'os" where
  "fpx_iocp_init I listeners os =
     (case ic_create I (-1) NULL 0 os of (port, os) \<Rightarrow>
        if port = NULL then (ic_errno I os, port, os)
        else case iocp_listeners I port listeners os of (err, os) \<Rightarrow> (err, port, os))"

section \<open>The descriptors of a select round\<close>

definition fd_ok :: "fd \<Rightarrow> bool" where
  "fd_ok fd \<longleftrightarrow> 0 \<le> fd \<and> fd < FD_SETSIZE"

definition fds :: "'os est \<Rightarrow> addr list \<Rightarrow> fd set" where
  "fds st as = (\<lambda>a. obj_fd (es_obj st a)) ` set as"

definition ready_of :: "'os est \<Rightarrow> addr list \<Rightarrow> addr list" where
  "ready_of st as = filter (\<lambda>a. obj_ready (es_obj st a)) as"

lemma fds_simps [simp]: "fds st [] = {}" "fds st (a # as) = insert (obj_fd (es_obj st a)) (fds st as)"
  "fds st (as @ bs) = fds st as \<union> fds st bs" "finite (fds st as)"
  by (auto simp: fds_def)

lemma Max_pick: "finite A \<Longrightarrow> Max (insert (if m < f then f else m) A) = Max (insert m (insert (f :: int) A))"
  by (cases "A = {}") (auto simp: max_def not_less)

lemma connect_events_spec:
  "connect_events st cs (r, w, m) =
    (if \<forall>fd\<in>fds st cs. fd_ok fd then Some (r \<union> fds st cs, w \<union> fds st (ready_of st cs), Max (insert m (fds st cs))) else None)"
proof (induction cs arbitrary: r w m)
  case (Cons c cs)
  let ?f = "obj_fd (es_obj st c)"
  have m: "Max (insert (if (if m < ?f then ?f else m) < ?f then ?f else if m < ?f then ?f else m) A) =
      Max (insert m (insert ?f A))" if "finite A" for A
    using Max_pick [OF that, of m ?f] by (auto simp: not_less split: if_splits)
  show ?case using Max_pick [of "fds st cs" m ?f] m [of "fds st cs"]
    by (auto simp: Cons.IH FD_SET_def fd_ok_def ready_of_def Let_def)
qed (simp add: ready_of_def)

lemma listener_events_spec:
  "listener_events st ls (r, w, m) =
    (let cs = concat (map (es_conns st) ls) in
     if \<forall>fd\<in>fds st (ls @ cs). fd_ok fd
     then Some (r \<union> fds st (ls @ cs), w \<union> fds st (ready_of st cs), Max (insert m (fds st (ls @ cs)))) else None)"
proof (induction ls arbitrary: r w m)
  case (Cons l ls)
  let ?f = "obj_fd (es_obj st l)" and ?c = "fds st (es_conns st l)" and ?r = "fds st (ls @ concat (map (es_conns st) ls))"
  have m: "Max (insert (Max (insert (if m < ?f then ?f else m) ?c)) ?r) = Max (insert m (insert ?f (?c \<union> ?r)))"
    using Max_pick [of ?c m ?f] Max_Un [of "insert m (insert ?f ?c)" ?r] by (cases "?r = {}") auto
  show ?case
    by (cases "fd_ok ?f \<and> (\<forall>fd\<in>?c. fd_ok fd) \<and> (\<forall>fd\<in>?r. fd_ok fd)")
      (use m in \<open>auto simp: Cons.IH connect_events_spec FD_SET_def fd_ok_def ready_of_def Let_def Un_ac insert_commute\<close>)
qed (simp add: ready_of_def)

text \<open>
  C36 (fpx_set_events_exact). What a round of the select back end waits for: to be read the
  descriptors of all listeners and of all their connections, to be written those of the
  connections that are ready for it, and the highest of all of them, at least 0. When one
  of them is negative, as after a connection was closed, or not below 1024, the sets are
  accessed outside their bounds.
\<close>

theorem fpx_set_events_exact:
  "fpx_set_events st =
    (let cs = concat (map (es_conns st) (es_listeners st)); all = fds st (es_listeners st @ cs) in
     if \<forall>fd\<in>all. 0 \<le> fd \<and> fd < 1024 then Some (all, fds st (ready_of st cs), Max (insert 0 all)) else None)"
  by (simp add: fpx_set_events_def listener_events_spec fd_ok_def FD_SETSIZE_def Let_def)

section \<open>The sockets of new connections\<close>












definition demo_conn :: connect where
  "demo_conn = \<lparr>co_type_id = (FPX_CONNECTION_ID \<noteq> 0), co_fd = 7, co_sockaddr = [], co_owner = None\<rparr>"

definition demo_est :: "unit est" where
  "demo_est = \<lparr>es_net = \<lparr>ns_os = (), ns_trace = []\<rparr>, es_obj = (\<lambda>_. Oc demo_conn True), es_listeners = [], es_conns = (\<lambda>_. []),
     es_epfd = 4, es_max = 1\<rparr>"


theorem fpx_set_events_exact_witness:
  "fpx_set_events (demo_est\<lparr>es_listeners := [0x10], es_conns := (\<lambda>_. [0x20])\<rparr>) = Some ({7}, {7}, 7)"
proof -
  let ?st = "demo_est\<lparr>es_listeners := [0x10], es_conns := (\<lambda>_. [0x20])\<rparr>"
  have "fds ?st (es_listeners ?st @ concat (map (es_conns ?st) (es_listeners ?st))) = {7}"
    "fds ?st (ready_of ?st (concat (map (es_conns ?st) (es_listeners ?st)))) = {7}"
    by (simp_all add: demo_est_def demo_conn_def ready_of_def)
  then show ?thesis using fpx_set_events_exact [of ?st] unfolding Let_def by simp
qed

end
