(* ===== verification/Fpx_System.thy ===== *)
theory Fpx_System
  imports Fpx_Sync Fpx_Net
begin

unbundle bit_operations_syntax

text \<open>
  The small services of the operating system: \<open>src/system/time.c\<close>, \<open>signal.c\<close>, \<open>cpuinfo.c\<close>,
  \<open>dso.c\<close>, \<open>net/sockaddr.c\<close>, the page size and the explicit clearing of \<open>memory.c\<close>, and the
  Windows part of \<open>errno.c\<close>. Names of Windows variants start with \<open>win_\<close>. What the system
  returns is an argument.
\<close>

section \<open>Time\<close>

record timeval =
  tv_sec :: "32 word"
  tv_usec :: "32 word"

text \<open>
  A \<open>FILETIME\<close> counts intervals of 100 ns since 1601 in two 32-bit halves; \<open>long\<close> has 32 bits on
  Windows.
\<close>

definition win_gettimeofday :: "32 word \<Rightarrow> 32 word \<Rightarrow> timeval" where
  "win_gettimeofday high low =
     (let intervals = push_bit 32 (ucast high :: 64 word) OR ucast low;
          intervals = intervals - 116444736000000000
      in \<lparr>tv_sec = ucast (intervals div 10000000), tv_usec = ucast ((intervals mod 10000000) div 10)\<rparr>)"

text \<open>
  \<open>localtime_r\<close> leaves its result alone when the year does not fit. Adding to a member may
  exceed \<open>int\<close>, which is undefined.
\<close>

definition fpx_localtime :: "(int \<Rightarrow> fpx_tm option) \<Rightarrow> int \<Rightarrow> fpx_tm \<Rightarrow> fpx_tm option" where
  "fpx_localtime localtime_r sec tm =
     (let tm = (case localtime_r sec of Some t \<Rightarrow> t | None \<Rightarrow> tm) in
      if tm_mon tm + 1 \<ge> 2 ^ 31 \<or> tm_year tm + 1900 \<ge> 2 ^ 31 then None
      else Some (tm\<lparr>tm_mon := tm_mon tm + 1, tm_year := tm_year tm + 1900\<rparr>))"

definition win_localtime :: "fpx_tm \<Rightarrow> int \<Rightarrow> fpx_tm" where
  "win_localtime now sec = now"

section \<open>Processors, pages and memory\<close>

text \<open>\<open>sysconf\<close> is an argument where the configuration has it; its result is cut to \<open>int\<close>.\<close>

definition fpx_get_number_cpu :: "64 word option \<Rightarrow> 32 word" where
  "fpx_get_number_cpu sc =
     (let ncpus = (case sc of Some n \<Rightarrow> ucast n | None \<Rightarrow> 1) in if sint ncpus \<le> 0 then 1 else ncpus)"

definition win_get_number_cpu :: "32 word \<Rightarrow> 32 word" where
  "win_get_number_cpu processors = (if sint processors \<le> 0 then 1 else processors)"

definition fpx_get_page_size :: "64 word option \<Rightarrow> size_t" where
  "fpx_get_page_size sc = (case sc of Some n \<Rightarrow> n | None \<Rightarrow> 4096)"

definition fpx_explicit_memzero :: "byte list \<Rightarrow> nat \<Rightarrow> byte list option" where
  "fpx_explicit_memzero buf n = (if n \<le> length buf then Some (replicate n 0 @ drop n buf) else None)"

section \<open>Waking threads\<close>

record 'os sigs =
  g_errno :: "'os \<Rightarrow> fpx_err_t"
  g_kill :: "addr \<Rightarrow> 'os \<Rightarrow> int \<times> 'os"
  g_usleep :: "32 word \<Rightarrow> 'os \<Rightarrow> int \<times> 'os"
  g_post :: "addr \<Rightarrow> 'os \<Rightarrow> int \<times> 'os"
  g_set_timer :: "32 word \<Rightarrow> 'os \<Rightarrow> 64 word \<times> 'os"
  g_get_message :: "32 word \<Rightarrow> 'os \<Rightarrow> int \<times> 32 word \<times> 'os"

definition fpx_send_wakeup_signal :: "'os sigs \<Rightarrow> addr \<Rightarrow> 'os \<Rightarrow> fpx_err_t \<times> 'os" where
  "fpx_send_wakeup_signal G thread os =
     (case g_kill G thread os of (r, os) \<Rightarrow> (if r \<noteq> 0 then g_errno G os else FPX_OK, os))"

text \<open>A \<open>fpx_msec_t\<close> has 64 bits, the argument of \<open>usleep\<close> and that of \<open>SetTimer\<close> 32.\<close>

definition fpx_wait_wakeup_signal :: "'os sigs \<Rightarrow> 64 word \<Rightarrow> 'os \<Rightarrow> fpx_err_t \<times> 'os" where
  "fpx_wait_wakeup_signal G ms os =
     (case g_usleep G (ucast (ms * 1000)) os of (r, os) \<Rightarrow> (if r \<noteq> 0 then g_errno G os else FPX_OK, os))"

definition win_send_wakeup_signal :: "'os sigs \<Rightarrow> addr \<Rightarrow> 'os \<Rightarrow> fpx_err_t \<times> 'os" where
  "win_send_wakeup_signal G thread os =
     (case g_post G thread os of (r, os) \<Rightarrow> (if r = 0 then g_errno G os else FPX_OK, os))"

definition WM_TIMER :: "32 word" where "WM_TIMER = 0x113"

text \<open>
  The loop around \<open>GetMessage\<close>, with the member \<open>message\<close> of the structure that it fills.
\<close>

partial_function (option) message_loop :: "'os sigs \<Rightarrow> 32 word \<Rightarrow> 'os \<Rightarrow> 'os option" where
  [code]: "message_loop G message os =
     (case g_get_message G message os of (r, message, os) \<Rightarrow>
        if r \<noteq> 0 \<and> message = WM_TIMER then Some os else message_loop G message os)"

definition win_wait_wakeup_signal :: "'os sigs \<Rightarrow> 64 word \<Rightarrow> 'os \<Rightarrow> (fpx_err_t \<times> 'os) option" where
  "win_wait_wakeup_signal G ms os =
     (case g_set_timer G (ucast ms) os of (t, os) \<Rightarrow>
        if t = 0 then Some (g_errno G os, os)
        else do {
          os \<leftarrow> message_loop G 0 os;
          Some (FPX_OK, os)
        })"

section \<open>Texts of the system\<close>

text \<open>
  \<open>FormatMessage\<close> as a function of whether English is asked for, the code and the buffer: the
  number of characters stored and the buffer afterwards.
\<close>

type_synonym format_message = "bool \<Rightarrow> fpx_err_t \<Rightarrow> byte list \<Rightarrow> nat \<times> byte list"

definition trimmed :: "byte \<Rightarrow> bool" where
  "trimmed c \<longleftrightarrow> c = 0 \<or> c = 0xD \<or> c = 0xA \<or> c = 0x2E"

text \<open>
  The loop that removes the end of the text. Below index 0 the index wraps around to
  \<open>2 ^ 32 - 1\<close>, outside the buffer.
\<close>

fun trim_loop :: "byte list \<Rightarrow> nat \<Rightarrow> byte list option" where
  "trim_loop buf len = do {
     c \<leftarrow> rd buf len;
     if trimmed c then
       case len of 0 \<Rightarrow> None | Suc n \<Rightarrow> trim_loop (buf[len := 0]) n
     else Some buf
   }"

declare trim_loop.simps [simp del]

text \<open>Whether there is a text, and the buffer.\<close>

definition win_os_strerror :: "format_message \<Rightarrow> fpx_err_t \<Rightarrow> byte list \<Rightarrow> (bool \<times> byte list) option" where
  "win_os_strerror F err buf =
     (if buf = [] then Some (False, buf)
      else
        let (len, buf) = F True err buf;
            (len, buf) = (if len = 0 then F False err buf else (len, buf)) in
        if len = 0 then Some (False, buf)
        else do {
          buf \<leftarrow> trim_loop buf len;
          Some (True, buf)
        })"

definition win_strerror :: "format_message \<Rightarrow> fpx_err_t \<Rightarrow> byte list \<Rightarrow> byte list option" where
  "win_strerror F err buf =
     (if err > 0 \<and> err < FPX_ERROR_DOMAIN_BASE then do {
        (ok, buf) \<leftarrow> win_os_strerror F err buf;
        if ok then Some buf else error_loop error_list FPX_ERR_UNKNOW buf
      }
      else error_loop error_list err buf)"

definition fpx_dlerror :: "byte list option \<Rightarrow> byte list \<Rightarrow> byte list option" where
  "fpx_dlerror dlerror buf = copy_text (case dlerror of Some str \<Rightarrow> str | None \<Rightarrow> []) buf"

definition win_dlerror :: "format_message \<Rightarrow> fpx_err_t \<Rightarrow> byte list \<Rightarrow> byte list option" where
  "win_dlerror F err buf = win_strerror F err buf"

text \<open>
  \<open>getnameinfo\<close> with the buffers for the host and for the service, where there are such, and
  the flags.
\<close>

definition NI_NUMERICHOST :: "32 word" where "NI_NUMERICHOST = 1"
definition NI_NUMERICSERV :: "32 word" where "NI_NUMERICSERV = 2"

type_synonym getnameinfo = "byte list \<Rightarrow> byte list option \<Rightarrow> byte list option \<Rightarrow> 32 word \<Rightarrow> int \<times> byte list"

definition fpx_sockaddr_get_addr_text :: "getnameinfo \<Rightarrow> byte list \<Rightarrow> byte list \<Rightarrow> byte list option" where
  "fpx_sockaddr_get_addr_text G sockaddr buf =
     (case G sockaddr (Some buf) None NI_NUMERICHOST of (r, buf) \<Rightarrow> if r \<noteq> 0 then None else Some buf)"

definition fpx_sockaddr_get_port_text :: "getnameinfo \<Rightarrow> byte list \<Rightarrow> byte list \<Rightarrow> byte list option" where
  "fpx_sockaddr_get_port_text G sockaddr buf =
     (case G sockaddr None (Some buf) (NI_NUMERICHOST OR NI_NUMERICSERV) of (r, buf) \<Rightarrow> if r \<noteq> 0 then None else Some buf)"

definition fpx_connection_get_addr_text :: "getnameinfo \<Rightarrow> connect \<Rightarrow> byte list \<Rightarrow> byte list option" where
  "fpx_connection_get_addr_text G connect buf = fpx_sockaddr_get_addr_text G (co_sockaddr connect) buf"

definition fpx_connection_get_port_text :: "getnameinfo \<Rightarrow> connect \<Rightarrow> byte list \<Rightarrow> byte list option" where
  "fpx_connection_get_port_text G connect buf = fpx_sockaddr_get_port_text G (co_sockaddr connect) buf"

definition fpx_listener_get_addr_text :: "getnameinfo \<Rightarrow> listener \<Rightarrow> byte list \<Rightarrow> byte list option" where
  "fpx_listener_get_addr_text G listener buf = fpx_sockaddr_get_addr_text G (ls_sockaddr listener) buf"

definition fpx_listener_get_port_text :: "getnameinfo \<Rightarrow> listener \<Rightarrow> byte list \<Rightarrow> byte list option" where
  "fpx_listener_get_port_text G listener buf = fpx_sockaddr_get_port_text G (ls_sockaddr listener) buf"

text \<open>The version of the socket library of Windows, with what \<open>WSAStartup\<close> and \<open>WSAGetLastError\<close> return.\<close>

definition fpx_winsock_init_v22 :: "(16 word \<Rightarrow> 'os \<Rightarrow> int \<times> 'os) \<Rightarrow> ('os \<Rightarrow> fpx_err_t) \<Rightarrow> 'os \<Rightarrow> fpx_err_t \<times> 'os" where
  "fpx_winsock_init_v22 wsa_startup socket_errno os =
     (case wsa_startup 0x0202 os of (r, os) \<Rightarrow> (if r \<noteq> 0 then socket_errno os else FPX_OK, os))"

section \<open>The time of day\<close>

lemma filetime_bits:
  "unat (push_bit 32 (ucast (high :: 32 word)) OR ucast (low :: 32 word) :: 64 word) = unat high * 2 ^ 32 + unat low"
proof -
  have "unat low < 2 ^ LENGTH(32)" "unat high < 2 ^ LENGTH(32)" by (rule unsigned_less)+
  moreover have "(push_bit 32 (ucast high) OR ucast low :: 64 word) = push_bit 32 (ucast high) + ucast low"
    by (rule disjunctive_add [symmetric]) (auto simp: bit_simps dest: bit_imp_le_length)
  ultimately show ?thesis
    by (simp add: unat_word_ariths unsigned_push_bit_eq push_bit_eq_mult unsigned_ucast_eq take_bit_eq_mod)
qed

lemma sint_of_nat:
  assumes "n < 2 ^ 32"
  shows "sint (of_nat n :: 32 word) = (if n < 2 ^ 31 then int n else int n - 2 ^ 32)"
proof -
  have "sint (of_nat n :: 32 word) = (int n + 2 ^ 31) mod 2 ^ 32 - 2 ^ 31"
    by (simp add: signed_of_nat signed_take_bit_eq_take_bit_shift take_bit_eq_mod)
  moreover have "(int n + 2 ^ 31) mod 2 ^ 32 = (if n < 2 ^ 31 then int n + 2 ^ 31 else int n - 2 ^ 31)"
    using assms by (auto simp: mod_pos_pos_trivial intro: mod_pos_geq [THEN trans])
  ultimately show ?thesis by simp
qed

lemma ucast_of_nat: "(ucast (w :: 64 word) :: 32 word) = of_nat (unat w)"
  by (simp add: unsigned_ucast_eq word_unat_eq_iff unsigned_of_nat)

text \<open>
  The clock on Windows: a time from 1970 to the year 2038 is converted to
  seconds and microseconds that lose less than the ten intervals of one microsecond; from then on
  until 2106 the seconds are negative, because they are cut to 32 bits.
\<close>

theorem win_gettimeofday_exact:
  fixes high low
  defines "ticks \<equiv> unat high * 2 ^ 32 + unat low"
  assumes "116444736000000000 \<le> ticks"
  shows "let t = ticks - 116444736000000000; tv = win_gettimeofday high low in
    0 \<le> sint (tv_usec tv) \<and> sint (tv_usec tv) < 1000000 \<and>
    (t < 2 ^ 31 * 10000000 \<longrightarrow>
       0 \<le> sint (tv_sec tv) \<and> sint (tv_sec tv) * 10000000 + sint (tv_usec tv) * 10 \<le> int t \<and>
       int t < sint (tv_sec tv) * 10000000 + sint (tv_usec tv) * 10 + 10) \<and>
    (2 ^ 31 * 10000000 \<le> t \<and> t < 2 ^ 32 * 10000000 \<longrightarrow>
       sint (tv_sec tv) = int (t div 10000000) - 2 ^ 32)"
proof -
  define t where "t = ticks - 116444736000000000"
  define iv where "iv = (push_bit 32 (ucast high) OR ucast low :: 64 word) - 116444736000000000"
  have iv: "unat iv = t" unfolding iv_def
    by (subst unat_minus64) (use assms in \<open>simp_all add: filetime_bits t_def\<close>)
  have tv: "win_gettimeofday high low = \<lparr>tv_sec = of_nat (t div 10000000), tv_usec = of_nat (t mod 10000000 div 10)\<rparr>"
    by (simp add: win_gettimeofday_def Let_def ucast_of_nat unat_div_distrib unat_mod_distrib iv flip: iv_def)
  define q r u where "q = t div 10000000" and "r = t mod 10000000" and "u = r div 10"
  have t: "t = q * 10000000 + r" "r < 10000000" by (simp_all add: q_def r_def)
  have u: "u * 10 \<le> r" "r < u * 10 + 10" by (simp_all add: u_def)
  have "sint (of_nat u :: 32 word) = int u" using t u by (subst sint_of_nat) simp_all
  moreover have "q < 2 ^ 32 \<Longrightarrow> sint (of_nat q :: 32 word) = (if q < 2 ^ 31 then int q else int q - 2 ^ 32)"
    by (rule sint_of_nat)
  moreover have "t < 2 ^ 31 * 10000000 \<longleftrightarrow> q < 2 ^ 31" "t < 2 ^ 32 * 10000000 \<longleftrightarrow> q < 2 ^ 32"
    using t by (auto intro: ccontr)
  ultimately show ?thesis
    unfolding t_def [symmetric] Let_def tv q_def [symmetric] r_def [symmetric] u_def [symmetric]
    using t u by auto
qed

theorem win_gettimeofday_exact_witness:
  "(let tv = win_gettimeofday 0x01D70000 0; t = 0x01D70000 * 2 ^ 32 - 116444736000000000 in
     sint (tv_sec tv) * 10000000 + sint (tv_usec tv) * 10 \<le> t \<and> t < sint (tv_sec tv) * 10000000 + sint (tv_usec tv) * 10 + 10) \<and>
   sint (tv_sec (win_gettimeofday 0x02000000 0)) = - 1527922089"
  using win_gettimeofday_exact [of "0x01D70000" 0] win_gettimeofday_exact [of "0x02000000" 0] by (simp add: Let_def)

section \<open>The text of an error on Windows\<close>

definition trim_end :: "byte list \<Rightarrow> byte list" where
  "trim_end t = rev (dropWhile trimmed (rev t))"

lemma trim_end_snoc: "trim_end (t @ [c]) = (if trimmed c then trim_end t else t @ [c])"
  by (simp add: trim_end_def)

lemma trim_end_all: "list_all trimmed t \<Longrightarrow> trim_end t = []"
  by (simp add: trim_end_def dropWhile_eq_Nil_conv list_all_iff)

lemma trim_end_prefix: "\<exists>r. t = trim_end t @ r"
proof
  have "rev t = takeWhile trimmed (rev t) @ dropWhile trimmed (rev t)" by simp
  then have "rev (rev t) = rev (takeWhile trimmed (rev t) @ dropWhile trimmed (rev t))" by (rule arg_cong)
  then show "t = trim_end t @ rev (takeWhile trimmed (rev t))" by (simp add: trim_end_def flip: rev_append)
qed

lemma length_trim_end: "length (trim_end t) \<le> length t"
  using length_dropWhile_le [of trimmed "rev t"] by (simp add: trim_end_def)

lemma trim_loop_spec:
  assumes "n < length buf"
  shows "trim_loop buf n =
    (let t = take (Suc n) buf; k = length (trim_end t) in
     if list_all trimmed t then None else Some (take k buf @ replicate (Suc n - k) 0 @ drop (Suc n) buf))"
  using assms
proof (induction n arbitrary: buf)
  case 0
  then show ?case
    by (cases buf) (auto simp: trim_loop.simps [of _ 0] trim_end_def)
next
  case (Suc n)
  let ?b = "buf[Suc n := 0]"
  have t: "take (Suc (Suc n)) buf = take (Suc n) buf @ [buf ! Suc n]" using Suc.prems by (simp add: take_Suc_conv_app_nth)
  show ?case
  proof (cases "trimmed (buf ! Suc n)")
    case True
    have "trim_loop buf (Suc n) = trim_loop ?b n" using Suc.prems True by (subst trim_loop.simps) simp
    moreover have "take (Suc n) ?b = take (Suc n) buf" by simp
    moreover have "drop (Suc n) ?b = 0 # drop (Suc (Suc n)) buf"
      using Suc.prems by (simp add: drop_update_swap Cons_nth_drop_Suc [symmetric] del: Cons_nth_drop_Suc)
    moreover have "length (trim_end (take (Suc n) buf)) \<le> Suc n" using length_trim_end [of "take (Suc n) buf"] by simp
    ultimately show ?thesis using Suc.IH [of ?b] Suc.prems True
      by (simp add: t trim_end_snoc Let_def Suc_diff_le replicate_append_same flip: replicate_append_same)
  next
    case False
    then show ?thesis using Suc.prems by (subst trim_loop.simps) (simp add: t trim_end_snoc Let_def id_take_nth_drop [symmetric])
  qed
qed

text \<open>
  What is documented of \<open>FormatMessage\<close>: it stores a text and a terminator within the buffer and
  returns the length of the text, or 0.
\<close>

definition format_ok :: "format_message \<Rightarrow> bool" where
  "format_ok F \<longleftrightarrow> (\<forall>english err buf. case F english err buf of (len, b) \<Rightarrow>
     length b = length buf \<and> (len \<noteq> 0 \<longrightarrow> len < length b \<and> b ! len = 0 \<and> 0 \<notin> set (take len b)))"

definition system_text :: "format_message \<Rightarrow> fpx_err_t \<Rightarrow> byte list \<Rightarrow> byte list" where
  "system_text F err buf =
     (case F True err buf of (n, b) \<Rightarrow> if n \<noteq> 0 then take n b else case F False err b of (n, b) \<Rightarrow> take n b)"

lemma trim_loop_text:
  assumes "n < length b" "b ! n = 0"
  shows "trim_loop b n =
    (if list_all trimmed (take n b) then None
     else Some (trim_end (take n b) @ replicate (Suc n - length (trim_end (take n b))) 0 @ drop (Suc n) b))"
proof -
  have t: "take (Suc n) b = take n b @ [0]" and z: "trimmed 0"
    using assms by (simp_all add: take_Suc_conv_app_nth trimmed_def)
  obtain r where r: "take n b = trim_end (take n b) @ r" using trim_end_prefix by blast
  have "take (length (trim_end (take n b))) b = trim_end (take n b)"
    using arg_cong [OF r, of "take (length (trim_end (take n b)))"] length_trim_end [of "take n b"]
    by (simp add: min_absorb1)
  then show ?thesis using assms(1) by (simp add: trim_loop_spec t trim_end_snoc z Let_def)
qed

lemma os_strerror_text:
  assumes "format_ok F" "buf \<noteq> []" and t0: "t = system_text F err buf"
  shows "t = [] \<Longrightarrow> \<exists>b. win_os_strerror F err buf = Some (False, b) \<and> length b = length buf"
    and "t \<noteq> [] \<Longrightarrow> list_all trimmed t \<Longrightarrow> win_os_strerror F err buf = None"
    and "\<not> list_all trimmed t \<Longrightarrow> \<exists>z. win_os_strerror F err buf = Some (True, trim_end t @ 0 # z) \<and>
           length (trim_end t @ 0 # z) = length buf \<and> 0 \<notin> set t"
proof -
  have F: "length (snd (F e err b)) = length b \<and> (fst (F e err b) \<noteq> 0 \<longrightarrow> fst (F e err b) < length b \<and>
      snd (F e err b) ! fst (F e err b) = 0 \<and> 0 \<notin> set (take (fst (F e err b)) (snd (F e err b))))" for e b
    using assms(1) unfolding format_ok_def case_prod_beta by metis
  define r where "r = F True err buf"
  define n b where "n = (if fst r = 0 then fst (F False err (snd r)) else fst r)"
    and "b = (if fst r = 0 then snd (F False err (snd r)) else snd r)"
  have ok: "length b = length buf" "n \<noteq> 0 \<Longrightarrow> n < length b \<and> b ! n = 0 \<and> 0 \<notin> set (take n b)"
    using F [of True buf] F [of False "snd r"] by (simp_all add: n_def b_def r_def split: if_splits)
  have t: "t = take n b" by (simp add: t0 system_text_def n_def b_def r_def case_prod_beta)
  have w: "win_os_strerror F err buf = (if n = 0 then Some (False, b) else map_option (Pair True) (trim_loop b n))"
    using assms(2) by (cases "trim_loop b n")
      (auto simp: win_os_strerror_def Let_def case_prod_beta n_def b_def r_def)
  show "t = [] \<Longrightarrow> \<exists>b. win_os_strerror F err buf = Some (False, b) \<and> length b = length buf"
    using ok by (cases n) (auto simp: w t)
  show "t \<noteq> [] \<Longrightarrow> list_all trimmed t \<Longrightarrow> win_os_strerror F err buf = None"
    using ok trim_loop_text [of n b] by (cases n) (auto simp: w t)
  assume a: "\<not> list_all trimmed t"
  let ?k = "length (trim_end t)"
  have n: "n \<noteq> 0" using a by (auto simp: t intro: ccontr)
  have k: "?k \<le> n" using length_trim_end [of t] by (simp add: t)
  have l: "trim_loop b n = Some (trim_end t @ replicate (Suc n - ?k) 0 @ drop (Suc n) b)"
    using trim_loop_text [of n b] ok(2) n a by (simp add: t)
  have "replicate (Suc n - ?k) (0 :: byte) = 0 # replicate (n - ?k) 0" using k by (simp add: Suc_diff_le)
  then show "\<exists>z. win_os_strerror F err buf = Some (True, trim_end t @ 0 # z) \<and>
           length (trim_end t @ 0 # z) = length buf \<and> 0 \<notin> set t"
    using l n k ok by (intro exI [of _ "replicate (n - ?k) 0 @ drop (Suc n) b"]) (auto simp: w t)
qed

lemma unknown_text: "error_loop error_list FPX_ERR_UNKNOW = copy_text (bytes ''Unknown error code'')"
  by (rule ext) (simp add: error_list_def err_codes FPX_ERR_UNKNOW_def)

text \<open>
  C38 (win_strerror_text). The text of a code of the system on Windows, for every buffer that is not
  empty: the English text of the system, or the one of its own language, without the full stop
  and the line end behind it, with a terminator inside the buffer; without such a text it is
  "Unknown error code". But a text of nothing but dots and line ends makes the trimming loop
  run over the beginning of the buffer, and an empty buffer is written outside of it.
\<close>

theorem win_strerror_text:
  assumes "format_ok F" "0 < err" "err < FPX_ERROR_DOMAIN_BASE" "buf \<noteq> []"
  shows "let t = system_text F err buf in
    (t = [] \<longrightarrow> (\<exists>b. win_strerror F err buf = Some b \<and> length b = length buf \<and>
       is_cstr b (take (length buf - 1) (bytes ''Unknown error code'')))) \<and>
    (\<not> list_all trimmed t \<longrightarrow> (\<exists>b. win_strerror F err buf = Some b \<and> length b = length buf \<and> is_cstr b (trim_end t))) \<and>
    (t \<noteq> [] \<and> list_all trimmed t \<longrightarrow> win_strerror F err buf = None) \<and>
    win_strerror F err [] = None"
proof -
  define t where "t = system_text F err buf"
  note os = os_strerror_text [OF assms(1,4) t_def]
  have s: "win_strerror F err b = do {
      (ok, b) \<leftarrow> win_os_strerror F err b;
      if ok then Some b else copy_text (bytes ''Unknown error code'') b}" for b
    using assms(2,3) by (simp add: win_strerror_def unknown_text cong: if_cong)
  show ?thesis unfolding t_def [symmetric] Let_def
  proof (intro conjI impI)
    assume "t = []"
    then obtain b where b: "win_os_strerror F err buf = Some (False, b)" "length b = length buf" using os(1) by blast
    then have "b \<noteq> []" using assms(4) by auto
    with b show "\<exists>b. win_strerror F err buf = Some b \<and> length b = length buf \<and>
       is_cstr b (take (length buf - 1) (bytes ''Unknown error code''))"
      using copy_text_cstr [of "bytes ''Unknown error code''" b, OF unknown_nz] assms(4) by (auto simp: s)
  next
    assume "\<not> list_all trimmed t"
    then obtain z where z: "win_os_strerror F err buf = Some (True, trim_end t @ 0 # z)"
      "length (trim_end t @ 0 # z) = length buf" "0 \<notin> set t" using os(3) by blast
    moreover have "set (trim_end t) \<subseteq> set t" by (metis trim_end_prefix set_append Un_upper1)
    ultimately show "\<exists>b. win_strerror F err buf = Some b \<and> length b = length buf \<and> is_cstr b (trim_end t)"
      by (auto simp: s is_cstr_append)
  next
    assume "t \<noteq> [] \<and> list_all trimmed t"
    then show "win_strerror F err buf = None" using os(2) by (simp add: s)
  next
    show "win_strerror F err [] = None" by (simp add: s win_os_strerror_def copy_text_def)
  qed
qed

definition demo_format :: format_message where
  "demo_format english err buf =
     (let t = (if err = 2 then bytes ''No such file.'' @ [0xD, 0xA] else if err = 3 then bytes ''...'' else []) in
      if english \<and> length t < length buf then (length t, t @ 0 # drop (Suc (length t)) buf) else (0, buf))"

lemma demo_format_ok: "format_ok demo_format"
proof -
  have "0 \<notin> set (bytes ''No such file.'')" "0 \<notin> set (bytes ''...'')" by code_simp+
  then show ?thesis by (auto simp: format_ok_def demo_format_def Let_def nth_append)
qed

theorem win_strerror_text_witness:
  "(\<exists>b. win_strerror demo_format 2 (replicate 32 7) = Some b \<and> length b = 32 \<and> is_cstr b (bytes ''No such file'')) \<and>
   (\<exists>b. win_strerror demo_format 9 (replicate 32 7) = Some b \<and> length b = 32 \<and> is_cstr b (bytes ''Unknown error code'')) \<and>
   win_strerror demo_format 3 (replicate 32 7) = None"
proof -
  have e: "0 < (2 :: int)" "2 < FPX_ERROR_DOMAIN_BASE" "0 < (3 :: int)" "3 < FPX_ERROR_DOMAIN_BASE"
    "0 < (9 :: int)" "9 < FPX_ERROR_DOMAIN_BASE" "replicate 32 (7 :: byte) \<noteq> []" by (simp_all add: FPX_ERROR_DOMAIN_BASE_def)
  have t: "\<not> list_all trimmed (system_text demo_format 2 (replicate 32 7))"
    "trim_end (system_text demo_format 2 (replicate 32 7)) = bytes ''No such file''"
    "system_text demo_format 9 (replicate 32 7) = []"
    "system_text demo_format 3 (replicate 32 7) \<noteq> []" "list_all trimmed (system_text demo_format 3 (replicate 32 7))"
    "take (length (replicate 32 (7 :: byte)) - 1) (bytes ''Unknown error code'') = bytes ''Unknown error code''"
    by code_simp+
  show ?thesis
    using win_strerror_text [OF demo_format_ok e(1,2,7)] win_strerror_text [OF demo_format_ok e(3,4,7)]
      win_strerror_text [OF demo_format_ok e(5,6,7)] t by (simp add: Let_def)
qed

end
