(* ===== verification/Fpx_Sockopt.thy ===== *)
theory Fpx_Sockopt
  imports Fpx_Net
begin

unbundle bit_operations_syntax

text \<open>
  Socket options, \<open>src/system/net/sockopt.c\<close>, on FreeBSD, Darwin, Solaris and Windows (the Linux
  variants are in \<open>Fpx_Net\<close>), and what the options of all systems do to a socket. The number
  that \<open>setsockopt\<close> reads is the word of \<open>sizeof(int)\<close> bytes at the address it gets.
\<close>

section \<open>Calls\<close>

datatype sockopt = Reuse_addr | Tcp_nopush

record 'os opts =
  o_errno :: "'os \<Rightarrow> fpx_err_t"
  o_setsockopt :: "fd \<Rightarrow> sockopt \<Rightarrow> 32 word \<Rightarrow> 'os \<Rightarrow> int \<times> 'os"
  o_fionbio :: "fd \<Rightarrow> 32 word \<Rightarrow> 'os \<Rightarrow> int \<times> 'os"

definition unless_minus_one :: "'os opts \<Rightarrow> int \<times> 'os \<Rightarrow> fpx_err_t \<times> 'os" where
  "unless_minus_one N x = (case x of (r, os) \<Rightarrow> (if r = -1 then o_errno N os else FPX_OK, os))"

section \<open>FreeBSD\<close>

text \<open>\<open>code\<close> is the first word of the code of \<open>fpx_socket_nopush\<close>, whose address \<open>fpx_socket_push\<close> passes.\<close>

definition freebsd_socket_nopush :: "'os opts \<Rightarrow> fd \<Rightarrow> 'os \<Rightarrow> fpx_err_t \<times> 'os" where
  "freebsd_socket_nopush N sockfd os = unless_minus_one N (o_setsockopt N sockfd Tcp_nopush 1 os)"

definition freebsd_socket_push :: "'os opts \<Rightarrow> 32 word \<Rightarrow> fd \<Rightarrow> 'os \<Rightarrow> fpx_err_t \<times> 'os" where
  "freebsd_socket_push N code sockfd os = unless_minus_one N (o_setsockopt N sockfd Tcp_nopush code os)"

definition freebsd_socket_nonblocking :: "'os opts \<Rightarrow> fd \<Rightarrow> 'os \<Rightarrow> fpx_err_t \<times> 'os" where
  "freebsd_socket_nonblocking N sockfd os = unless_minus_one N (o_fionbio N sockfd 1 os)"

definition freebsd_socket_blocking :: "'os opts \<Rightarrow> fd \<Rightarrow> 'os \<Rightarrow> fpx_err_t \<times> 'os" where
  "freebsd_socket_blocking N sockfd os = unless_minus_one N (o_fionbio N sockfd 0 os)"

section \<open>Darwin\<close>

definition darwin_socket_nopush :: "'os opts \<Rightarrow> fd \<Rightarrow> 'os \<Rightarrow> fpx_err_t \<times> 'os" where
  "darwin_socket_nopush N sockfd os = unless_minus_one N (o_setsockopt N sockfd Tcp_nopush 1 os)"

definition darwin_socket_push :: "'os opts \<Rightarrow> 32 word \<Rightarrow> fd \<Rightarrow> 'os \<Rightarrow> fpx_err_t \<times> 'os" where
  "darwin_socket_push N code sockfd os = unless_minus_one N (o_setsockopt N sockfd Tcp_nopush code os)"

definition darwin_socket_nonblocking :: "'os opts \<Rightarrow> fd \<Rightarrow> 'os \<Rightarrow> fpx_err_t \<times> 'os" where
  "darwin_socket_nonblocking N sockfd os = unless_minus_one N (o_fionbio N sockfd 1 os)"

definition darwin_socket_blocking :: "'os opts \<Rightarrow> fd \<Rightarrow> 'os \<Rightarrow> fpx_err_t \<times> 'os" where
  "darwin_socket_blocking N sockfd os = unless_minus_one N (o_fionbio N sockfd 0 os)"

section \<open>Solaris and Windows\<close>

definition solaris_socket_nopush :: "fd \<Rightarrow> 'os \<Rightarrow> fpx_err_t \<times> 'os" where
  "solaris_socket_nopush sockfd os = (FPX_OK, os)"

definition solaris_socket_push :: "fd \<Rightarrow> 'os \<Rightarrow> fpx_err_t \<times> 'os" where
  "solaris_socket_push sockfd os = (FPX_OK, os)"

definition solaris_socket_nonblocking :: "'os opts \<Rightarrow> fd \<Rightarrow> 'os \<Rightarrow> fpx_err_t \<times> 'os" where
  "solaris_socket_nonblocking N sockfd os = unless_minus_one N (o_fionbio N sockfd 1 os)"

definition solaris_socket_blocking :: "'os opts \<Rightarrow> fd \<Rightarrow> 'os \<Rightarrow> fpx_err_t \<times> 'os" where
  "solaris_socket_blocking N sockfd os = unless_minus_one N (o_fionbio N sockfd 0 os)"

definition win_socket_nopush :: "fd \<Rightarrow> 'os \<Rightarrow> fpx_err_t \<times> 'os" where
  "win_socket_nopush sockfd os = (FPX_OK, os)"

definition win_socket_push :: "fd \<Rightarrow> 'os \<Rightarrow> fpx_err_t \<times> 'os" where
  "win_socket_push sockfd os = (FPX_OK, os)"

definition win_socket_nonblocking :: "'os opts \<Rightarrow> fd \<Rightarrow> 'os \<Rightarrow> fpx_err_t \<times> 'os" where
  "win_socket_nonblocking N sockfd os =
     (case o_fionbio N sockfd 1 os of (r, os) \<Rightarrow> (if r \<noteq> 0 then o_errno N os else FPX_OK, os))"

definition win_socket_blocking :: "'os opts \<Rightarrow> fd \<Rightarrow> 'os \<Rightarrow> fpx_err_t \<times> 'os" where
  "win_socket_blocking N sockfd os =
     (case o_fionbio N sockfd 0 os of (r, os) \<Rightarrow> (if r \<noteq> 0 then o_errno N os else FPX_OK, os))"

section \<open>What the options do\<close>

text \<open>
  The documented effect: a call that succeeds (returns 0) sets its option to whether the number is not zero
  and leaves the rest of all sockets alone, a failing one returns -1 with an error number and changes no option.
\<close>

record sockstate =
  sk_reuse :: bool
  sk_nopush :: bool
  sk_nonblock :: bool

definition set_opt :: "sockopt \<Rightarrow> bool \<Rightarrow> sockstate \<Rightarrow> sockstate" where
  "set_opt x v s = (case x of Reuse_addr \<Rightarrow> s\<lparr>sk_reuse := v\<rparr> | Tcp_nopush \<Rightarrow> s\<lparr>sk_nopush := v\<rparr>)"

definition effect :: "'os opts \<Rightarrow> ('os \<Rightarrow> fd \<Rightarrow> sockstate) \<Rightarrow> fd \<Rightarrow> 'os \<Rightarrow> int \<times> 'os \<Rightarrow> sockstate \<Rightarrow> bool" where
  "effect N view fd os x s \<longleftrightarrow>
     (fst x = 0 \<and> view (snd x) = (view os)(fd := s)) \<or>
     (fst x = -1 \<and> view (snd x) = view os \<and> o_errno N (snd x) \<noteq> FPX_OK)"

definition opts_ok :: "'os opts \<Rightarrow> ('os \<Rightarrow> fd \<Rightarrow> sockstate) \<Rightarrow> bool" where
  "opts_ok N view \<longleftrightarrow> (\<forall>fd os v.
     (\<forall>x. effect N view fd os (o_setsockopt N fd x v os) (set_opt x (v \<noteq> 0) (view os fd))) \<and>
     effect N view fd os (o_fionbio N fd v os) ((view os fd)\<lparr>sk_nonblock := v \<noteq> 0\<rparr>))"

definition turned :: "('os \<Rightarrow> fd \<Rightarrow> sockstate) \<Rightarrow> fd \<Rightarrow> 'os \<Rightarrow> fpx_err_t \<times> 'os \<Rightarrow> sockstate \<Rightarrow> bool" where
  "turned view fd os x s \<longleftrightarrow>
     view (snd x) = (if fst x = FPX_OK then (view os)(fd := s) else view os)"

lemma effect_turned: "effect N view fd os x s \<Longrightarrow> turned view fd os (unless_minus_one N x) s"
  by (auto simp: effect_def turned_def unless_minus_one_def FPX_OK_def split: prod.splits)

lemma effect_turned_win: "effect N view fd os x s \<Longrightarrow>
   turned view fd os (case x of (r, os) \<Rightarrow> (if r \<noteq> 0 then o_errno N os else FPX_OK, os)) s"
  by (auto simp: effect_def turned_def FPX_OK_def split: prod.splits)

definition sets :: "('os \<Rightarrow> fd \<Rightarrow> sockstate) \<Rightarrow> (fd \<Rightarrow> 'os \<Rightarrow> fpx_err_t \<times> 'os) \<Rightarrow> (sockstate \<Rightarrow> sockstate) \<Rightarrow> bool" where
  "sets view f upd \<longleftrightarrow> (\<forall>fd os. turned view fd os (f fd os) (upd (view os fd)))"

text \<open>The flags of a descriptor on Linux: \<open>F_SETFL\<close> changes those that can be set, \<open>O_NONBLOCK\<close> among them.\<close>

definition fcntl_ok :: "'os net \<Rightarrow> 32 word \<Rightarrow> bool" where
  "fcntl_ok M settable \<longleftrightarrow> settable AND O_NONBLOCK = O_NONBLOCK \<and>
     (\<forall>fd flags os. case n_setfl M fd flags os of (r, os') \<Rightarrow>
        r = 0 \<and> n_getfl M fd os' = (n_getfl M fd os AND NOT settable) OR (flags AND settable) \<or>
        r = -1 \<and> n_errno M os' \<noteq> FPX_OK)"

lemma set_flags:
  assumes "fcntl_ok M settable" "sys_result M (n_setfl M fd flags (ns_os st)) st = (FPX_OK, st')"
  shows "n_getfl M fd (ns_os st') = (n_getfl M fd (ns_os st) AND NOT settable) OR (flags AND settable)"
  using assms unfolding fcntl_ok_def sys_result_def by (fastforce split: prod.splits if_splits)

lemma nonblock_bit: "settable AND O_NONBLOCK = O_NONBLOCK \<Longrightarrow> bit settable n \<or> \<not> bit O_NONBLOCK n"
  by (metis bit_and_iff)

lemma linux_nonblocking:
  assumes "fcntl_ok M settable"
  shows "fpx_socket_nonblocking M fd st = (FPX_OK, st') \<Longrightarrow> n_getfl M fd (ns_os st') = n_getfl M fd (ns_os st) OR O_NONBLOCK"
    and "fpx_socket_blocking M fd st = (FPX_OK, st') \<Longrightarrow> n_getfl M fd (ns_os st') = n_getfl M fd (ns_os st) AND NOT O_NONBLOCK"
proof -
  have n: "bit settable n \<or> \<not> bit O_NONBLOCK n" for n
    using assms by (intro nonblock_bit) (simp add: fcntl_ok_def)
  have "(a AND NOT settable) OR ((a OR O_NONBLOCK) AND settable) = a OR O_NONBLOCK"
    "(a AND NOT settable) OR ((a AND NOT O_NONBLOCK) AND settable) = a AND NOT O_NONBLOCK" for a
    by (rule bit_eqI, use n in \<open>auto simp: bit_simps\<close>)+
  then show "fpx_socket_nonblocking M fd st = (FPX_OK, st') \<Longrightarrow> n_getfl M fd (ns_os st') = n_getfl M fd (ns_os st) OR O_NONBLOCK"
    "fpx_socket_blocking M fd st = (FPX_OK, st') \<Longrightarrow> n_getfl M fd (ns_os st') = n_getfl M fd (ns_os st) AND NOT O_NONBLOCK"
    using set_flags [OF assms] by (simp_all add: fpx_socket_nonblocking_def fpx_socket_blocking_def Let_def)
qed

text \<open>
  C39 (socket_options_effect). Outside Linux the functions for blocking either fail and
  change nothing, or switch the mode of exactly their socket and nothing else; on Linux switching a
  socket to nonblocking and back gives its old flags without \<open>O_NONBLOCK\<close>. Holding back what
  is sent works the same way on FreeBSD and Darwin, but \<open>fpx_socket_push\<close> does not end it
  there: it passes the address of a function, so that the option stays on whenever the code of that function
  does not start with a zero word.
\<close>

theorem socket_options_effect:
  assumes "opts_ok N view" "fcntl_ok M settable"
  shows
    "(\<forall>f\<in>{freebsd_socket_nonblocking N, darwin_socket_nonblocking N, solaris_socket_nonblocking N, win_socket_nonblocking N}.
        sets view f (sk_nonblock_update (\<lambda>_. True))) \<and>
     (\<forall>f\<in>{freebsd_socket_blocking N, darwin_socket_blocking N, solaris_socket_blocking N, win_socket_blocking N}.
        sets view f (sk_nonblock_update (\<lambda>_. False))) \<and>
     (\<forall>f\<in>{freebsd_socket_nopush N, darwin_socket_nopush N}. sets view f (sk_nopush_update (\<lambda>_. True))) \<and>
     (\<forall>f\<in>{freebsd_socket_push N code, darwin_socket_push N code}. sets view f (sk_nopush_update (\<lambda>_. code \<noteq> 0))) \<and>
     (fpx_socket_nonblocking M fd st = (FPX_OK, sta) \<and> fpx_socket_blocking M fd sta = (FPX_OK, stb) \<longrightarrow>
        n_getfl M fd (ns_os sta) = n_getfl M fd (ns_os st) OR O_NONBLOCK \<and>
        n_getfl M fd (ns_os stb) = n_getfl M fd (ns_os st) AND NOT O_NONBLOCK)"
proof -
  have e: "effect N view fd os (o_setsockopt N fd x v os) (set_opt x (v \<noteq> 0) (view os fd))"
    "effect N view fd os (o_fionbio N fd v os) ((view os fd)\<lparr>sk_nonblock := v \<noteq> 0\<rparr>)" for fd os x v
    using assms(1) unfolding opts_ok_def by blast+
  note unix = freebsd_socket_nonblocking_def darwin_socket_nonblocking_def solaris_socket_nonblocking_def
    freebsd_socket_blocking_def darwin_socket_blocking_def solaris_socket_blocking_def
    freebsd_socket_nopush_def darwin_socket_nopush_def freebsd_socket_push_def darwin_socket_push_def
  have t: "turned view fd os (unless_minus_one N (o_fionbio N fd v os)) ((view os fd)\<lparr>sk_nonblock := v \<noteq> 0\<rparr>)"
    "turned view fd os (case o_fionbio N fd v os of (r, os) \<Rightarrow> (if r \<noteq> 0 then o_errno N os else FPX_OK, os))
       ((view os fd)\<lparr>sk_nonblock := v \<noteq> 0\<rparr>)"
    "turned view fd os (unless_minus_one N (o_setsockopt N fd Tcp_nopush v os)) ((view os fd)\<lparr>sk_nopush := v \<noteq> 0\<rparr>)" for fd os v
    using effect_turned [OF e(2)] effect_turned_win [OF e(2)] effect_turned [OF e(1), of fd os Tcp_nopush v]
    by (simp_all add: set_opt_def)
  have b: "n_getfl M fd (ns_os sta) AND NOT O_NONBLOCK = n_getfl M fd (ns_os st) AND NOT O_NONBLOCK"
    if "n_getfl M fd (ns_os sta) = n_getfl M fd (ns_os st) OR O_NONBLOCK"
    unfolding that by (rule bit_eqI) (auto simp: bit_simps)
  show ?thesis
  proof (intro conjI ballI impI)
    fix f
    show "sets view f (sk_nonblock_update (\<lambda>_. True))"
      if "f \<in> {freebsd_socket_nonblocking N, darwin_socket_nonblocking N, solaris_socket_nonblocking N, win_socket_nonblocking N}"
      using that t(1,2) [where v = 1] by (elim insertE emptyE) (simp_all add: sets_def unix win_socket_nonblocking_def)
    show "sets view f (sk_nonblock_update (\<lambda>_. False))"
      if "f \<in> {freebsd_socket_blocking N, darwin_socket_blocking N, solaris_socket_blocking N, win_socket_blocking N}"
      using that t(1,2) [where v = 0] by (elim insertE emptyE) (simp_all add: sets_def unix win_socket_blocking_def)
    show "sets view f (sk_nopush_update (\<lambda>_. True))" if "f \<in> {freebsd_socket_nopush N, darwin_socket_nopush N}"
      using that t(3) [where v = 1] by (elim insertE emptyE) (simp_all add: sets_def unix)
    show "sets view f (sk_nopush_update (\<lambda>_. code \<noteq> 0))" if "f \<in> {freebsd_socket_push N code, darwin_socket_push N code}"
      using that t(3) [where v = code] by (elim insertE emptyE) (simp_all add: sets_def unix)
  next
    assume a: "fpx_socket_nonblocking M fd st = (FPX_OK, sta) \<and> fpx_socket_blocking M fd sta = (FPX_OK, stb)"
    then show n: "n_getfl M fd (ns_os sta) = n_getfl M fd (ns_os st) OR O_NONBLOCK"
      using linux_nonblocking(1) [OF assms(2)] by blast
    show "n_getfl M fd (ns_os stb) = n_getfl M fd (ns_os st) AND NOT O_NONBLOCK"
      using linux_nonblocking(2) [OF assms(2)] a b [OF n] by metis
  qed
qed

text \<open>Sockets as their options.\<close>

definition sock_opts :: "(fd \<Rightarrow> sockstate) opts" where
  "sock_opts = \<lparr>o_errno = (\<lambda>_. 9), o_setsockopt = (\<lambda>fd x v os. (0, os(fd := set_opt x (v \<noteq> 0) (os fd)))),
     o_fionbio = (\<lambda>fd v os. (0, os(fd := (os fd)\<lparr>sk_nonblock := v \<noteq> 0\<rparr>)))\<rparr>"

definition flags_net :: "32 word net" where
  "flags_net = \<lparr>n_errno = (\<lambda>_. 9), n_socket = (\<lambda>_ _ _ os. (3, os)), n_setsockopt = (\<lambda>_ _ os. (0, os)), n_getfl = (\<lambda>_ os. os),
     n_setfl = (\<lambda>_ v os. (0, (os AND NOT 0x6C00) OR (v AND 0x6C00))), n_bind = (\<lambda>_ _ os. (0, os)), n_listen = (\<lambda>_ _ os. (0, os)),
     n_accept = (\<lambda>_ _ os. (4, [], os)), n_connect = (\<lambda>_ _ os. (0, os)), n_shutdown = (\<lambda>_ _ os. (0, os)), n_close = (\<lambda>_ os. os),
     n_getaddrinfo = (\<lambda>_ _ _ os. (0, [], os)), n_getsockname = (\<lambda>_ os. (0, [], os))\<rparr>"

definition sock0 :: sockstate where
  "sock0 = \<lparr>sk_reuse = False, sk_nopush = True, sk_nonblock = False\<rparr>"

theorem socket_options_effect_witness:
  "sk_nopush (snd (freebsd_socket_push sock_opts 0x55 7 (\<lambda>_. sock0)) 7) \<and>
   sk_nonblock (snd (win_socket_nonblocking sock_opts 7 (\<lambda>_. sock0)) 7) \<and>
   (\<exists>st1 st2. fpx_socket_nonblocking flags_net 7 \<lparr>ns_os = 2, ns_trace = []\<rparr> = (FPX_OK, st1) \<and>
      fpx_socket_blocking flags_net 7 st1 = (FPX_OK, st2) \<and> ns_os st1 = 0x802 \<and> ns_os st2 = 2)"
proof -
  have N: "opts_ok sock_opts (\<lambda>os. os)"
    by (simp add: opts_ok_def effect_def sock_opts_def)
  have "(0x6C00 :: 32 word) AND O_NONBLOCK = O_NONBLOCK" by (simp add: O_NONBLOCK_def)
  then have M: "fcntl_ok flags_net 0x6C00" by (simp add: fcntl_ok_def flags_net_def)
  let ?st = "\<lparr>ns_os = (2 :: 32 word), ns_trace = []\<rparr>"
  have l: "fpx_socket_nonblocking flags_net 7 ?st = (FPX_OK, \<lparr>ns_os = 0x802, ns_trace = []\<rparr>) \<and>
      fpx_socket_blocking flags_net 7 \<lparr>ns_os = 0x802, ns_trace = []\<rparr> = (FPX_OK, \<lparr>ns_os = 2, ns_trace = []\<rparr>)"
    by code_simp
  note p = socket_options_effect [OF N M, where code = "0x55" and fd = 7 and st = ?st and
    sta = "\<lparr>ns_os = 0x802, ns_trace = []\<rparr>" and stb = ?st]
  have "sets (\<lambda>os. os) (freebsd_socket_push sock_opts 0x55) (sk_nopush_update (\<lambda>_. True))"
    "sets (\<lambda>os. os) (win_socket_nonblocking sock_opts) (sk_nonblock_update (\<lambda>_. True))"
    using p by simp_all
  from this [unfolded sets_def, THEN spec, THEN spec, of 7 "\<lambda>_. sock0"]
  have "turned (\<lambda>os. os) 7 (\<lambda>_. sock0) (freebsd_socket_push sock_opts 0x55 7 (\<lambda>_. sock0)) (sock0\<lparr>sk_nopush := True\<rparr>)"
    "turned (\<lambda>os. os) 7 (\<lambda>_. sock0) (win_socket_nonblocking sock_opts 7 (\<lambda>_. sock0)) (sock0\<lparr>sk_nonblock := True\<rparr>)"
    by simp_all
  moreover have "fst (freebsd_socket_push sock_opts 0x55 7 (\<lambda>_. sock0)) = FPX_OK"
    "fst (win_socket_nonblocking sock_opts 7 (\<lambda>_. sock0)) = FPX_OK"
    by (simp_all add: freebsd_socket_push_def win_socket_nonblocking_def unless_minus_one_def sock_opts_def)
  ultimately show ?thesis using l by (simp add: turned_def)
qed

end
