(* ===== verification/Fpx_Winsync.thy ===== *)
theory Fpx_Winsync
  imports Fpx_Sync
begin

unbundle bit_operations_syntax

text \<open>
  Mutexes, semaphores, threads and processes on Windows, and semaphores of Grand Central Dispatch:
  the remaining parts of \<open>src/system/sync/mutex.c\<close>, \<open>sync/semaphore.c\<close>, \<open>thread.c\<close> and
  \<open>process.c\<close>. The calls are values of a type, as in \<open>Fpx_Sync\<close>, whose trace records the objects and
  threads that come and go. Handles, numbers and truth values are 64-bit words.
\<close>

section \<open>Calls\<close>

datatype wcall =
  Create_mutex | Release_mutex addr | Wait_object addr bool | Close_handle addr
| Init_section addr | Enter_section addr | Try_enter_section addr | Leave_section addr | Delete_section addr
| Create_semaphore "32 word" "32 word" | Release_semaphore addr
| Create_thread size_t | Set_priority addr int | Terminate_thread addr
| Dispatch_create "32 word" | Dispatch_wait addr bool | Dispatch_signal addr
| Hide_console | Free_console | Close_fd fd | Set_directory path

record 'os wsys =
  y_errno :: "'os \<Rightarrow> fpx_err_t"
  y_call :: "wcall \<Rightarrow> 'os \<Rightarrow> 64 word \<times> 'os"

definition wcall :: "'os wsys \<Rightarrow> wcall \<Rightarrow> 'os tst \<Rightarrow> 64 word \<times> 'os tst" where
  "wcall W c st = (case y_call W c (ts_os st) of (r, os) \<Rightarrow> (r, st\<lparr>ts_os := os\<rparr>))"

definition werrno :: "'os wsys \<Rightarrow> 'os tst \<Rightarrow> fpx_err_t" where
  "werrno W st = y_errno W (ts_os st)"

text \<open>A call whose result 0 means that it failed.\<close>

definition unless_zero :: "'os wsys \<Rightarrow> 64 word \<times> 'os tst \<Rightarrow> fpx_err_t \<times> 'os tst" where
  "unless_zero W x = (case x of (r, st) \<Rightarrow> (if r = 0 then werrno W st else FPX_OK, st))"

definition WAIT_OBJECT_0 :: "64 word" where "WAIT_OBJECT_0 = 0"
definition WAIT_ABANDONED :: "64 word" where "WAIT_ABANDONED = 0x80"

text \<open>Waiting for ever, and looking once.\<close>

definition wait_forever :: "'os wsys \<Rightarrow> addr \<Rightarrow> 'os tst \<Rightarrow> fpx_err_t \<times> 'os tst" where
  "wait_forever W h st =
     (case wcall W (Wait_object h True) st of (r, st) \<Rightarrow> (if r \<noteq> WAIT_OBJECT_0 then werrno W st else FPX_OK, st))"

definition wait_now :: "'os wsys \<Rightarrow> addr \<Rightarrow> 'os tst \<Rightarrow> fpx_err_t \<times> 'os tst" where
  "wait_now W h st =
     (case wcall W (Wait_object h False) st of (r, st) \<Rightarrow> (if r \<noteq> WAIT_OBJECT_0 then FPX_BUSY else FPX_OK, st))"

definition close_handle :: "'os wsys \<Rightarrow> addr \<Rightarrow> 'os tst \<Rightarrow> 'os tst" where
  "close_handle W h st = ev (Gone h) (snd (wcall W (Close_handle h) st))"

section \<open>Mutexes\<close>

text \<open>A mutex holds a handle or, if it is recursive, a critical section, known by the address of the mutex.\<close>

record win_mutex =
  wm_handle :: addr
  wm_section :: bool

definition win_mutex_init :: "'os wsys \<Rightarrow> addr \<Rightarrow> win_mutex \<Rightarrow> 32 word \<Rightarrow> 'os tst \<Rightarrow> fpx_err_t \<times> win_mutex \<times> 'os tst" where
  "win_mutex_init W m mutex params st =
     (if params AND FPX_MUTEX_RECURSIVE \<noteq> 0 then
        (FPX_OK, mutex\<lparr>wm_handle := NULL, wm_section := True\<rparr>, ev (New m) (snd (wcall W (Init_section m) st)))
      else
        case wcall W Create_mutex st of (h, st) \<Rightarrow>
          if h = NULL then (werrno W st, mutex, st)
          else (FPX_OK, mutex\<lparr>wm_handle := h, wm_section := False\<rparr>, ev (New h) st))"

definition win_mutex_lock :: "'os wsys \<Rightarrow> addr \<Rightarrow> win_mutex \<Rightarrow> 'os tst \<Rightarrow> fpx_err_t \<times> 'os tst" where
  "win_mutex_lock W m mutex st =
     (if wm_section mutex then (FPX_OK, snd (wcall W (Enter_section m) st))
      else wait_forever W (wm_handle mutex) st)"

definition win_mutex_trylock :: "'os wsys \<Rightarrow> addr \<Rightarrow> win_mutex \<Rightarrow> 'os tst \<Rightarrow> fpx_err_t \<times> 'os tst" where
  "win_mutex_trylock W m mutex st =
     (if wm_section mutex then
        case wcall W (Try_enter_section m) st of (r, st) \<Rightarrow> (if r = 0 then FPX_BUSY else FPX_OK, st)
      else wait_now W (wm_handle mutex) st)"

definition win_mutex_unlock :: "'os wsys \<Rightarrow> addr \<Rightarrow> win_mutex \<Rightarrow> 'os tst \<Rightarrow> fpx_err_t \<times> 'os tst" where
  "win_mutex_unlock W m mutex st =
     (if wm_section mutex then (FPX_OK, snd (wcall W (Leave_section m) st))
      else unless_zero W (wcall W (Release_mutex (wm_handle mutex)) st))"

definition win_mutex_fini :: "'os wsys \<Rightarrow> addr \<Rightarrow> win_mutex \<Rightarrow> 'os tst \<Rightarrow> 'os tst" where
  "win_mutex_fini W m mutex st =
     (if wm_section mutex then ev (Gone m) (snd (wcall W (Delete_section m) st))
      else close_handle W (wm_handle mutex) st)"

section \<open>Semaphores\<close>

text \<open>A semaphore is its handle.\<close>

definition win_semaphore_init :: "'os wsys \<Rightarrow> addr \<Rightarrow> 32 word \<Rightarrow> 32 word \<Rightarrow> 'os tst \<Rightarrow> fpx_err_t \<times> addr \<times> 'os tst" where
  "win_semaphore_init W semaphore val maxval st =
     (case wcall W (Create_semaphore val maxval) st of (s, st) \<Rightarrow>
        if s = NULL then (werrno W st, semaphore, st) else (FPX_OK, s, ev (New s) st))"

definition win_semaphore_wait :: "'os wsys \<Rightarrow> addr \<Rightarrow> 'os tst \<Rightarrow> fpx_err_t \<times> 'os tst" where
  "win_semaphore_wait W semaphore st = wait_forever W semaphore st"

definition win_semaphore_trywait :: "'os wsys \<Rightarrow> addr \<Rightarrow> 'os tst \<Rightarrow> fpx_err_t \<times> 'os tst" where
  "win_semaphore_trywait W semaphore st = wait_now W semaphore st"

definition win_semaphore_post :: "'os wsys \<Rightarrow> addr \<Rightarrow> 'os tst \<Rightarrow> fpx_err_t \<times> 'os tst" where
  "win_semaphore_post W semaphore st = unless_zero W (wcall W (Release_semaphore semaphore) st)"

definition win_semaphore_fini :: "'os wsys \<Rightarrow> addr \<Rightarrow> 'os tst \<Rightarrow> 'os tst" where
  "win_semaphore_fini W semaphore st = close_handle W semaphore st"

definition gcd_semaphore_init :: "'os wsys \<Rightarrow> addr \<Rightarrow> 32 word \<Rightarrow> 'os tst \<Rightarrow> fpx_err_t \<times> addr \<times> 'os tst" where
  "gcd_semaphore_init W semaphore val st =
     (case wcall W (Dispatch_create val) st of (s, st) \<Rightarrow>
        if s = NULL then (werrno W st, semaphore, st) else (FPX_OK, s, ev (New s) st))"

definition gcd_semaphore_wait :: "'os wsys \<Rightarrow> addr \<Rightarrow> 'os tst \<Rightarrow> fpx_err_t \<times> 'os tst" where
  "gcd_semaphore_wait W semaphore st = (FPX_OK, snd (wcall W (Dispatch_wait semaphore True) st))"

definition gcd_semaphore_trywait :: "'os wsys \<Rightarrow> addr \<Rightarrow> 'os tst \<Rightarrow> fpx_err_t \<times> 'os tst" where
  "gcd_semaphore_trywait W semaphore st =
     (case wcall W (Dispatch_wait semaphore False) st of (r, st) \<Rightarrow> (if r \<noteq> 0 then FPX_BUSY else FPX_OK, st))"

definition gcd_semaphore_post :: "'os wsys \<Rightarrow> addr \<Rightarrow> 'os tst \<Rightarrow> fpx_err_t \<times> 'os tst" where
  "gcd_semaphore_post W semaphore st = (FPX_OK, snd (wcall W (Dispatch_signal semaphore) st))"

definition gcd_semaphore_fini :: "addr \<Rightarrow> 'os tst \<Rightarrow> 'os tst" where
  "gcd_semaphore_fini semaphore st = st"

section \<open>Threads\<close>

text \<open>A thread is its handle, too.\<close>

definition win_thread_init :: "'os wsys \<Rightarrow> addr \<Rightarrow> size_t \<Rightarrow> int \<Rightarrow> 'os tst \<Rightarrow> fpx_err_t \<times> addr \<times> 'os tst" where
  "win_thread_init W thread stack_size prio st =
     (case wcall W (Create_thread stack_size) st of (t, st) \<Rightarrow>
        if t = NULL then (werrno W st, thread, st)
        else
          case wcall W (Set_priority t prio) (ev (Started t) st) of (r, st) \<Rightarrow>
            if r = 0 then (werrno W st, thread, st) else (FPX_OK, t, st))"

definition win_thread_join :: "'os wsys \<Rightarrow> addr \<Rightarrow> 'os tst \<Rightarrow> fpx_err_t \<times> 'os tst" where
  "win_thread_join W thread st = wait_forever W thread st"

definition win_thread_cancel :: "'os wsys \<Rightarrow> addr \<Rightarrow> 'os tst \<Rightarrow> fpx_err_t \<times> 'os tst" where
  "win_thread_cancel W thread st = unless_zero W (wcall W (Terminate_thread thread) st)"

definition win_thread_fini :: "'os wsys \<Rightarrow> addr \<Rightarrow> 'os tst \<Rightarrow> 'os tst" where
  "win_thread_fini W thread st = close_handle W thread st"

definition fpx_thread_fini :: "addr \<Rightarrow> 'os tst \<Rightarrow> 'os tst" where
  "fpx_thread_fini thread st = st"

section \<open>Processes\<close>

definition win_process_become_daemon :: "'os wsys \<Rightarrow> 'os tst \<Rightarrow> fpx_err_t \<times> 'os tst" where
  "win_process_become_daemon W st =
     (case wcall W Free_console (snd (wcall W Hide_console st)) of (r, st) \<Rightarrow>
        if r = 0 then (werrno W st, st)
        else (FPX_OK, snd (wcall W (Close_fd 2) (snd (wcall W (Close_fd 1) (snd (wcall W (Close_fd 0) st)))))))"

definition win_process_set_workdir :: "'os wsys \<Rightarrow> path \<Rightarrow> 'os tst \<Rightarrow> fpx_err_t \<times> 'os tst" where
  "win_process_set_workdir W workdir st = unless_zero W (wcall W (Set_directory workdir) st)"

definition win_process_set_user :: "path \<Rightarrow> 'os tst \<Rightarrow> fpx_err_t \<times> 'os tst" where
  "win_process_set_user user st = (FPX_OK, st)"

definition win_process_set_group :: "path \<Rightarrow> 'os tst \<Rightarrow> fpx_err_t \<times> 'os tst" where
  "win_process_set_group grp st = (FPX_OK, st)"

section \<open>Ownership and handles\<close>

text \<open>
  What is documented of Windows: a failed creation sets the last error; a wait that returns
  \<open>WAIT_OBJECT_0\<close> or \<open>WAIT_ABANDONED\<close> makes the caller the owner of the mutex, and only
  a failing wait sets the last error.
\<close>

definition wsys_ok :: "'os wsys \<Rightarrow> ('os \<Rightarrow> addr \<Rightarrow> bool) \<Rightarrow> bool" where
  "wsys_ok W owns \<longleftrightarrow> (\<forall>os.
     (fst (y_call W Create_mutex os) = NULL \<longrightarrow> y_errno W (snd (y_call W Create_mutex os)) \<noteq> FPX_OK) \<and>
     (\<forall>t p. fst (y_call W (Set_priority t p) os) = 0 \<longrightarrow> y_errno W (snd (y_call W (Set_priority t p) os)) \<noteq> FPX_OK) \<and>
     (\<forall>h b. fst (y_call W (Wait_object h b) os) \<in> {WAIT_OBJECT_0, WAIT_ABANDONED} \<longrightarrow>
        owns (snd (y_call W (Wait_object h b) os)) h \<and>
        y_errno W (snd (y_call W (Wait_object h b) os)) = y_errno W os))"

lemma wcall_trace [simp]: "ts_trace (snd (wcall W c st)) = ts_trace st"
  by (simp add: wcall_def split: prod.splits)

text \<open>
  C40 (win_sync_errors). The wrappers of Windows. Making a mutex either makes one object, which its
  end gives back, or fails and makes none. But the result of taking a mutex whose last owner ended without
  releasing it says nothing: the caller owns it in either case, while trying to lock says that it is busy, and
  locking returns whatever the last error happened to be, which is success exactly when that was zero. A thread whose
  priority cannot be set runs all the same, while its handle is not kept. And the end of a
  semaphore of Grand Central Dispatch gives nothing back.
\<close>

theorem win_sync_errors:
  assumes "wsys_ok W owns"
  shows "(case win_mutex_init W m mutex params st of (err, mutex', st') \<Rightarrow>
      if err = FPX_OK then
        \<exists>x. ts_trace st' = ts_trace st @ [New x] \<and> ts_trace (win_mutex_fini W m mutex' os) = ts_trace os @ [Gone x]
      else mutex' = mutex \<and> ts_trace st' = ts_trace st) \<and>
    (\<not> wm_section mutex \<and> fst (y_call W (Wait_object (wm_handle mutex) True) (ts_os st)) = WAIT_ABANDONED \<longrightarrow>
      fst (win_mutex_lock W m mutex st) = werrno W st \<and>
      owns (ts_os (snd (win_mutex_lock W m mutex st))) (wm_handle mutex)) \<and>
    (\<not> wm_section mutex \<and> fst (y_call W (Wait_object (wm_handle mutex) False) (ts_os st)) = WAIT_ABANDONED \<longrightarrow>
      fst (win_mutex_trylock W m mutex st) = FPX_BUSY \<and>
      owns (ts_os (snd (win_mutex_trylock W m mutex st))) (wm_handle mutex)) \<and>
    (y_call W (Create_thread stack) (ts_os st) = (t, osa) \<and> t \<noteq> NULL \<and> fst (y_call W (Set_priority t prio) osa) = 0 \<longrightarrow>
      (\<exists>err st'. win_thread_init W thread stack prio st = (err, thread, st') \<and> err \<noteq> FPX_OK \<and>
         ts_trace st' = ts_trace st @ [Started t])) \<and>
    ts_trace (gcd_semaphore_fini thread st) = ts_trace st"
proof -
  have cr: "y_call W Create_mutex z = (NULL, x) \<Longrightarrow> y_errno W x \<noteq> FPX_OK"
    and pr: "y_call W (Set_priority th p) z = (0, x) \<Longrightarrow> y_errno W x \<noteq> FPX_OK"
    and wt: "y_call W (Wait_object h b) z = (WAIT_ABANDONED, x) \<Longrightarrow> owns x h \<and> y_errno W x = y_errno W z" for z x th p h b
    using assms unfolding wsys_ok_def by (metis fst_conv snd_conv insertCI)+
  have nz: "WAIT_ABANDONED \<noteq> WAIT_OBJECT_0" by (simp add: WAIT_ABANDONED_def WAIT_OBJECT_0_def)
  show ?thesis
  proof (intro conjI impI)
    show "case win_mutex_init W m mutex params st of (err, mutex', st') \<Rightarrow>
      if err = FPX_OK then
        \<exists>x. ts_trace st' = ts_trace st @ [New x] \<and> ts_trace (win_mutex_fini W m mutex' os) = ts_trace os @ [Gone x]
      else mutex' = mutex \<and> ts_trace st' = ts_trace st"
      using cr by (auto simp: win_mutex_init_def win_mutex_fini_def close_handle_def wcall_def werrno_def
          split: prod.splits if_splits)
  qed (use nz in \<open>auto simp: win_mutex_lock_def win_mutex_trylock_def wait_forever_def wait_now_def wcall_def werrno_def
      win_thread_init_def gcd_semaphore_fini_def split: prod.splits dest: pr wt\<close>)
qed

text \<open>A system whose only mutex was abandoned; its state is whether the caller owns that mutex.\<close>

definition abandoned_sys :: "bool wsys" where
  "abandoned_sys = \<lparr>y_errno = (\<lambda>_. 5), y_call = (\<lambda>c os. case c of Create_mutex \<Rightarrow> (0x10, os) | Create_thread _ \<Rightarrow> (0x20, os)
     | Set_priority _ _ \<Rightarrow> (0, os) | Wait_object _ _ \<Rightarrow> (WAIT_ABANDONED, True) | _ \<Rightarrow> (1, os))\<rparr>"

theorem win_sync_errors_witness:
  "fst (win_mutex_trylock abandoned_sys 0x40 \<lparr>wm_handle = 0x10, wm_section = False\<rparr> \<lparr>ts_os = False, ts_trace = []\<rparr>) = FPX_BUSY \<and>
   ts_os (snd (win_mutex_trylock abandoned_sys 0x40 \<lparr>wm_handle = 0x10, wm_section = False\<rparr> \<lparr>ts_os = False, ts_trace = []\<rparr>)) \<and>
   fst (win_mutex_lock abandoned_sys 0x40 \<lparr>wm_handle = 0x10, wm_section = False\<rparr> \<lparr>ts_os = False, ts_trace = []\<rparr>) = 5 \<and>
   (\<exists>err st'. win_thread_init abandoned_sys 0 0 9 \<lparr>ts_os = False, ts_trace = []\<rparr> = (err, 0, st') \<and> ts_trace st' = [Started 0x20])"
proof -
  let ?m = "\<lparr>wm_handle = 0x10, wm_section = False\<rparr>" and ?st = "\<lparr>ts_os = False, ts_trace = []\<rparr>"
  have ok: "wsys_ok abandoned_sys (\<lambda>os _. os)"
    by (simp add: wsys_ok_def abandoned_sys_def WAIT_OBJECT_0_def WAIT_ABANDONED_def FPX_OK_def)
  have "\<not> wm_section ?m" "fst (y_call abandoned_sys (Wait_object (wm_handle ?m) b) (ts_os ?st)) = WAIT_ABANDONED" for b
    by (simp_all add: abandoned_sys_def)
  moreover have "y_call abandoned_sys (Create_thread 0) (ts_os ?st) = (0x20, False)" "(0x20 :: addr) \<noteq> NULL"
    "fst (y_call abandoned_sys (Set_priority 0x20 9) False) = 0" "werrno abandoned_sys ?st = 5"
    by (simp_all add: abandoned_sys_def werrno_def)
  ultimately show ?thesis
    using win_sync_errors [OF ok, where m = "0x40" and mutex = ?m and st = ?st and stack = 0 and t = "0x20" and osa = False
      and prio = 9 and thread = 0 and params = 0 and os = ?st] by auto
qed

end
