(* ===== verification/Fpx_Module.thy ===== *)
theory Fpx_Module
  imports Fpx_Filesys
begin

unbundle bit_operations_syntax

text \<open>
  Modules and their command tables (\<open>src/core/module.c\<close>, the structures of \<open>module.h\<close> and
  \<open>command.h\<close>, the lookups of \<open>src/core/command.c\<close>). A module hook is a function pointer;
  what the hooks do to the rest of the server is a parameter, and so is the dynamic loader.
\<close>

section \<open>Structures\<close>

text \<open>The functions that a command table may name; other modules bring their own.\<close>

datatype handler_id =
  H_include | H_import | H_listen | H_log | H_flag | H_str | H_size | H_uint | H_module nat

text \<open>The members of \<open>fpx_server_t\<close> that the offsets of the core commands select.\<close>

datatype field = F_none | F_daemon | F_workdir | F_priority | F_user | F_group

record command =
  cm_name :: "byte list"
  cm_takes :: "32 word"
  cm_handler :: handler_id
  cm_offset :: field

record module =
  m_name :: "byte list"
  m_version :: "32 word"
  m_cmd :: "command list"
  m_preinit :: addr
  m_init :: addr
  m_fini :: addr
  m_cntx :: addr
  m_handle :: addr
  m_preinited :: bool
  m_inited :: bool

record 's hooks =
  hk_preinit :: "addr \<Rightarrow> 's \<Rightarrow> addr \<times> 's"
  hk_init :: "addr \<Rightarrow> addr \<Rightarrow> 's \<Rightarrow> fpx_err_t \<times> 's"
  hk_fini :: "addr \<Rightarrow> addr \<Rightarrow> 's \<Rightarrow> 's"

section \<open>The module list\<close>

definition fpx_add_module :: "module list \<Rightarrow> module \<Rightarrow> fpx_err_t \<times> module list" where
  "fpx_add_module modules module =
     (if list_ex (\<lambda>m. m_name m = m_name module) modules then (FPX_FAILED, modules)
      else (FPX_OK, modules @ [module]))"

fun fpx_setup_prelinked_modules :: "module list \<Rightarrow> module list \<Rightarrow> fpx_err_t \<times> module list" where
  "fpx_setup_prelinked_modules modules [] = (FPX_OK, modules)"
| "fpx_setup_prelinked_modules modules (m # preloaded) =
     (case fpx_add_module modules m of
        (err, modules) \<Rightarrow>
          if err \<noteq> FPX_OK then (err, modules)
          else fpx_setup_prelinked_modules modules preloaded)"

text \<open>
  The loop of \<open>fpx_preinit_modules\<close>: \<open>cntx\<close> is declared outside the loop, so that a module
  without a hook gets the context of the module before it, and a module that is already
  preinited ends the loop.
\<close>

fun preinit_loop :: "'s hooks \<Rightarrow> module list \<Rightarrow> addr \<Rightarrow> 's \<Rightarrow> fpx_err_t \<times> module list \<times> 's" where
  "preinit_loop H [] cntx s = (FPX_OK, [], s)"
| "preinit_loop H (m # ms) cntx s =
     (if m_preinited m then (FPX_OK, m # ms, s)
      else
        let (cntx, s) = (if m_preinit m \<noteq> NULL then hk_preinit H (m_preinit m) s else (cntx, s)) in
        if m_preinit m \<noteq> NULL \<and> cntx = NULL then (FPX_FAILED, m # ms, s)
        else case preinit_loop H ms cntx s of
          (err, ms, s) \<Rightarrow> (err, m\<lparr>m_cntx := cntx, m_preinited := True\<rparr> # ms, s))"

definition fpx_preinit_modules :: "'s hooks \<Rightarrow> module list \<Rightarrow> 's \<Rightarrow> fpx_err_t \<times> module list \<times> 's" where
  "fpx_preinit_modules H modules s = preinit_loop H modules NULL s"

text \<open>
  The loop of \<open>fpx_init_modules\<close>: \<open>err\<close> has no initial value, and a first module without an
  \<open>init\<close> hook makes the test read it.
\<close>

fun init_loop :: "'s hooks \<Rightarrow> module list \<Rightarrow> fpx_err_t option \<Rightarrow> 's \<Rightarrow>
    (fpx_err_t \<times> module list \<times> 's) option" where
  "init_loop H [] err s = Some (FPX_OK, [], s)"
| "init_loop H (m # ms) err s =
     (if m_inited m then Some (FPX_OK, m # ms, s)
      else
        let (err, s) = (if m_init m \<noteq> NULL then
            case hk_init H (m_init m) (m_cntx m) s of (e, s) \<Rightarrow> (Some e, s) else (err, s)) in
        case err of
          None \<Rightarrow> None
        | Some e \<Rightarrow>
            if e \<noteq> FPX_OK then Some (FPX_FAILED, m # ms, s)
            else map_option (\<lambda>(r, ms, s). (r, m\<lparr>m_inited := True\<rparr> # ms, s)) (init_loop H ms err s))"

definition fpx_init_modules :: "'s hooks \<Rightarrow> module list \<Rightarrow> 's \<Rightarrow> (fpx_err_t \<times> module list \<times> 's) option" where
  "fpx_init_modules H modules s = init_loop H modules None s"

fun fpx_modules_fini :: "'s hooks \<Rightarrow> module list \<Rightarrow> 's \<Rightarrow> 's" where
  "fpx_modules_fini H [] s = s"
| "fpx_modules_fini H (m # ms) s =
     fpx_modules_fini H ms (if m_fini m \<noteq> NULL then hk_fini H (m_fini m) (m_cntx m) s else s)"

text \<open>
  Loading: the loader gives a handle for a file name and the module behind a handle. The
  result holds the module, the list, the value left in \<open>errno\<close> and the closed handle.
\<close>

record dl =
  dl_open :: "byte list \<Rightarrow> addr"
  dl_sym :: "addr \<Rightarrow> module option"

record loaded =
  ld_module :: "module option"
  ld_modules :: "module list"
  ld_errno :: fpx_err_t
  ld_closed :: "addr option"

definition fpx_load_module :: "dl \<Rightarrow> module list \<Rightarrow> byte list \<Rightarrow> fpx_err_t \<Rightarrow> loaded option" where
  "fpx_load_module D modules fname errno = do {
     err \<leftarrow> fpx_check_absolute_path (fname @ [0]);
     if err \<noteq> FPX_OK then
       Some \<lparr>ld_module = None, ld_modules = modules, ld_errno = err, ld_closed = None\<rparr>
     else
       let handle = dl_open D fname in
       if handle = NULL then
         Some \<lparr>ld_module = None, ld_modules = modules, ld_errno = FPX_FAILED, ld_closed = None\<rparr>
       else case dl_sym D handle of
         None \<Rightarrow> Some \<lparr>ld_module = None, ld_modules = modules, ld_errno = FPX_FAILED, ld_closed = Some handle\<rparr>
       | Some module \<Rightarrow>
           let module = module\<lparr>m_handle := handle\<rparr>; (err, modules) = fpx_add_module modules module in
           if err \<noteq> FPX_OK then
             Some \<lparr>ld_module = None, ld_modules = modules, ld_errno = err, ld_closed = Some handle\<rparr>
           else Some \<lparr>ld_module = Some module, ld_modules = modules, ld_errno = errno, ld_closed = None\<rparr>
   }"

text \<open>Unloading calls the \<open>fini\<close> hook without a test; a NULL hook is undefined.\<close>

definition fpx_unload_module :: "'s hooks \<Rightarrow> module \<Rightarrow> 's \<Rightarrow> (addr option \<times> 's) option" where
  "fpx_unload_module H module s =
     (if m_fini module = NULL then None
      else Some (if m_handle module \<noteq> NULL then Some (m_handle module) else None,
                 hk_fini H (m_fini module) (m_cntx module) s))"

section \<open>Commands\<close>

fun fpx_find_command_in_modules :: "module list \<Rightarrow> byte list \<Rightarrow> command option" where
  "fpx_find_command_in_modules [] cmd_name = None"
| "fpx_find_command_in_modules (m # ms) cmd_name =
     (case find (\<lambda>c. cm_name c = cmd_name) (m_cmd m) of
        Some c \<Rightarrow> Some c
      | None \<Rightarrow> fpx_find_command_in_modules ms cmd_name)"

fun fpx_find_module_by_command :: "module list \<Rightarrow> byte list \<Rightarrow> module option" where
  "fpx_find_module_by_command [] cmd_name = None"
| "fpx_find_module_by_command (m # ms) cmd_name =
     (if find (\<lambda>c. cm_name c = cmd_name) (m_cmd m) \<noteq> None then Some m
      else fpx_find_module_by_command ms cmd_name)"

definition fpx_takes :: "nat \<Rightarrow> 32 word" where
  "fpx_takes i = push_bit i 1"

definition takes_step :: "32 word \<Rightarrow> nat \<Rightarrow> nat \<times> nat \<Rightarrow> nat \<times> nat" where
  "takes_step takes i = (\<lambda>(min_takes, max_takes).
     if takes AND fpx_takes i \<noteq> 0 then
       (if min_takes = 0 then i else min_takes, if max_takes < i then i else max_takes)
     else (min_takes, max_takes))"

definition fpx_check_directive_arguments :: "nat \<Rightarrow> command \<Rightarrow> fpx_err_t" where
  "fpx_check_directive_arguments argc cmd =
     (let (min_takes, max_takes) = fold (takes_step (cm_takes cmd)) [0..<8] (0, 0) in
      if \<not> (argc = min_takes \<or> argc \<le> max_takes \<and> argc \<ge> min_takes) then FPX_ERR_CONFIG_SYNTAX
      else FPX_OK)"

section \<open>Properties of the module list\<close>

lemma fpx_add_module_distinct:
  assumes "distinct (map m_name modules)"
  shows "distinct (map m_name (snd (fpx_add_module modules m)))"
  using assms by (auto simp: fpx_add_module_def list_ex_iff)

text \<open>
  Loading a module either fails with an error in \<open>errno\<close> and
  leaves the list of modules as it was, closing the handle it had opened, or appends the
  module that the loader found under an absolute path. The names in the list stay distinct:
  a second module of the same name is refused.
\<close>

theorem fpx_load_module_effect:
  assumes "distinct (map m_name modules)"
  shows "\<exists>r. fpx_load_module D modules fname errno = Some r \<and> distinct (map m_name (ld_modules r)) \<and>
    (case ld_module r of
       None \<Rightarrow> ld_modules r = modules \<and> ld_errno r \<noteq> FPX_OK \<and>
         (ld_closed r = None \<longrightarrow> fname = [] \<or> hd fname \<noteq> FPX_PATH_SEPARATOR \<or> dl_open D fname = NULL)
     | Some m \<Rightarrow> ld_modules r = modules @ [m] \<and> m_handle m = dl_open D fname \<and> hd fname = FPX_PATH_SEPARATOR)"
  using assms
  by (cases fname)
    (auto simp: fpx_load_module_def fpx_check_absolute_path_def fpx_add_module_def Let_def list_ex_iff
      FPX_PATH_SEPARATOR_def split: if_splits option.splits)

definition demo_module :: module where
  "demo_module = \<lparr>m_name = bytes ''core'', m_version = 4,
     m_cmd = [\<lparr>cm_name = bytes ''listen'', cm_takes = 2, cm_handler = H_listen, cm_offset = F_none\<rparr>],
     m_preinit = 100, m_init = 101, m_fini = 0, m_cntx = 0, m_handle = 0, m_preinited = False, m_inited = False\<rparr>"

definition demo_dl :: dl where
  "demo_dl = \<lparr>dl_open = (\<lambda>_. 500), dl_sym = (\<lambda>_. Some demo_module)\<rparr>"

theorem fpx_load_module_effect_witness:
  "\<exists>r. fpx_load_module demo_dl [demo_module] [0x2F, 0x61] 0 = Some r \<and> distinct (map m_name (ld_modules r)) \<and>
     ld_modules r = [demo_module]"
proof -
  have d: "distinct (map m_name [demo_module])" by simp
  obtain r where r: "fpx_load_module demo_dl [demo_module] [0x2F, 0x61] 0 = Some r"
    and u: "distinct (map m_name (ld_modules r))"
    using fpx_load_module_effect [OF d, of demo_dl "[0x2F, 0x61]" 0] by blast
  have "ld_modules r = [demo_module]" using r
    by (auto simp: fpx_load_module_def fpx_check_absolute_path_def FPX_PATH_SEPARATOR_def demo_dl_def
        fpx_add_module_def Let_def demo_module_def)
  with r u show ?thesis by blast
qed

lemma preinit_loop_all:
  assumes "\<forall>m\<in>set ms. \<not> m_preinited m"
  shows "case preinit_loop H ms cntx s of (err, ms', s') \<Rightarrow>
    map m_name ms' = map m_name ms \<and> (err = FPX_OK \<or> err = FPX_FAILED) \<and>
    (err = FPX_OK \<longrightarrow> (\<forall>m\<in>set ms'. m_preinited m \<and> (m_preinit m \<noteq> NULL \<longrightarrow> m_cntx m \<noteq> NULL)))"
  using assms
proof (induction ms arbitrary: cntx s)
  case (Cons m ms)
  obtain c s1 where c: "(if m_preinit m \<noteq> NULL then hk_preinit H (m_preinit m) s else (cntx, s)) = (c, s1)"
    by fastforce
  obtain err ms1 s2 where r: "preinit_loop H ms c s1 = (err, ms1, s2)" by (metis prod_cases3)
  from Cons.IH [of c s1] Cons.prems r have IH: "map m_name ms1 = map m_name ms"
    "err = FPX_OK \<or> err = FPX_FAILED"
    "err = FPX_OK \<longrightarrow> (\<forall>m\<in>set ms1. m_preinited m \<and> (m_preinit m \<noteq> NULL \<longrightarrow> m_cntx m \<noteq> NULL))"
    by auto
  have "\<not> m_preinited m" using Cons.prems by simp
  with IH r c show ?case by (auto simp: Let_def simp del: split_paired_All)
qed simp

text \<open>
  Preinitialising a list in which no module has been
  preinitialised yet succeeds only when every module has been given a context by its hook,
  and marks all of them. But once the first module of the list is preinitialised, as it is
  when \<open>import\<close> loads a module, the call does nothing at all: a module loaded later is never
  preinitialised and keeps its context as it was.
\<close>

theorem fpx_preinit_modules_scope:
  "((\<forall>m\<in>set ms. \<not> m_preinited m) \<longrightarrow>
     (case fpx_preinit_modules H ms s of (err, ms', s') \<Rightarrow>
        map m_name ms' = map m_name ms \<and> (err = FPX_OK \<or> err = FPX_FAILED) \<and>
        (err = FPX_OK \<longrightarrow> (\<forall>m\<in>set ms'. m_preinited m \<and> (m_preinit m \<noteq> NULL \<longrightarrow> m_cntx m \<noteq> NULL))))) \<and>
   (m_preinited m0 \<longrightarrow> fpx_preinit_modules H (m0 # ms) s = (FPX_OK, m0 # ms, s))"
  using preinit_loop_all [of ms H NULL s] by (auto simp: fpx_preinit_modules_def)

theorem fpx_preinit_modules_scope_witness:
  "fpx_preinit_modules \<lparr>hk_preinit = (\<lambda>_ s. (7, s)), hk_init = (\<lambda>_ _ s. (0, s)), hk_fini = (\<lambda>_ _ s. s)\<rparr>
     [demo_module\<lparr>m_preinited := True\<rparr>, demo_module] () =
     (FPX_OK, [demo_module\<lparr>m_preinited := True\<rparr>, demo_module], ())"
  using fpx_preinit_modules_scope [THEN conjunct2, rule_format, of "demo_module\<lparr>m_preinited := True\<rparr>"
    "\<lparr>hk_preinit = (\<lambda>_ s. (7, s)), hk_init = (\<lambda>_ _ s. (0, s)), hk_fini = (\<lambda>_ _ s. s)\<rparr>" "[demo_module]" "()"]
  by simp

section \<open>Properties of the command lookups\<close>

text \<open>
  The two lookups agree: a command is found exactly when a
  module is found, it belongs to that module and has the name asked for, and no module
  before it in the list has a command of that name.
\<close>

theorem fpx_find_command_consistent:
  "(fpx_find_command_in_modules ms name = None \<longleftrightarrow> fpx_find_module_by_command ms name = None) \<and>
   (fpx_find_module_by_command ms name = Some m \<longrightarrow>
      (\<exists>c pre post. fpx_find_command_in_modules ms name = Some c \<and> c \<in> set (m_cmd m) \<and> cm_name c = name \<and>
         ms = pre @ m # post \<and> (\<forall>p\<in>set pre. \<forall>d\<in>set (m_cmd p). cm_name d \<noteq> name)))"
proof (induction ms)
  case (Cons a ms)
  show ?case
  proof (cases "find (\<lambda>c. cm_name c = name) (m_cmd a)")
    case None
    have no: "\<forall>d\<in>set (m_cmd a). cm_name d \<noteq> name" using None by (simp add: find_None_iff)
    show ?thesis
    proof (intro conjI impI)
      show "fpx_find_command_in_modules (a # ms) name = None \<longleftrightarrow> fpx_find_module_by_command (a # ms) name = None"
        using Cons None by simp
      assume "fpx_find_module_by_command (a # ms) name = Some m"
      then have "fpx_find_module_by_command ms name = Some m" using None by simp
      with Cons obtain c pre post where "fpx_find_command_in_modules ms name = Some c" "c \<in> set (m_cmd m)"
        "cm_name c = name" "ms = pre @ m # post" "\<forall>p\<in>set pre. \<forall>d\<in>set (m_cmd p). cm_name d \<noteq> name" by blast
      with None no show "\<exists>c pre post. fpx_find_command_in_modules (a # ms) name = Some c \<and> c \<in> set (m_cmd m) \<and>
          cm_name c = name \<and> a # ms = pre @ m # post \<and> (\<forall>p\<in>set pre. \<forall>d\<in>set (m_cmd p). cm_name d \<noteq> name)"
        by (intro exI [of _ c] exI [of _ "a # pre"] exI [of _ post]) auto
    qed
  next
    case (Some c)
    then have "c \<in> set (m_cmd a)" "cm_name c = name" by (auto simp: find_Some_iff)
    moreover have "\<exists>c' pre post. fpx_find_command_in_modules (a # ms) name = Some c' \<and> c' \<in> set (m_cmd a) \<and>
        cm_name c' = name \<and> a # ms = pre @ a # post \<and> (\<forall>p\<in>set pre. \<forall>d\<in>set (m_cmd p). cm_name d \<noteq> name)"
      using Some calculation by (intro exI [of _ c] exI [of _ "[]"] exI [of _ ms]) simp
    moreover have "fpx_find_module_by_command (a # ms) name = Some a" "fpx_find_command_in_modules (a # ms) name = Some c"
      using Some by simp_all
    ultimately show ?thesis by (metis option.distinct(1) option.inject)
  qed
qed simp

theorem fpx_find_command_consistent_witness:
  "\<exists>c pre post. fpx_find_command_in_modules [demo_module] (bytes ''listen'') = Some c \<and>
     c \<in> set (m_cmd demo_module) \<and> cm_name c = bytes ''listen'' \<and> [demo_module] = pre @ demo_module # post \<and>
     (\<forall>p\<in>set pre. \<forall>d\<in>set (m_cmd p). cm_name d \<noteq> bytes ''listen'')"
  by (rule fpx_find_command_consistent [THEN conjunct2, rule_format]) (simp add: demo_module_def)

lemma takes_bit: "takes AND fpx_takes i \<noteq> 0 \<longleftrightarrow> bit takes i"
  by (simp add: fpx_takes_def and_exp_eq_0_iff_not_bit)

definition args_ok :: "32 word \<Rightarrow> nat \<Rightarrow> bool" where
  "args_ok takes argc \<longleftrightarrow> (case fold (takes_step takes) [0..<8] (0, 0) of (mn, mx) \<Rightarrow>
     argc = mn \<or> argc \<le> mx \<and> argc \<ge> mn)"

lemma fpx_check_directive_arguments_iff:
  "fpx_check_directive_arguments argc cmd = FPX_OK \<longleftrightarrow> args_ok (cm_takes cmd) argc"
  by (auto simp: fpx_check_directive_arguments_def args_ok_def split: prod.splits)

lemma takes_fold:
  "fold (takes_step takes) [0..<8] (0, 0) =
     (let s = filter (bit takes) [1..<8] in (if s = [] then 0 else hd s, if s = [] then 0 else last s))"
proof -
  have u: "[0..<8] = [0, 1, 2, 3, 4, 5, 6, 7 :: nat]" "[1..<8] = [1, 2, 3, 4, 5, 6, 7 :: nat]"
    by (simp_all add: upt_rec)
  show ?thesis unfolding u by (simp add: takes_step_def takes_bit Let_def)
qed

lemma filter_range:
  assumes "1 \<le> a" "a \<le> b" "b \<le> 7" "\<forall>i<8. P i \<longleftrightarrow> a \<le> i \<and> i \<le> b"
  shows "filter P [1..<8] = [a..<Suc b]"
proof -
  have "[1..<8] = [1..<a] @ [a..<Suc b] @ [Suc b..<8]"
    using assms(1-3) upt_add_eq_append [of 1 a "8 - a"] upt_add_eq_append [of a "Suc b" "8 - Suc b"]
    by (simp del: upt_Suc)
  moreover have "filter P [1..<a] = []" "filter P [Suc b..<8] = []" "filter P [a..<Suc b] = [a..<Suc b]"
    using assms by (auto simp: filter_empty_conv filter_id_conv)
  ultimately show ?thesis by (simp del: upt_Suc)
qed

text \<open>
  A command whose mask names an unbroken range of
  argument counts from one on accepts exactly the counts of the range, and one that takes no
  arguments exactly zero. When a mask allows zero arguments and also some other count, zero
  arguments are refused, because zero is taken for an unset minimum.
\<close>

theorem fpx_check_directive_arguments_range:
  "(\<forall>a b. 1 \<le> a \<and> a \<le> b \<and> b \<le> 7 \<and> (\<forall>i<8. bit (cm_takes cmd) i \<longleftrightarrow> a \<le> i \<and> i \<le> b) \<longrightarrow>
      (fpx_check_directive_arguments argc cmd = FPX_OK \<longleftrightarrow> a \<le> argc \<and> argc \<le> b)) \<and>
   ((\<forall>i\<in>{1..<8}. \<not> bit (cm_takes cmd) i) \<longrightarrow>
      (fpx_check_directive_arguments argc cmd = FPX_OK \<longleftrightarrow> argc = 0)) \<and>
   (bit (cm_takes cmd) 0 \<and> (\<exists>i\<in>{1..<8}. bit (cm_takes cmd) i) \<longrightarrow>
      fpx_check_directive_arguments 0 cmd = FPX_ERR_CONFIG_SYNTAX)"
proof (intro conjI allI impI)
  fix a b assume ab: "1 \<le> a \<and> a \<le> b \<and> b \<le> 7 \<and> (\<forall>i<8. bit (cm_takes cmd) i \<longleftrightarrow> a \<le> i \<and> i \<le> b)"
  then have "filter (bit (cm_takes cmd)) [1..<8] = [a..<Suc b]" by (intro filter_range) auto
  moreover have "hd [a..<Suc b] = a" "last [a..<Suc b] = b" "[a..<Suc b] \<noteq> []"
    using ab by (simp_all add: hd_upt last_upt del: upt_Suc)
  ultimately show "fpx_check_directive_arguments argc cmd = FPX_OK \<longleftrightarrow> a \<le> argc \<and> argc \<le> b"
    using ab by (auto simp: fpx_check_directive_arguments_iff args_ok_def takes_fold Let_def simp del: upt_Suc)
next
  assume "\<forall>i\<in>{1..<8}. \<not> bit (cm_takes cmd) i"
  then have "filter (bit (cm_takes cmd)) [1..<8] = []" by (simp add: filter_empty_conv)
  then show "fpx_check_directive_arguments argc cmd = FPX_OK \<longleftrightarrow> argc = 0"
    by (auto simp: fpx_check_directive_arguments_iff args_ok_def takes_fold Let_def)
next
  assume "bit (cm_takes cmd) 0 \<and> (\<exists>i\<in>{1..<8}. bit (cm_takes cmd) i)"
  then have ne: "filter (bit (cm_takes cmd)) [1..<8] \<noteq> []" by (auto simp: filter_empty_conv)
  then have "hd (filter (bit (cm_takes cmd)) [1..<8]) \<in> set [1..<8]"
    by (metis filter_is_subset hd_in_set subsetD)
  then have "hd (filter (bit (cm_takes cmd)) [1..<8]) \<noteq> 0" by simp
  then show "fpx_check_directive_arguments 0 cmd = FPX_ERR_CONFIG_SYNTAX"
    using ne by (auto simp: fpx_check_directive_arguments_def takes_fold Let_def)
qed

theorem fpx_check_directive_arguments_range_witness:
  "fpx_check_directive_arguments 0 \<lparr>cm_name = [], cm_takes = 3, cm_handler = H_flag, cm_offset = F_none\<rparr> =
     FPX_ERR_CONFIG_SYNTAX"
proof -
  let ?c = "\<lparr>cm_name = [], cm_takes = 3, cm_handler = H_flag, cm_offset = F_none\<rparr>"
  have b: "bit (cm_takes ?c) 0" "bit (cm_takes ?c) 1" by simp_all
  have "(1 :: nat) \<in> {1..<8}" by simp
  with b fpx_check_directive_arguments_range [of ?c 0] show ?thesis by blast
qed

end
