(* ===== verification/Fpx_Command.thy ===== *)
theory Fpx_Command
  imports Fpx_Config Fpx_Module Fpx_Parse
begin

text \<open>
  The rest of \<open>src/core/command.c\<close>: reading the configuration file and included files, the walk
  over the directives that checks or executes them, and the generic handlers that store a
  value. The walk goes over a list that the handler of \<open>include\<close> extends while it runs, and is
  a partial function: \<^const>\<open>None\<close> also stands for a walk that never ends.
\<close>

section \<open>Reading files\<close>

text \<open>The pool, the descriptors registered to be closed with it, and the operating system.\<close>

record 'os renv =
  re_pool :: penv
  re_closes :: "fd list"
  re_os :: 'os

type_synonym 'os cresult = "(fpx_err_t \<times> config \<times> 'os renv) option"

definition read_config_file :: "'os sys \<Rightarrow> config \<Rightarrow> path \<Rightarrow> 'os renv \<Rightarrow> 'os cresult" where
  "read_config_file S config filename env =
     (let (ok, pool) = palloc (re_pool env); env = env\<lparr>re_pool := pool\<rparr> in
      if \<not> ok then Some (pe_errno pool, config, env)
      else
        let (err, file, os) = fpx_file_open S filename FPX_FILE_RDONLY FPX_FILE_OPEN
                                FPX_FILE_DEFAULT_ACCESS (re_os env);
            env = env\<lparr>re_os := os\<rparr> in
        if err \<noteq> FPX_OK then Some (err, config, env)
        else do {
          pool \<leftarrow> pcleanup (re_pool env);
          let (file_size, os) = fpx_file_size S file (re_os env);
          let env = env\<lparr>re_pool := pool, re_closes := f_fd file # re_closes env, re_os := os\<rparr>;
          if file_size = -1 then Some (s_errno S os, config, env)
          else
            let (ok, pool) = palloc (re_pool env); env = env\<lparr>re_pool := pool\<rparr> in
            if \<not> ok then Some (pe_errno pool, config, env)
            else
              let (bytes_read, bs, file, os) = fpx_file_read S file (nat file_size) 0 (re_os env);
                  env = env\<lparr>re_os := os\<rparr> in
              if bytes_read = -1 then Some (s_errno S os, config, env)
              else do {
                let config = config\<lparr>conf_files := conf_files config @ [file]\<rparr>;
                (err, config, pool) \<leftarrow> fpx_config_parse config (re_pool env) (bs @ [0]);
                Some (err, config, env\<lparr>re_pool := pool\<rparr>)
              }
        })"

definition fpx_config_read_included_file :: "'os sys \<Rightarrow> config \<Rightarrow> path \<Rightarrow> 'os renv \<Rightarrow> 'os cresult" where
  "fpx_config_read_included_file S config filename env = read_config_file S config filename env"

definition fpx_config_read :: "'os sys \<Rightarrow> path \<Rightarrow> 'os renv \<Rightarrow> 'os cresult" where
  "fpx_config_read S filename env = read_config_file S \<lparr>conf_list = [], conf_files = []\<rparr> filename env"

text \<open>
  The walk over a directory: without a directory it is the call, with one the loop. The
  test after \<open>fpx_dir_open\<close> is for \<open>FPX_DONE\<close>, which it returns for no directory that exists.
\<close>

partial_function (option) fpx_config_walkdir_nonwildcard ::
  "'os sys \<Rightarrow> path \<Rightarrow> fpx_dir option \<Rightarrow> config \<Rightarrow> 'os renv \<Rightarrow> 'os cresult" where
  "fpx_config_walkdir_nonwildcard S path d config env =
     (case d of
        None \<Rightarrow>
          (case fpx_dir_open S path (re_os env) of (err, dir, os) \<Rightarrow>
             if err \<noteq> FPX_DONE then Some (err, config, env\<lparr>re_os := os\<rparr>)
             else fpx_config_walkdir_nonwildcard S path (Some dir) config (env\<lparr>re_os := os\<rparr>))
      | Some dir \<Rightarrow>
          (case fpx_dir_read S dir (re_os env) of (r, dir, os) \<Rightarrow>
             if r \<noteq> FPX_OK then Some (FPX_OK, config, env\<lparr>re_os := fpx_dir_close S (Some dir) os\<rparr>)
             else Option.bind (fpx_dir_current_name dir) (\<lambda>fname.
               if fname = bytes ''.'' \<or> fname = bytes ''..'' then
                 fpx_config_walkdir_nonwildcard S path (Some dir) config (env\<lparr>re_os := os\<rparr>)
               else Option.bind (fpx_file_full_path FPX_MAX_PATH_LEN (path @ [0]) (fname @ [0])) (\<lambda>(n, full).
                 Option.bind
                   (if fpx_dir_current_is_file dir then
                      fpx_config_read_included_file S config (take n full) (env\<lparr>re_os := os\<rparr>)
                    else fpx_config_walkdir_nonwildcard S (take n full) None config (env\<lparr>re_os := os\<rparr>))
                   (\<lambda>(err, config, env).
                      if err \<noteq> FPX_OK
                      then Some (err, config, env\<lparr>re_os := fpx_dir_close S (Some dir) (re_os env)\<rparr>)
                      else fpx_config_walkdir_nonwildcard S path (Some dir) config env)))))"

text \<open>Errors in the files of a pattern are ignored; \<open>info\<close> keeps its content when \<open>stat\<close> fails.\<close>

partial_function (option) glob_loop ::
  "'os sys \<Rightarrow> fpx_glob \<Rightarrow> file_info \<Rightarrow> config \<Rightarrow> 'os renv \<Rightarrow> 'os cresult" where
  "glob_loop S gl info config env =
     Option.bind (fpx_glob_read gl) (\<lambda>(r, fullpath, gl).
       if r = FPX_DONE then Some (FPX_OK, config, env)
       else if fullpath = bytes ''.'' \<or> fullpath = bytes ''..'' then glob_loop S gl info config env
       else
         (case fpx_file_info_by_path S info fullpath (re_os env) of (_, info) \<Rightarrow>
            Option.bind
              (if fi_type info = FPX_FILE_TYPE_FILE then fpx_config_read_included_file S config fullpath env
               else fpx_config_walkdir_nonwildcard S fullpath None config env)
              (\<lambda>(_, config, env). glob_loop S gl info config env)))"

definition fpx_config_walkdir_wildcard ::
  "'os sys \<Rightarrow> fpx_glob \<Rightarrow> file_info \<Rightarrow> config \<Rightarrow> path \<Rightarrow> 'os renv \<Rightarrow> 'os cresult" where
  "fpx_config_walkdir_wildcard S gl info config path env =
     (let (err, gl, os) = fpx_glob_open S gl path (re_os env); env = env\<lparr>re_os := os\<rparr> in
      if err \<noteq> FPX_OK then Some (err, config, env) else glob_loop S gl info config env)"

definition fpx_config_read_included ::
  "'os sys \<Rightarrow> fpx_glob \<Rightarrow> file_info \<Rightarrow> config \<Rightarrow> path \<Rightarrow> 'os renv \<Rightarrow> 'os cresult" where
  "fpx_config_read_included S gl info config path env = do {
     err \<leftarrow> fpx_check_absolute_path (path @ [0]);
     if err \<noteq> FPX_OK then Some (err, config, env)
     else do {
       w \<leftarrow> fpx_is_path_has_wildcard (path @ [0]);
       if \<not> w then
         (case fpx_file_info_by_path S info path (re_os env) of (_, info) \<Rightarrow>
            if fi_type info = FPX_FILE_TYPE_FILE then fpx_config_read_included_file S config path env
            else fpx_config_walkdir_nonwildcard S path None config env)
       else fpx_config_walkdir_wildcard S gl info config path env
     }
   }"

section \<open>The walk over the directives\<close>

text \<open>
  The state \<open>'s\<close> is the server; \<open>mods\<close> selects its modules and \<open>run\<close> calls the handler of a
  command of a module for a directive.
\<close>

type_synonym 's dresult = "(fpx_err_t \<times> config \<times> 's) option"
type_synonym 's runner = "command \<Rightarrow> module \<Rightarrow> directive \<Rightarrow> config \<Rightarrow> 's \<Rightarrow> 's dresult"

definition process_one :: "('s \<Rightarrow> module list) \<Rightarrow> 's runner \<Rightarrow> directive \<Rightarrow> config \<Rightarrow> 's \<Rightarrow> 's dresult" where
  "process_one mods run directive config s =
     (case fpx_find_command_in_modules (mods s) (di_name directive) of
        None \<Rightarrow> Some (FPX_ERR_CONFIG_SYNTAX, config, s)
      | Some cmd \<Rightarrow>
          if fpx_check_directive_arguments (length (di_argv directive)) cmd \<noteq> FPX_OK
          then Some (FPX_ERR_CONFIG_SYNTAX, config, s)
          else
            case fpx_find_module_by_command (mods s) (di_name directive) of
              None \<Rightarrow> Some (FPX_FAILED, config, s)
            | Some module \<Rightarrow> run cmd module directive config s)"

definition check_one :: "('s \<Rightarrow> module list) \<Rightarrow> 's runner \<Rightarrow> directive \<Rightarrow> config \<Rightarrow> 's \<Rightarrow> 's dresult" where
  "check_one mods run directive config s =
     (case fpx_find_command_in_modules (mods s) (di_name directive) of
        None \<Rightarrow> Some (FPX_ERR_CONFIG_SYNTAX, config, s)
      | Some cmd \<Rightarrow>
          if fpx_check_directive_arguments (length (di_argv directive)) cmd \<noteq> FPX_OK
          then Some (FPX_ERR_CONFIG_SYNTAX, config, s)
          else if di_name directive \<noteq> bytes ''include'' then Some (FPX_OK, config, s)
          else
            case fpx_find_module_by_command (mods s) (di_name directive) of
              None \<Rightarrow> Some (FPX_FAILED, config, s)
            | Some module \<Rightarrow> run cmd module directive config s)"

partial_function (option) walk :: "(directive \<Rightarrow> config \<Rightarrow> 's \<Rightarrow> 's dresult) \<Rightarrow> nat \<Rightarrow> config \<Rightarrow> 's \<Rightarrow> 's dresult" where
  "walk one i config s =
     (if i < length (conf_list config) then
        Option.bind (one (conf_list config ! i) config s) (\<lambda>(err, config, s).
          if err \<noteq> FPX_OK then Some (err, config, s) else walk one (Suc i) config s)
      else Some (FPX_OK, config, s))"

lemma walk_code [code]:
  "walk one i config s =
     (if i < length (conf_list config) then
        (case one (conf_list config ! i) config s of
           None \<Rightarrow> None
         | Some (err, config, s) \<Rightarrow> if err \<noteq> FPX_OK then Some (err, config, s) else walk one (Suc i) config s)
      else Some (FPX_OK, config, s))"
  by (subst walk.simps) (simp split: option.split)

definition fpx_config_process :: "('s \<Rightarrow> module list) \<Rightarrow> 's runner \<Rightarrow> config \<Rightarrow> 's \<Rightarrow> 's dresult" where
  "fpx_config_process mods run config s = walk (process_one mods run) 0 config s"

definition fpx_config_check :: "('s \<Rightarrow> module list) \<Rightarrow> 's runner \<Rightarrow> config \<Rightarrow> 's \<Rightarrow> 's dresult" where
  "fpx_config_check mods run config s = walk (check_one mods run) 0 config s"

section \<open>Handlers that store a value\<close>

text \<open>The value a handler stores into the member of the context that the command selects.\<close>

datatype stored = SBool bool | SStr "byte list" | SSize int | SInt int

definition fpx_handler_flag :: "byte list list \<Rightarrow> (fpx_err_t \<times> stored option) option" where
  "fpx_handler_flag argv = do {
     a \<leftarrow> (case argv of [] \<Rightarrow> None | a # _ \<Rightarrow> Some (a @ [0]));
     r \<leftarrow> fpx_strcasecmp a (bytes ''on'' @ [0]);
     if r = 0 then Some (FPX_OK, Some (SBool True))
     else do {
       r \<leftarrow> fpx_strcasecmp a (bytes ''off'' @ [0]);
       if r = 0 then Some (FPX_OK, Some (SBool False)) else Some (FPX_ERR_CONFIG_SYNTAX, None)
     }
   }"

definition fpx_handler_str :: "byte list list \<Rightarrow> (fpx_err_t \<times> stored option) option" where
  "fpx_handler_str argv = do {
     a \<leftarrow> (case argv of [] \<Rightarrow> None | a # _ \<Rightarrow> Some a);
     Some (FPX_OK, Some (SStr a))
   }"

definition fpx_handler_size :: "byte list list \<Rightarrow> (fpx_err_t \<times> stored option) option" where
  "fpx_handler_size argv = do {
     a \<leftarrow> (case argv of [] \<Rightarrow> None | a # _ \<Rightarrow> Some (a @ [0]));
     n \<leftarrow> fpx_config_parse_size a;
     if n = -1 then Some (FPX_ERR_CONFIG_SYNTAX, None) else Some (FPX_OK, Some (SSize n))
   }"

text \<open>The result of \<open>fpx_config_parse_size\<close> is converted to an \<open>int\<close> of 32 bits.\<close>

definition fpx_handler_uint :: "byte list list \<Rightarrow> (fpx_err_t \<times> stored option) option" where
  "fpx_handler_uint argv = do {
     a \<leftarrow> (case argv of [] \<Rightarrow> None | a # _ \<Rightarrow> Some (a @ [0]));
     sz \<leftarrow> fpx_config_parse_size a;
     let n = sint (word_of_int sz :: 32 word);
     if n = -1 then Some (FPX_ERR_CONFIG_SYNTAX, None) else Some (FPX_OK, Some (SInt n))
   }"

section \<open>The walk and its runs\<close>

text \<open>
  The runs of the walk: from position \<open>i\<close> to position \<open>j\<close> of a list of directives that may grow
  meanwhile, every directive on the way being handled without an error.
\<close>

inductive handled :: "(directive \<Rightarrow> config \<Rightarrow> 's \<Rightarrow> 's dresult) \<Rightarrow> nat \<Rightarrow> config \<Rightarrow> 's \<Rightarrow> nat \<Rightarrow> config \<Rightarrow> 's \<Rightarrow> bool"
  for one where
  none: "handled one i c s i c s"
| next_one: "i < length (conf_list c) \<Longrightarrow> one (conf_list c ! i) c s = Some (FPX_OK, c1, s1) \<Longrightarrow>
    handled one (Suc i) c1 s1 j c' s' \<Longrightarrow> handled one i c s j c' s'"

definition walk_ends :: "(directive \<Rightarrow> config \<Rightarrow> 's \<Rightarrow> 's dresult) \<Rightarrow> nat \<Rightarrow> config \<Rightarrow> 's \<Rightarrow> fpx_err_t \<Rightarrow> config \<Rightarrow> 's \<Rightarrow> bool" where
  "walk_ends one i c s err c' s' \<longleftrightarrow>
     (\<exists>j c1 s1. handled one i c s j c1 s1 \<and>
       (if j < length (conf_list c1) then err \<noteq> FPX_OK \<and> one (conf_list c1 ! j) c1 s1 = Some (err, c', s')
        else err = FPX_OK \<and> c' = c1 \<and> s' = s1))"

lemma walk_handled:
  "handled one i c s j c' s' \<Longrightarrow> walk one i c s = walk one j c' s'"
  by (induction rule: handled.induct) (subst walk.simps, simp)+

lemma walk_ends_next:
  assumes "i < length (conf_list c)" "one (conf_list c ! i) c s = Some (FPX_OK, c1, s1)" "walk_ends one (Suc i) c1 s1 err c' s'"
  shows "walk_ends one i c s err c' s'"
  using assms unfolding walk_ends_def by (meson handled.next_one)

lemma walk_endsI:
  assumes "walk one i c s = Some (err, c', s')"
  shows "walk_ends one i c s err c' s'"
proof -
  have "case (err, c', s') of (err, c', s') \<Rightarrow> walk_ends one i c s err c' s'"
    using assms
  proof (rule walk.raw_induct [rotated])
    fix w and one :: "directive \<Rightarrow> config \<Rightarrow> 'a \<Rightarrow> 'a dresult" and i c s and y
    assume IH: "\<And>one i c s y. w one i c s = Some y \<Longrightarrow> case y of (err, c', s') \<Rightarrow> walk_ends one i c s err c' s'"
      and body: "(if i < length (conf_list c) then Option.bind (one (conf_list c ! i) c s)
          (\<lambda>(err, config, s). if err \<noteq> FPX_OK then Some (err, config, s) else w one (Suc i) config s)
        else Some (FPX_OK, c, s)) = Some y"
    obtain err c' s' where y: "y = (err, c', s')" by (cases y)
    show "case y of (err, c', s') \<Rightarrow> walk_ends one i c s err c' s'"
    proof (cases "i < length (conf_list c)")
      case True
      with body obtain e c1 s1 where o: "one (conf_list c ! i) c s = Some (e, c1, s1)"
        "(if e \<noteq> FPX_OK then Some (e, c1, s1) else w one (Suc i) c1 s1) = Some y"
        by (auto split: Option.bind_splits)
      show ?thesis
      proof (cases "e = FPX_OK")
        case ok: True
        with o IH y have "walk_ends one (Suc i) c1 s1 err c' s'" by fastforce
        with walk_ends_next [of i c one s c1 s1 err c' s'] True o ok y show ?thesis by simp
      qed (use True o y in \<open>auto simp: walk_ends_def intro: handled.none\<close>)
    qed (use body in \<open>auto simp: walk_ends_def intro: handled.none\<close>)
  qed
  then show ?thesis by simp
qed

lemma walk_iff: "walk one i c s = Some (err, c', s') \<longleftrightarrow> walk_ends one i c s err c' s'"
proof
  assume "walk_ends one i c s err c' s'"
  then obtain j c1 s1 where h: "handled one i c s j c1 s1"
    and e: "if j < length (conf_list c1) then err \<noteq> FPX_OK \<and> one (conf_list c1 ! j) c1 s1 = Some (err, c', s')
        else err = FPX_OK \<and> c' = c1 \<and> s' = s1" unfolding walk_ends_def by blast
  have "walk one j c1 s1 = Some (err, c', s')" using e by (subst walk.simps) (auto split: if_splits)
  with walk_handled [OF h] show "walk one i c s = Some (err, c', s')" by simp
qed (rule walk_endsI)

text \<open>
  A walk that can always go on does so for any number of directives, each of them handled without an
  error, and never ends.
\<close>

lemma walk_goes_on:
  assumes "\<And>i c s. J i c s \<Longrightarrow> i < length (conf_list c) \<and>
      (\<exists>c' s'. one (conf_list c ! i) c s = Some (FPX_OK, c', s') \<and> J (Suc i) c' s')"
    and "J i c s"
  shows "\<exists>c' s'. handled one i c s (i + n) c' s' \<and> i + n < length (conf_list c')"
  using assms(2)
proof (induction n arbitrary: i c s)
  case 0
  then show ?case using assms(1) by (auto intro: handled.none)
next
  case (Suc n)
  from assms(1) [OF Suc.prems] obtain c1 s1 where 1: "i < length (conf_list c)"
    "one (conf_list c ! i) c s = Some (FPX_OK, c1, s1)" "J (Suc i) c1 s1" by blast
  from Suc.IH [OF 1(3)] obtain c' s' where "handled one (Suc i) c1 s1 (i + Suc n) c' s'" "i + Suc n < length (conf_list c')" by auto
  then show ?case using handled.next_one [of i c one s c1 s1, OF 1(1,2)] by blast
qed

lemma walk_diverges:
  assumes "\<And>i c s. J i c s \<Longrightarrow> i < length (conf_list c) \<and>
      (\<exists>c' s'. one (conf_list c ! i) c s = Some (FPX_OK, c', s') \<and> J (Suc i) c' s')"
    and "J i c s"
  shows "walk one i c s = None"
proof (rule ccontr)
  assume "walk one i c s \<noteq> None"
  then obtain err c' s' where "walk one i c s = Some (err, c', s')" by (metis option.exhaust prod_cases3)
  then obtain j c1 s1 where h: "handled one i c s j c1 s1"
    and e: "if j < length (conf_list c1) then err \<noteq> FPX_OK \<and> one (conf_list c1 ! j) c1 s1 = Some (err, c', s')
        else err = FPX_OK \<and> c' = c1 \<and> s' = s1" unfolding walk_iff walk_ends_def by blast
  from h assms(2) have "J j c1 s1"
  proof (induction rule: handled.induct)
    case (next_one i c s c1 s1 j c' s')
    from assms(1) [OF next_one.prems] next_one.hyps(2) have "J (Suc i) c1 s1" by simp
    then show ?case by (rule next_one.IH)
  qed
  from assms(1) [OF this] e show False by auto
qed

text \<open>
  The contract of a handler that the walk relies on: it may add directives at the end of the
  list, and does nothing else to it.
\<close>

definition extends :: "config \<Rightarrow> config \<Rightarrow> bool" where
  "extends c c' \<longleftrightarrow> (\<exists>ys. conf_list c' = conf_list c @ ys)"

lemma extends_refl [simp]: "extends c c"
  by (simp add: extends_def)

lemma extends_trans: "extends a b \<Longrightarrow> extends b c \<Longrightarrow> extends a c"
  by (auto simp: extends_def)

lemma grows_extends: "grows c c' \<Longrightarrow> extends c c'"
  by (auto simp: extends_def grows_def)

locale directive_handlers =
  fixes mods :: "'s \<Rightarrow> module list" and run :: "'s runner"
  assumes run_extends: "run cmd m d c s = Some (err, c', s') \<Longrightarrow> extends c c'"
begin

lemma process_one_extends: "process_one mods run d c s = Some (err, c', s') \<Longrightarrow> extends c c'"
  by (auto simp: process_one_def split: option.splits if_splits dest: run_extends)

lemma handled_extends: "handled (process_one mods run) i c s j c' s' \<Longrightarrow> extends c c'"
  by (induction rule: handled.induct) (auto intro: extends_trans dest: process_one_extends)

lemma process_extends:
  assumes "fpx_config_process mods run c s = Some (err, c', s')"
  shows "extends c c'"
proof -
  from assms obtain j c1 s1 where h: "handled (process_one mods run) 0 c s j c1 s1"
    and e: "if j < length (conf_list c1) then err \<noteq> FPX_OK \<and> process_one mods run (conf_list c1 ! j) c1 s1 = Some (err, c', s')
        else err = FPX_OK \<and> c' = c1 \<and> s' = s1"
    unfolding fpx_config_process_def walk_iff walk_ends_def by blast
  from e have "extends c1 c'" by (auto split: if_splits dest: process_one_extends)
  with handled_extends [OF h] show ?thesis by (rule extends_trans)
qed

end

text \<open>
  Handlers that add well-formed directives only keep the type of the configuration, in a check too. They
  are handlers of the first kind.
\<close>

locale typed_handlers =
  fixes mods :: "'s \<Rightarrow> module list" and run :: "'s runner"
  assumes run_grows: "run cmd m d c s = Some (err, c', s') \<Longrightarrow> grows c c'"

sublocale typed_handlers \<subseteq> directive_handlers
  by unfold_locales (rule grows_extends [OF run_grows])

context typed_handlers begin

lemma process_one_grows: "process_one mods run d c s = Some (err, c', s') \<Longrightarrow> grows c c'"
  by (auto simp: process_one_def split: option.splits if_splits dest: run_grows)

lemma check_one_grows: "check_one mods run d c s = Some (err, c', s') \<Longrightarrow> grows c c'"
  by (auto simp: check_one_def split: option.splits if_splits dest: run_grows)

lemma walk_grows:
  assumes one: "\<And>d c s err c' s'. one d c s = Some (err, c', s') \<Longrightarrow> grows c c'"
    and w: "walk one i c s = Some (err, c', s')"
  shows "grows c c'"
proof -
  have h: "handled one i c s j c1 s1 \<Longrightarrow> grows c c1" for i c s j c1 s1
    by (induction rule: handled.induct) (auto intro: grows_trans dest: one)
  from w show ?thesis
    unfolding walk_iff walk_ends_def by (auto split: if_splits intro: grows_trans dest!: h one)
qed

lemma process_grows: "fpx_config_process mods run c s = Some (err, c', s') \<Longrightarrow> grows c c'"
  unfolding fpx_config_process_def by (rule walk_grows) (auto dest: process_one_grows)

lemma check_grows: "fpx_config_check mods run c s = Some (err, c', s') \<Longrightarrow> grows c c'"
  unfolding fpx_config_check_def by (rule walk_grows) (auto dest: check_one_grows)

end

section \<open>Reading only appends well-formed directives\<close>

lemma read_config_file_grows:
  "read_config_file S c filename env = Some (err, c', env') \<Longrightarrow> grows c c'"
  by (auto simp: read_config_file_def Let_def split: prod.splits if_splits Option.bind_splits
      dest!: config_parse_grows) (auto simp: grows_def)

lemma walkdir_grows:
  assumes "fpx_config_walkdir_nonwildcard S path d c env = Some (err, c', env')"
  shows "grows c c'"
proof -
  have "grows c (fst (snd (err, c', env')))"
    using assms
  proof (rule fpx_config_walkdir_nonwildcard.raw_induct [rotated])
    fix w and S :: "'a sys" and path d c env y
    assume IH: "\<And>S path d c env y. w S path d c env = Some y \<Longrightarrow> grows c (fst (snd y))"
      and body: "(case d of
        None \<Rightarrow>
          (case fpx_dir_open S path (re_os env) of (err, dir, os) \<Rightarrow>
             if err \<noteq> FPX_DONE then Some (err, c, env\<lparr>re_os := os\<rparr>)
             else w S path (Some dir) c (env\<lparr>re_os := os\<rparr>))
      | Some dir \<Rightarrow>
          (case fpx_dir_read S dir (re_os env) of (r, dir, os) \<Rightarrow>
             if r \<noteq> FPX_OK then Some (FPX_OK, c, env\<lparr>re_os := fpx_dir_close S (Some dir) os\<rparr>)
             else Option.bind (fpx_dir_current_name dir) (\<lambda>fname.
               if fname = bytes ''.'' \<or> fname = bytes ''..'' then w S path (Some dir) c (env\<lparr>re_os := os\<rparr>)
               else Option.bind (fpx_file_full_path FPX_MAX_PATH_LEN (path @ [0]) (fname @ [0])) (\<lambda>(n, full).
                 Option.bind
                   (if fpx_dir_current_is_file dir then
                      fpx_config_read_included_file S c (take n full) (env\<lparr>re_os := os\<rparr>)
                    else w S (take n full) None c (env\<lparr>re_os := os\<rparr>))
                   (\<lambda>(err, config, env).
                      if err \<noteq> FPX_OK
                      then Some (err, config, env\<lparr>re_os := fpx_dir_close S (Some dir) (re_os env)\<rparr>)
                      else w S path (Some dir) config env))))) = Some y"
    have rd: "grows c c1" if "fpx_config_read_included_file S c p e = Some (r, c1, e1)" for p e r c1 e1
      using that read_config_file_grows unfolding fpx_config_read_included_file_def by blast
    have IH': "grows c c1" if "w S p x c e = Some (r, c1, e1)" for p x e r c1 e1 using IH [OF that] by simp
    show "grows c (fst (snd y))"
      using body by (auto split: option.splits prod.splits if_splits Option.bind_splits
          dest!: IH rd IH' intro: grows_trans)
  qed
  then show ?thesis by simp
qed

lemma glob_loop_grows:
  assumes "glob_loop S gl info c env = Some (err, c', env')"
  shows "grows c c'"
proof -
  have "grows c (fst (snd (err, c', env')))"
    using assms
  proof (rule glob_loop.raw_induct [rotated])
    fix w and S :: "'a sys" and gl info c env y
    assume IH: "\<And>S gl info c env y. w S gl info c env = Some y \<Longrightarrow> grows c (fst (snd y))"
      and body: "Option.bind (fpx_glob_read gl) (\<lambda>(r, fullpath, gl).
       if r = FPX_DONE then Some (FPX_OK, c, env)
       else if fullpath = bytes ''.'' \<or> fullpath = bytes ''..'' then w S gl info c env
       else
         (case fpx_file_info_by_path S info fullpath (re_os env) of (_, info) \<Rightarrow>
            Option.bind
              (if fi_type info = FPX_FILE_TYPE_FILE then fpx_config_read_included_file S c fullpath env
               else fpx_config_walkdir_nonwildcard S fullpath None c env)
              (\<lambda>(_, config, env). w S gl info config env))) = Some y"
    have rd: "grows c c1" if "fpx_config_read_included_file S c p e = Some (r, c1, e1)" for p e r c1 e1
      using that read_config_file_grows unfolding fpx_config_read_included_file_def by blast
    show "grows c (fst (snd y))"
      using body by (auto split: option.splits prod.splits if_splits Option.bind_splits
          dest!: IH rd walkdir_grows intro: grows_trans)
  qed
  then show ?thesis by simp
qed

lemma read_included_grows:
  "fpx_config_read_included S gl info c path env = Some (err, c', env') \<Longrightarrow> grows c c'"
  by (auto simp: fpx_config_read_included_def fpx_config_walkdir_wildcard_def fpx_config_read_included_file_def
      Let_def split: prod.splits if_splits Option.bind_splits
      dest: glob_loop_grows walkdir_grows read_config_file_grows)

section \<open>Properties of includes\<close>

text \<open>
  What is assumed of the operating system: \<open>file_holds\<close>, the file can be opened, measured and
  read at any time and holds the given bytes.
\<close>

definition file_holds :: "'os sys \<Rightarrow> path \<Rightarrow> byte list \<Rightarrow> bool" where
  "file_holds S path content \<longleftrightarrow> (\<forall>os. \<exists>file file' os1 os2 os3.
     fpx_file_open S path FPX_FILE_RDONLY FPX_FILE_OPEN FPX_FILE_DEFAULT_ACCESS os = (FPX_OK, file, os1) \<and>
     fpx_file_size S file os1 = (int (length content), os2) \<and>
     fpx_file_read S file (length content) 0 os2 = (int (length content), content, file', os3))"

definition is_file :: "'os sys \<Rightarrow> path \<Rightarrow> bool" where
  "is_file S path \<longleftrightarrow> (\<forall>os. \<exists>mode. s_stat S path os = Some mode \<and> s_is 0x8000 mode)"

lemma s_is_file_type: "s_is 0x8000 mode \<Longrightarrow> fpx_stat_get_file_type mode = FPX_FILE_TYPE_FILE"
  by (simp add: fpx_stat_get_file_type_def s_is_def Let_def)

lemma read_config_file_ok:
  assumes "file_holds S path (text_bytes ls @ t)" "pe_ok (re_pool env) = (\<lambda>_. True)"
    and "\<forall>(l, e)\<in>set ls. line_ok l \<and> is_eol e" "line_ok t"
  shows "\<exists>c' env'. read_config_file S c path env = Some (FPX_OK, c', env') \<and>
    conf_list c' = conf_list c @ text_directives (conf_tail c) 1 ls \<and> pe_ok (re_pool env') = (\<lambda>_. True)"
proof -
  let ?n = "length (text_bytes ls @ t)"
  obtain fl fl' os1 os2 os3 where f:
    "fpx_file_open S path FPX_FILE_RDONLY FPX_FILE_OPEN FPX_FILE_DEFAULT_ACCESS (re_os env) = (FPX_OK, fl, os1)"
    "fpx_file_size S fl os1 = (int ?n, os2)"
    "fpx_file_read S fl ?n 0 os2 = (int ?n, text_bytes ls @ t, fl', os3)"
    using assms(1) unfolding file_holds_def by blast
  let ?p = "\<lambda>k. re_pool env\<lparr>pe_next := k\<rparr>"
  let ?k = "Suc (Suc (Suc (pe_next (re_pool env))))"
  have pok: "pe_ok (?p ?k) = (\<lambda>_. True)" using assms(2) by simp
  obtain pool' where p: "fpx_config_parse (c\<lparr>conf_files := conf_files c @ [fl']\<rparr>) (?p ?k) (text_bytes ls @ t @ [0]) =
      Some (FPX_OK, c\<lparr>conf_files := conf_files c @ [fl'],
        conf_list := conf_list c @ text_directives (conf_tail c) 1 ls\<rparr>, pool')" "pe_ok pool' = (\<lambda>_. True)"
    using parse_lines_ok [OF pok assms(3,4), of "c\<lparr>conf_files := conf_files c @ [fl']\<rparr>"]
    by (auto simp: conf_tail_def)
  have n: "int ?n \<noteq> -1" by simp
  from f p assms(2) n show ?thesis
    by (auto simp: read_config_file_def Let_def palloc_def pcleanup_def simp del: length_append of_nat_add)
qed

lemma absolute_no_wildcard:
  assumes "hd path = FPX_PATH_SEPARATOR" "path \<noteq> []"
  shows "fpx_check_absolute_path (path @ [0]) = Some FPX_OK"
  using assms by (cases path) (auto simp: fpx_check_absolute_path_def)

lemma no_wildcard:
  assumes "0 \<notin> set path" "list_all (\<lambda>ch. ch \<noteq> 0x3F \<and> ch \<noteq> 0x2A) path"
  shows "fpx_is_path_has_wildcard (path @ [0]) = Some False"
  using wildcard_loop_cstr [of "path @ [0]" path 0 "Suc (length (path @ [0]))"] assms
  by (simp add: fpx_is_path_has_wildcard_def list_all_iff del: wildcard_loop.simps)

text \<open>A path that names one thing: absolute, without wildcards.\<close>

definition plain_path :: "path \<Rightarrow> bool" where
  "plain_path path \<longleftrightarrow> path \<noteq> [] \<and> hd path = FPX_PATH_SEPARATOR \<and> 0 \<notin> set path \<and>
     list_all (\<lambda>ch. ch \<noteq> 0x3F \<and> ch \<noteq> 0x2A) path"

lemma read_included_plain:
  assumes "plain_path path"
  shows "fpx_config_read_included S gl info c path env =
    (if fi_type (snd (fpx_file_info_by_path S info path (re_os env))) = FPX_FILE_TYPE_FILE
     then read_config_file S c path env else fpx_config_walkdir_nonwildcard S path None c env)"
  using assms absolute_no_wildcard [of path] no_wildcard [of path]
  by (simp add: plain_path_def fpx_config_read_included_def fpx_config_read_included_file_def split: prod.splits)

lemma read_included_file_ok:
  assumes "plain_path path" "is_file S path"
  shows "fpx_config_read_included S gl info c path env = read_config_file S c path env"
proof -
  obtain mode where "s_stat S path (re_os env) = Some mode" "s_is 0x8000 mode"
    using assms(2) unfolding is_file_def by blast
  then show ?thesis
    by (simp add: read_included_plain [OF assms(1)] fpx_file_info_by_path_def s_is_file_type)
qed

lemma read_included_directory:
  assumes "plain_path path" "s_stat S path (re_os env) = Some mode" "s_is 0x4000 mode"
    and "s_opendir S path (re_os env) = (h, os')" "h \<noteq> NULL"
  shows "fpx_config_read_included S gl info c path env = Some (FPX_OK, c, env\<lparr>re_os := os'\<rparr>)"
proof -
  have "fi_type (snd (fpx_file_info_by_path S info path (re_os env))) = FPX_FILE_TYPE_DIR"
    using assms(2,3) by (simp add: fpx_file_info_by_path_def fpx_stat_get_file_type_def s_is_def Let_def)
  moreover have "FPX_FILE_TYPE_DIR \<noteq> FPX_FILE_TYPE_FILE" by (simp add: file_types)
  ultimately show ?thesis
    using assms(4,5) by (simp add: read_included_plain [OF assms(1)] fpx_config_walkdir_nonwildcard.simps fpx_dir_open_def)
qed

text \<open>
  Including a relative path fails and reads nothing.
  Including an absolute path of a regular file with well-formed lines, while the pool has
  memory, appends its directives behind all directives read so far. Including a directory
  succeeds without reading a single file of it, and without closing the directory: the walk
  takes the success of \<open>fpx_dir_open\<close> for a reason to return.
\<close>

theorem fpx_config_read_included_effect:
  "(path = [] \<or> hd path \<noteq> FPX_PATH_SEPARATOR \<longrightarrow>
      fpx_config_read_included S gl info c path env = Some (FPX_ERR_FILESYS_ABS_PATH, c, env)) \<and>
   (plain_path path \<and> is_file S path \<and> file_holds S path (text_bytes ls @ t) \<and> pe_ok (re_pool env) = (\<lambda>_. True) \<and>
      (\<forall>(l, e)\<in>set ls. line_ok l \<and> is_eol e) \<and> line_ok t \<longrightarrow>
      (\<exists>c' env'. fpx_config_read_included S gl info c path env = Some (FPX_OK, c', env') \<and>
         conf_list c' = conf_list c @ text_directives (conf_tail c) 1 ls)) \<and>
   (plain_path path \<and> s_stat S path (re_os env) = Some mode \<and> s_is 0x4000 mode \<and>
      s_opendir S path (re_os env) = (h, os') \<and> h \<noteq> NULL \<longrightarrow>
      fpx_config_read_included S gl info c path env = Some (FPX_OK, c, env\<lparr>re_os := os'\<rparr>))"
proof (intro conjI impI)
  assume "path = [] \<or> hd path \<noteq> FPX_PATH_SEPARATOR"
  then have "fpx_check_absolute_path (path @ [0]) = Some FPX_ERR_FILESYS_ABS_PATH"
    by (cases path) (auto simp: fpx_check_absolute_path_def FPX_PATH_SEPARATOR_def)
  then show "fpx_config_read_included S gl info c path env = Some (FPX_ERR_FILESYS_ABS_PATH, c, env)"
    by (simp add: fpx_config_read_included_def)
next
  assume "plain_path path \<and> is_file S path \<and> file_holds S path (text_bytes ls @ t) \<and> pe_ok (re_pool env) = (\<lambda>_. True) \<and>
      (\<forall>(l, e)\<in>set ls. line_ok l \<and> is_eol e) \<and> line_ok t"
  then show "\<exists>c' env'. fpx_config_read_included S gl info c path env = Some (FPX_OK, c', env') \<and>
         conf_list c' = conf_list c @ text_directives (conf_tail c) 1 ls"
    using read_included_file_ok [of path S gl info c env] read_config_file_ok [of S path ls t env c] by auto
next
  assume "plain_path path \<and> s_stat S path (re_os env) = Some mode \<and> s_is 0x4000 mode \<and>
      s_opendir S path (re_os env) = (h, os') \<and> h \<noteq> NULL"
  then show "fpx_config_read_included S gl info c path env = Some (FPX_OK, c, env\<lparr>re_os := os'\<rparr>)"
    by (auto intro: read_included_directory)
qed

text \<open>A file system in which every path is a file with one content, or a directory.\<close>

definition one_file_sys :: "mode_t \<Rightarrow> byte list \<Rightarrow> int sys" where
  "one_file_sys mode content = \<lparr>s_errno = (\<lambda>_. 5), s_open = (\<lambda>_ _ _ os. (3, 0)), s_close = (\<lambda>_ os. os),
     s_lseek = (\<lambda>_ off whence pos.
        if whence = SEEK_CUR then (pos, pos)
        else if whence = SEEK_END then (int (length content), int (length content)) else (off, off)),
     s_read = (\<lambda>_ n pos. ((int (length (take n (drop (nat pos) content))), take n (drop (nat pos) content)), pos)),
     s_write = (\<lambda>_ buf pos. (-1, pos)), s_stat = (\<lambda>_ _. Some mode), s_fstat = (\<lambda>_ _. Some mode),
     s_opendir = (\<lambda>_ os. (7, os)), s_readdir = (\<lambda>_ os. (None, os)), s_closedir = (\<lambda>_ os. os),
     s_glob = (\<lambda>_ os. (0, [], os))\<rparr>"

lemma one_file_holds:
  assumes "length content < 2 ^ 63"
  shows "file_holds (one_file_sys mode content) path content"
proof -
  have n: "sint (word_of_int (int (length content)) :: 64 word) = int (length content)"
    using assms by (simp only: signed_of_int) (simp add: signed_take_bit_int_eq_self)
  moreover have "(word_of_int (int (length content)) :: 64 word) \<noteq> -1"
  proof
    assume "(word_of_int (int (length content)) :: 64 word) = -1"
    with n have "int (length content) = -1" by simp
    then show False by simp
  qed
  ultimately show ?thesis
    by (simp add: file_holds_def one_file_sys_def fpx_file_open_def fpx_file_size_def fpx_file_read_def
        FPX_INVALID_FILE_def SEEK_SET_def SEEK_CUR_def SEEK_END_def Let_def)
qed

definition demo_env :: "'os \<Rightarrow> 'os renv" where
  "demo_env os = \<lparr>re_pool = ok_pool, re_closes = [], re_os = os\<rparr>"

theorem fpx_config_read_included_effect_witness:
  "\<exists>c' env'. fpx_config_read_included (one_file_sys 0x81A4 (bytes ''user a'' @ [10])) \<lparr>g_pathv = [], g_pattern = None, g_last = 0\<rparr>
      \<lparr>fi_type = 0, fi_access = 0\<rparr> empty_config (bytes ''/f'') (demo_env 0) = Some (FPX_OK, c', env') \<and>
    conf_list c' = [\<lparr>di_name = bytes ''user'', di_argv = [bytes ''a''], di_filename = None, di_line = 1\<rparr>]"
proof -
  let ?ls = "[(bytes ''user a'', 10)]" and ?S = "one_file_sys 0x81A4 (bytes ''user a'' @ [10])"
  have "text_bytes ?ls @ [] = bytes ''user a'' @ [10]" by (simp add: text_bytes_def)
  moreover have "file_holds ?S (bytes ''/f'') (bytes ''user a'' @ [10])" by (rule one_file_holds) (simp add: bytes_def)
  moreover have "is_file ?S (bytes ''/f'')" by (simp add: is_file_def one_file_sys_def s_is_def S_IFMT_def)
  moreover have "plain_path (bytes ''/f'')" "\<forall>(l, e)\<in>set ?ls. line_ok l \<and> is_eol e" "line_ok []" by code_simp+
  moreover have "pe_ok (re_pool (demo_env (0::int))) = (\<lambda>_. True)" by (simp add: demo_env_def ok_pool_def)
  moreover have "text_directives None 1 ?ls =
      [\<lparr>di_name = bytes ''user'', di_argv = [bytes ''a''], di_filename = None, di_line = 1\<rparr>]" by code_simp
  moreover have "conf_tail empty_config = None" "conf_list empty_config = []"
    by (simp_all add: conf_tail_def empty_config_def)
  ultimately show ?thesis
    using fpx_config_read_included_effect [THEN conjunct2, THEN conjunct1, rule_format,
        of "bytes ''/f''" ?S ?ls "[]" "demo_env 0" "\<lparr>g_pathv = [], g_pattern = None, g_last = 0\<rparr>"
          "\<lparr>fi_type = 0, fi_access = 0\<rparr>" empty_config] by simp
qed

section \<open>Properties of the check\<close>

definition directive_ok :: "module list \<Rightarrow> directive \<Rightarrow> bool" where
  "directive_ok ms d = (case fpx_find_command_in_modules ms (di_name d) of
     None \<Rightarrow> False | Some cmd \<Rightarrow> fpx_check_directive_arguments (length (di_argv d)) cmd = FPX_OK)"

lemma check_one_plain:
  "di_name d \<noteq> bytes ''include'' \<Longrightarrow> check_one mods run d c s =
     Some (if directive_ok (mods s) d then FPX_OK else FPX_ERR_CONFIG_SYNTAX, c, s)"
  by (simp add: check_one_def directive_ok_def split: option.splits)

lemma walk_check_plain:
  assumes "list_all (\<lambda>d. di_name d \<noteq> bytes ''include'') (conf_list c)"
  shows "walk (check_one mods run) i c s =
    Some (if list_all (directive_ok (mods s)) (drop i (conf_list c)) then FPX_OK else FPX_ERR_CONFIG_SYNTAX, c, s)"
proof (induction "length (conf_list c) - i" arbitrary: i)
  case 0
  then show ?case by (subst walk.simps) simp
next
  case (Suc n)
  then have i: "i < length (conf_list c)" "n = length (conf_list c) - Suc i" by simp_all
  have "di_name (conf_list c ! i) \<noteq> bytes ''include''" using assms i by (simp add: list_all_length)
  then show ?case using i Suc(1) [OF i(2)] Cons_nth_drop_Suc [OF i(1), symmetric]
    by (subst walk.simps) (simp add: check_one_plain)
qed

text \<open>
  C33 (fpx_config_check_returns). Checking a configuration without \<open>include\<close> directives always
  returns, calls no handler and changes neither the configuration nor the server: it accepts
  exactly when every directive is a command of some module with a fitting number of
  arguments, and reports a syntax error otherwise.
\<close>

theorem fpx_config_check_returns:
  assumes "list_all (\<lambda>d. di_name d \<noteq> bytes ''include'') (conf_list c)"
  shows "fpx_config_check mods run c s =
    Some (if list_all (directive_ok (mods s)) (conf_list c) then FPX_OK else FPX_ERR_CONFIG_SYNTAX, c, s)"
  using walk_check_plain [OF assms, of mods run 0 s] by (simp add: fpx_config_check_def)

theorem fpx_config_check_returns_witness:
  "fpx_config_check (\<lambda>_. [demo_module]) (\<lambda>_ _ _ _ _. None)
     \<lparr>conf_list = [\<lparr>di_name = bytes ''listen'', di_argv = [bytes ''80''], di_filename = None, di_line = 1\<rparr>], conf_files = []\<rparr> () =
   Some (FPX_OK,
     \<lparr>conf_list = [\<lparr>di_name = bytes ''listen'', di_argv = [bytes ''80''], di_filename = None, di_line = 1\<rparr>], conf_files = []\<rparr>, ())"
proof -
  let ?d = "\<lparr>di_name = bytes ''listen'', di_argv = [bytes ''80''], di_filename = None, di_line = 1\<rparr>"
  have "list_all (\<lambda>d. di_name d \<noteq> bytes ''include'') [?d]" "list_all (directive_ok [demo_module]) [?d]" by code_simp+
  then show ?thesis
    using fpx_config_check_returns [of "\<lparr>conf_list = [?d], conf_files = []\<rparr>" "\<lambda>_. [demo_module]" "\<lambda>_ _ _ _ _. None" "()"]
    by simp
qed

section \<open>Properties of the value handlers\<close>

definition size_value :: "byte list \<Rightarrow> int" where
  "size_value s = (case size_parts s of (ds, k) \<Rightarrow>
     if s \<noteq> [] \<and> ds \<noteq> [] \<and> list_all fpx_isdigit ds \<and> dec_value 0 ds * k \<le> FPX_SSIZE_T_MAX
     then dec_value 0 ds * k else -1)"

lemma parse_size_value: "0 \<notin> set a \<Longrightarrow> fpx_config_parse_size (a @ [0]) = Some (size_value a)"
  using parse_size_cstr [of "a @ [0]" a] by (simp add: size_value_def)

lemma flag_compare:
  assumes "0 \<notin> set a" "0 \<notin> set t"
  shows "\<exists>r. fpx_strcasecmp (a @ [0]) (t @ [0]) = Some r \<and> (r = 0 \<longleftrightarrow> map fpx_tolower a = map fpx_tolower t)"
  by (rule strcasecmp_cstr) (simp_all add: assms)

lemma on_off:
  "0 \<notin> set (bytes ''on'')" "0 \<notin> set (bytes ''off'')"
  "map fpx_tolower (bytes ''on'') = bytes ''on''" "map fpx_tolower (bytes ''off'') = bytes ''off''"
  by code_simp+

text \<open>
  The handlers that store a value, on a first argument without zero
  bytes. A flag is \<open>on\<close> or \<open>off\<close> in any case, everything else is a syntax error; a size is
  stored exactly or rejected. The handler of unsigned integers stores the low 32 bits of the
  size as a signed number, so that a size of at least 2147483648 is stored as another number
  without an error, and 4294967295 is taken for an error.
\<close>

theorem fpx_handler_values:
  assumes "0 \<notin> set a"
  shows "fpx_handler_flag (a # as) =
      Some (if map fpx_tolower a = bytes ''on'' then (FPX_OK, Some (SBool True))
            else if map fpx_tolower a = bytes ''off'' then (FPX_OK, Some (SBool False))
            else (FPX_ERR_CONFIG_SYNTAX, None)) \<and>
    fpx_handler_size (a # as) =
      Some (if size_value a = -1 then (FPX_ERR_CONFIG_SYNTAX, None) else (FPX_OK, Some (SSize (size_value a)))) \<and>
    fpx_handler_uint (a # as) =
      Some (let n = (size_value a + 2 ^ 31) mod 2 ^ 32 - 2 ^ 31 in
            if n = -1 then (FPX_ERR_CONFIG_SYNTAX, None) else (FPX_OK, Some (SInt n)))"
proof (intro conjI)
  obtain r where r: "fpx_strcasecmp (a @ [0]) (bytes ''on'' @ [0]) = Some r" "r = 0 \<longleftrightarrow> map fpx_tolower a = bytes ''on''"
    using flag_compare [OF assms on_off(1)] on_off(3) by auto
  obtain q where q: "fpx_strcasecmp (a @ [0]) (bytes ''off'' @ [0]) = Some q" "q = 0 \<longleftrightarrow> map fpx_tolower a = bytes ''off''"
    using flag_compare [OF assms on_off(2)] on_off(4) by auto
  show "fpx_handler_flag (a # as) =
      Some (if map fpx_tolower a = bytes ''on'' then (FPX_OK, Some (SBool True))
            else if map fpx_tolower a = bytes ''off'' then (FPX_OK, Some (SBool False))
            else (FPX_ERR_CONFIG_SYNTAX, None))"
    using r q by (simp add: fpx_handler_flag_def)
  show "fpx_handler_size (a # as) =
      Some (if size_value a = -1 then (FPX_ERR_CONFIG_SYNTAX, None) else (FPX_OK, Some (SSize (size_value a))))"
    by (simp add: fpx_handler_size_def parse_size_value [OF assms])
  have "sint (word_of_int (size_value a) :: 32 word) = (size_value a + 2 ^ 31) mod 2 ^ 32 - 2 ^ 31"
    by (simp only: signed_of_int) (simp add: signed_take_bit_eq_take_bit_shift take_bit_eq_mod)
  then show "fpx_handler_uint (a # as) =
      Some (let n = (size_value a + 2 ^ 31) mod 2 ^ 32 - 2 ^ 31 in
            if n = -1 then (FPX_ERR_CONFIG_SYNTAX, None) else (FPX_OK, Some (SInt n)))"
    by (simp add: fpx_handler_uint_def parse_size_value [OF assms] Let_def)
qed

theorem fpx_handler_values_witness:
  "fpx_handler_uint [bytes ''4G''] = Some (FPX_OK, Some (SInt 0)) \<and>
   fpx_handler_uint [bytes ''4294967295''] = Some (FPX_ERR_CONFIG_SYNTAX, None)"
proof -
  have "0 \<notin> set (bytes ''4G'')" "size_value (bytes ''4G'') = 4294967296"
    "0 \<notin> set (bytes ''4294967295'')" "size_value (bytes ''4294967295'') = 4294967295" by code_simp+
  then show ?thesis
    using fpx_handler_values [of "bytes ''4G''" "[]"] fpx_handler_values [of "bytes ''4294967295''" "[]"]
    by (simp add: Let_def)
qed

end
