(* ===== verification/Fpx_Server.thy ===== *)
theory Fpx_Server
  imports Fpx_Command Fpx_Sync Fpx_Net
begin

text \<open>
  The server: its structure and the handlers, hooks and command table of the core module
  (\<open>src/core/server.c\<close>), and the process functions they call (\<open>src/system/process.c\<close>, POSIX
  part). What other modules do, and the members of their contexts, are parameters.
\<close>

section \<open>Processes\<close>

record 'os proc =
  p_errno :: "'os \<Rightarrow> fpx_err_t"
  p_fork :: "'os \<Rightarrow> int \<times> 'os"
  p_setsid :: "'os \<Rightarrow> int \<times> 'os"
  p_detach :: "'os \<Rightarrow> 'os"
  p_chdir :: "byte list \<Rightarrow> 'os \<Rightarrow> int \<times> 'os"
  p_geteuid :: "'os \<Rightarrow> int"
  p_getegid :: "'os \<Rightarrow> int"
  p_getpwnam :: "byte list \<Rightarrow> 'os \<Rightarrow> int option"
  p_getgrnam :: "byte list \<Rightarrow> 'os \<Rightarrow> int option"
  p_setuid :: "int \<Rightarrow> 'os \<Rightarrow> int \<times> 'os"
  p_setgid :: "int \<Rightarrow> 'os \<Rightarrow> int \<times> 'os"

text \<open>
  Becoming a daemon, seen from one process: \<^const>\<open>None\<close> as result means that it exits.
  \<open>p_detach\<close> is the sequence of calls that cannot fail the function: ignoring \<open>SIGHUP\<close> is left
  out, closing the standard descriptors and opening \<open>/dev/null\<close> three times.
\<close>

definition fpx_process_become_daemon :: "'os proc \<Rightarrow> 'os \<Rightarrow> fpx_err_t option \<times> 'os" where
  "fpx_process_become_daemon P os =
     (case p_fork P os of (pid, os) \<Rightarrow>
        if pid < 0 then (Some (p_errno P os), os)
        else if pid \<noteq> 0 then (None, os)
        else case p_setsid P os of (r, os) \<Rightarrow>
          if r < 0 then (Some (p_errno P os), os)
          else case p_fork P os of (pid, os) \<Rightarrow>
            if pid < 0 then (Some (p_errno P os), os)
            else if pid \<noteq> 0 then (None, os)
            else (Some FPX_OK, p_detach P os))"

definition fpx_process_set_workdir :: "'os proc \<Rightarrow> byte list \<Rightarrow> 'os \<Rightarrow> fpx_err_t \<times> 'os" where
  "fpx_process_set_workdir P workdir os =
     (case p_chdir P workdir os of (r, os) \<Rightarrow> (if r < 0 then p_errno P os else FPX_OK, os))"

definition fpx_process_set_user :: "'os proc \<Rightarrow> byte list \<Rightarrow> 'os \<Rightarrow> fpx_err_t \<times> 'os" where
  "fpx_process_set_user P user os =
     (if p_geteuid P os \<noteq> 0 then (FPX_OK, os)
      else case p_getpwnam P user os of
        None \<Rightarrow> (FPX_FAILED, os)
      | Some uid \<Rightarrow>
          (case p_setuid P uid os of (r, os) \<Rightarrow> (if r = -1 then p_errno P os else FPX_OK, os)))"

definition fpx_process_set_group :: "'os proc \<Rightarrow> byte list \<Rightarrow> 'os \<Rightarrow> fpx_err_t \<times> 'os" where
  "fpx_process_set_group P grp os =
     (if p_getegid P os \<noteq> 0 then (FPX_OK, os)
      else case p_getgrnam P grp os of
        None \<Rightarrow> (FPX_FAILED, os)
      | Some gid \<Rightarrow>
          (case p_setgid P gid os of (r, os) \<Rightarrow> (if r = -1 then p_errno P os else FPX_OK, os)))"

section \<open>The server\<close>

record 'os server =
  sv_pool :: penv
  sv_closes :: "fd list"
  sv_os :: 'os
  sv_trace :: "nevent list"
  sv_ttrace :: "tevent list"
  sv_logger :: logger
  sv_modules :: "module list"
  sv_listeners :: "listener list"
  sv_errno :: fpx_err_t
  sv_daemon :: bool
  sv_priority :: int
  sv_workdir :: "byte list"
  sv_user :: "byte list option"
  sv_group :: "byte list option"

text \<open>
  What the handlers are run in: the system calls, the loader, the hooks and handlers of other
  modules, whether the pool serves the address parser, and the content of uninitialised
  variables. A handler of another module may change the server, but not the configuration
  that is being processed.
\<close>

record 'os senv =
  se_sys :: "'os sys"
  se_dl :: dl
  se_hooks :: "'os server hooks"
  se_other :: "nat \<Rightarrow> command \<Rightarrow> module \<Rightarrow> directive \<Rightarrow> 'os server \<Rightarrow> (fpx_err_t \<times> 'os server) option"
  se_store :: "module \<Rightarrow> field \<Rightarrow> stored \<Rightarrow> 'os server \<Rightarrow> 'os server option"
  se_alloc :: "nat \<Rightarrow> bool"
  se_glob :: fpx_glob
  se_info :: file_info
  se_file :: fpx_file

definition arg :: "byte list list \<Rightarrow> nat \<Rightarrow> byte list option" where
  "arg argv i = (if i < length argv then Some (argv ! i) else None)"

definition server_renv :: "'os server \<Rightarrow> 'os renv" where
  "server_renv s = \<lparr>re_pool = sv_pool s, re_closes = sv_closes s, re_os = sv_os s\<rparr>"

definition fpx_handler_include :: "'os senv \<Rightarrow> byte list list \<Rightarrow> config \<Rightarrow> 'os server \<Rightarrow> 'os server dresult" where
  "fpx_handler_include E argv config s = do {
     path \<leftarrow> arg argv 0;
     (err, config, env) \<leftarrow> fpx_config_read_included (se_sys E) (se_glob E) (se_info E) config path (server_renv s);
     Some (err, config, s\<lparr>sv_pool := re_pool env, sv_closes := re_closes env, sv_os := re_os env\<rparr>)
   }"

definition fpx_handler_import :: "'os senv \<Rightarrow> byte list list \<Rightarrow> 'os server \<Rightarrow> (fpx_err_t \<times> 'os server) option" where
  "fpx_handler_import E argv s = do {
     fname \<leftarrow> arg argv 0;
     r \<leftarrow> fpx_load_module (se_dl E) (sv_modules s) fname (sv_errno s);
     let s = s\<lparr>sv_modules := ld_modules r, sv_errno := ld_errno r\<rparr>;
     (case ld_module r of
        None \<Rightarrow> Some (sv_errno s, s)
      | Some _ \<Rightarrow>
          (case fpx_preinit_modules (se_hooks E) (sv_modules s) s of
             (err, modules, s) \<Rightarrow> Some (err, s\<lparr>sv_modules := modules\<rparr>)))
   }"

text \<open>
  The address and the port are passed on by value; a port that the parser has left unassigned has none to pass.
\<close>

definition fpx_handler_listen :: "'os senv \<Rightarrow> byte list list \<Rightarrow> 'os server \<Rightarrow> (fpx_err_t \<times> 'os server) option" where
  "fpx_handler_listen E argv s =
     (let (ok, pool) = palloc (sv_pool s); s = s\<lparr>sv_pool := pool\<rparr> in
      if \<not> ok then Some (pe_errno pool, s)
      else do {
        a \<leftarrow> arg argv 0;
        ap \<leftarrow> fpx_config_parse_addr_port (se_alloc E) (a @ [0]);
        if ap_rv ap = FPX_ADDR_IPV4 then do {
          addr \<leftarrow> ap_addr ap;
          port \<leftarrow> ap_port ap;
          let (err, listener) = fpx_listener_init_ipv4 (Some addr) (Some port);
          if err \<noteq> FPX_OK then Some (err, s)
          else Some (FPX_OK, s\<lparr>sv_listeners := sv_listeners s @ [listener]\<rparr>)
        }
        else if ap_rv ap = FPX_ADDR_IPV6 then do {
          addr \<leftarrow> ap_addr ap;
          port \<leftarrow> ap_port ap;
          let (err, listener) = fpx_listener_init_ipv6 (Some addr) (Some port);
          if err \<noteq> FPX_OK then Some (err, s)
          else Some (FPX_OK, s\<lparr>sv_listeners := sv_listeners s @ [listener]\<rparr>)
        }
        else Some (FPX_ERR_CONFIG_SYNTAX, s)
      })"

text \<open>The results of adding a log are ignored, and \<open>stderr\<close> falls through to the end.\<close>

definition add_log_fd :: "'os senv \<Rightarrow> nat \<Rightarrow> fd \<Rightarrow> 'os server \<Rightarrow> 'os server" where
  "add_log_fd E level fd s =
     s\<lparr>sv_logger := snd (fpx_logger_add_log_fd (sv_logger s) level fd (se_file E))\<rparr>"

definition add_log_file :: "'os senv \<Rightarrow> nat \<Rightarrow> byte list \<Rightarrow> size_t \<Rightarrow> 'os server \<Rightarrow> 'os server option" where
  "add_log_file E level fname sz s = do {
     (_, logger, os) \<leftarrow> fpx_logger_add_log_file (se_sys E) (sv_logger s) level fname sz (sv_os s);
     Some (s\<lparr>sv_logger := logger, sv_os := os\<rparr>)
   }"

definition fpx_handler_log :: "'os senv \<Rightarrow> byte list list \<Rightarrow> 'os server \<Rightarrow> (fpx_err_t \<times> 'os server) option" where
  "fpx_handler_log E argv s = do {
     name \<leftarrow> arg argv 0;
     lv \<leftarrow> arg argv 1;
     let level = fpx_config_parse_log_level lv;
     if level = FPX_LOG_INVALID_LEVEL then Some (FPX_ERR_CONFIG_SYNTAX, s)
     else if length argv = 2 \<and> name = bytes ''stdout'' then Some (FPX_OK, add_log_fd E level 1 s)
     else if length argv = 2 \<and> name = bytes ''stderr'' then Some (FPX_OK, add_log_fd E level 2 s)
     else if length argv = 2 \<and> name = bytes ''syslog'' then Some (FPX_OK, s)
     else if length argv = 2 then do {
       s \<leftarrow> add_log_file E level name 0 s;
       Some (FPX_OK, s)
     }
     else if length argv = 3 then do {
       a \<leftarrow> arg argv 2;
       sz \<leftarrow> fpx_config_parse_size (a @ [0]);
       if sz = -1 then Some (FPX_ERR_CONFIG_SYNTAX, s)
       else do {
         s \<leftarrow> add_log_file E level name (word_of_int sz) s;
         Some (FPX_OK, s)
       }
     }
     else Some (FPX_OK, s)
   }"

text \<open>Storing a value into the context of the core module, which is the server itself.\<close>

definition store_core :: "field \<Rightarrow> stored \<Rightarrow> 'os server \<Rightarrow> 'os server option" where
  "store_core f v s =
     (case (f, v) of
        (F_daemon, SBool b) \<Rightarrow> Some (s\<lparr>sv_daemon := b\<rparr>)
      | (F_workdir, SStr a) \<Rightarrow> Some (s\<lparr>sv_workdir := a\<rparr>)
      | (F_priority, SInt n) \<Rightarrow> Some (s\<lparr>sv_priority := n\<rparr>)
      | (F_user, SStr a) \<Rightarrow> Some (s\<lparr>sv_user := Some a\<rparr>)
      | (F_group, SStr a) \<Rightarrow> Some (s\<lparr>sv_group := Some a\<rparr>)
      | _ \<Rightarrow> None)"

definition run_value :: "'os senv \<Rightarrow> (fpx_err_t \<times> stored option) option \<Rightarrow> command \<Rightarrow> module \<Rightarrow> 'os server \<Rightarrow>
    (fpx_err_t \<times> 'os server) option" where
  "run_value E r cmd m s = do {
     (err, v) \<leftarrow> r;
     (case v of
        None \<Rightarrow> Some (err, s)
      | Some v \<Rightarrow> do {
          s \<leftarrow> (if m_name m = bytes ''core'' then store_core (cm_offset cmd) v s else se_store E m (cm_offset cmd) v s);
          Some (err, s)
        })
   }"

text \<open>The call \<open>cmd->handler(&params, module->cntx, argc, argv)\<close>.\<close>

definition core_run :: "'os senv \<Rightarrow> 'os server runner" where
  "core_run E cmd m directive config s =
     (let argv = di_argv directive; keep = map_option (\<lambda>(err, s). (err, config, s)) in
      case cm_handler cmd of
        H_include \<Rightarrow> fpx_handler_include E argv config s
      | H_import \<Rightarrow> keep (fpx_handler_import E argv s)
      | H_listen \<Rightarrow> keep (fpx_handler_listen E argv s)
      | H_log \<Rightarrow> keep (fpx_handler_log E argv s)
      | H_flag \<Rightarrow> keep (run_value E (fpx_handler_flag argv) cmd m s)
      | H_str \<Rightarrow> keep (run_value E (fpx_handler_str argv) cmd m s)
      | H_size \<Rightarrow> keep (run_value E (fpx_handler_size argv) cmd m s)
      | H_uint \<Rightarrow> keep (run_value E (fpx_handler_uint argv) cmd m s)
      | H_module n \<Rightarrow> keep (se_other E n cmd m directive s))"

definition fpx_core_cmd :: "command list" where
  "fpx_core_cmd =
    [\<lparr>cm_name = bytes ''include'', cm_takes = 2, cm_handler = H_include, cm_offset = F_none\<rparr>,
     \<lparr>cm_name = bytes ''import'', cm_takes = 2, cm_handler = H_import, cm_offset = F_none\<rparr>,
     \<lparr>cm_name = bytes ''listen'', cm_takes = 2, cm_handler = H_listen, cm_offset = F_none\<rparr>,
     \<lparr>cm_name = bytes ''log'', cm_takes = 12, cm_handler = H_log, cm_offset = F_none\<rparr>,
     \<lparr>cm_name = bytes ''daemon'', cm_takes = 2, cm_handler = H_flag, cm_offset = F_daemon\<rparr>,
     \<lparr>cm_name = bytes ''workdir'', cm_takes = 2, cm_handler = H_str, cm_offset = F_workdir\<rparr>,
     \<lparr>cm_name = bytes ''priority'', cm_takes = 2, cm_handler = H_uint, cm_offset = F_priority\<rparr>,
     \<lparr>cm_name = bytes ''user'', cm_takes = 2, cm_handler = H_str, cm_offset = F_user\<rparr>,
     \<lparr>cm_name = bytes ''group'', cm_takes = 2, cm_handler = H_str, cm_offset = F_group\<rparr>]"

definition fpx_core_preinit_ptr :: addr where "fpx_core_preinit_ptr = 0x1000"
definition fpx_core_init_ptr :: addr where "fpx_core_init_ptr = 0x1001"

definition fpx_core_module :: module where
  "fpx_core_module = \<lparr>m_name = bytes ''core'', m_version = 4, m_cmd = fpx_core_cmd,
     m_preinit = fpx_core_preinit_ptr, m_init = fpx_core_init_ptr, m_fini = NULL, m_cntx = NULL, m_handle = NULL,
     m_preinited = False, m_inited = False\<rparr>"

section \<open>The hooks of the core module\<close>

definition server_tst :: "'os server \<Rightarrow> 'os tst" where
  "server_tst s = \<lparr>ts_os = sv_os s, ts_trace = sv_ttrace s\<rparr>"

definition set_tst :: "'os tst \<Rightarrow> 'os server \<Rightarrow> 'os server" where
  "set_tst st s = s\<lparr>sv_os := ts_os st, sv_ttrace := ts_trace st\<rparr>"

lemma set_tst_simps [simp]:
  "sv_os (set_tst st s) = ts_os st" "sv_listeners (set_tst st s) = sv_listeners s" "sv_modules (set_tst st s) = sv_modules s"
  "sv_daemon (set_tst st s) = sv_daemon s" "sv_logger (set_tst st s) = sv_logger s"
  by (simp_all add: set_tst_def)

text \<open>
  The failure of \<open>fpx_logger_init\<close> fails the assertion: the inner \<^const>\<open>None\<close>. The outer one is an
  undefined behaviour of it. \<open>lpool\<close> and \<open>messages\<close> are the pool and the block of the logger; its
  cleanups are not followed further, as \<open>fpx_logger_destroy\<close> is called at the end of a test run only.
\<close>

definition fpx_core_preinit :: "'os pth \<Rightarrow> penv option \<Rightarrow> addr \<Rightarrow> 'os server \<Rightarrow> 'os server option option" where
  "fpx_core_preinit T lpool messages s = do {
     (err, logger, st) \<leftarrow> fpx_logger_init T lpool messages (server_tst s);
     let s = set_tst st s;
     Some (case logger of
         None \<Rightarrow> None
       | Some (logger, cleanups) \<Rightarrow>
           Some (s\<lparr>sv_logger := logger, sv_daemon := True, sv_workdir := bytes ''/'', sv_priority := 0,
                   sv_user := None, sv_group := None\<rparr>))
   }"

definition server_nst :: "'os server \<Rightarrow> 'os nst" where
  "server_nst s = \<lparr>ns_os = sv_os s, ns_trace = sv_trace s\<rparr>"

definition set_nst :: "'os nst \<Rightarrow> 'os server \<Rightarrow> 'os server" where
  "set_nst st s = s\<lparr>sv_os := ns_os st, sv_trace := ns_trace st\<rparr>"

text \<open>The loop over the listeners, with the listeners already bound; the error is \<open>FPX_FAILED\<close>.\<close>

fun open_listeners :: "'os net \<Rightarrow> listener list \<Rightarrow> listener list \<Rightarrow> 'os server \<Rightarrow> (fpx_err_t \<times> 'os server) option" where
  "open_listeners N done [] s = Some (FPX_OK, s\<lparr>sv_listeners := done\<rparr>)"
| "open_listeners N done (l # ls) s = do {
     (err, l, st) \<leftarrow> fpx_listener_bind N l (server_nst s);
     let s = set_nst st s;
     if err \<noteq> FPX_OK then Some (FPX_FAILED, s\<lparr>sv_listeners := done @ l # ls\<rparr>)
     else
       case fpx_listener_open N l (server_nst s) of (err, st) \<Rightarrow>
         let s = set_nst st s in
         if err \<noteq> FPX_OK then Some (FPX_FAILED, s\<lparr>sv_listeners := done @ l # ls\<rparr>)
         else do {
           pool \<leftarrow> pcleanup (sv_pool s);
           open_listeners N (done @ [l]) ls (s\<lparr>sv_pool := pool\<rparr>)
         }
   }"

text \<open>The working directory, the user and the group, in the order of the code.\<close>

definition core_identity :: "'os proc \<Rightarrow> 'os server \<Rightarrow> fpx_err_t \<times> 'os server" where
  "core_identity P s =
     (case fpx_process_set_workdir P (sv_workdir s) (sv_os s) of (err, os) \<Rightarrow>
        if err \<noteq> FPX_OK then (err, s\<lparr>sv_os := os\<rparr>)
        else case (case sv_user s of None \<Rightarrow> (FPX_OK, os) | Some user \<Rightarrow> fpx_process_set_user P user os) of (err, os) \<Rightarrow>
          if err \<noteq> FPX_OK then (err, s\<lparr>sv_os := os\<rparr>)
          else case (case sv_group s of None \<Rightarrow> (FPX_OK, os) | Some grp \<Rightarrow> fpx_process_set_group P grp os) of (err, os) \<Rightarrow>
            (err, s\<lparr>sv_os := os\<rparr>))"

text \<open>
  The result \<^const>\<open>None\<close> inside \<^const>\<open>Some\<close> is the exit of the process that becomes a daemon.
  \<open>tid\<close> is the address of the number of the logging thread.
\<close>

definition fpx_core_init :: "'os net \<Rightarrow> 'os proc \<Rightarrow> 'os pth \<Rightarrow> addr \<Rightarrow> 'os server \<Rightarrow>
    (fpx_err_t option \<times> 'os server) option" where
  "fpx_core_init N P T tid s =
     (if sv_listeners s = [] then Some (Some FPX_FAILED, s)
      else do {
        (err, s) \<leftarrow> open_listeners N [] (sv_listeners s) s;
        if err \<noteq> FPX_OK then Some (Some err, s)
        else
          case core_identity P s of (err, s) \<Rightarrow>
            if err \<noteq> FPX_OK then Some (Some err, s)
            else do {
              (err, logger, st) \<leftarrow> fpx_logger_start T tid (sv_logger s) (server_tst s);
              let s = (set_tst st s)\<lparr>sv_logger := logger\<rparr>;
              if err \<noteq> FPX_OK then Some (Some err, s)
              else if sv_daemon s then
                case fpx_process_become_daemon P (sv_os s) of (r, os) \<Rightarrow> Some (r, s\<lparr>sv_os := os\<rparr>)
              else Some (Some FPX_OK, s)
            }
      })"

section \<open>Processing the configuration\<close>

lemma core_run_grows: "core_run E cmd m d c s = Some (err, c', s') \<Longrightarrow> grows c c'"
  by (auto simp: core_run_def fpx_handler_include_def Let_def split: handler_id.splits Option.bind_splits
      dest: read_included_grows)

interpretation core: typed_handlers sv_modules "core_run E"
  by unfold_locales (rule core_run_grows)

text \<open>
  What processing a configuration amounts to. It handles the
  directives one after the other, each once, in the order of the list, until one reports an
  error, whose code is the result, or the end is reached. Directives of included files
  come behind all directives read before: the list is only ever extended at its end.
\<close>

theorem fpx_config_process_order:
  "(fpx_config_process sv_modules (core_run E) c s = Some (err, c', s') \<longleftrightarrow>
      walk_ends (process_one sv_modules (core_run E)) 0 c s err c' s') \<and>
   (fpx_config_process sv_modules (core_run E) c s = Some (err, c', s') \<longrightarrow>
      (\<exists>ys. conf_list c' = conf_list c @ ys))"
  using core.process_extends [of E c s err c' s']
  by (auto simp: fpx_config_process_def walk_iff extends_def)

definition demo_logger :: logger where
  "demo_logger = \<lparr>lr_running = False, lr_logs = [], lr_pool = ok_pool, lr_closes = []\<rparr>"

definition demo_server :: "'os \<Rightarrow> 'os server" where
  "demo_server os = \<lparr>sv_pool = ok_pool, sv_closes = [], sv_os = os, sv_trace = [], sv_ttrace = [], sv_logger = demo_logger,
     sv_modules = [fpx_core_module], sv_listeners = [], sv_errno = 0, sv_daemon = True, sv_priority = 0,
     sv_workdir = bytes ''/'', sv_user = None, sv_group = None\<rparr>"

definition demo_senv :: "'os sys \<Rightarrow> 'os senv" where
  "demo_senv S = \<lparr>se_sys = S, se_dl = demo_dl,
     se_hooks = \<lparr>hk_preinit = (\<lambda>_ s. (7, s)), hk_init = (\<lambda>_ _ s. (0, s)), hk_fini = (\<lambda>_ _ s. s)\<rparr>,
     se_other = (\<lambda>_ _ _ _ s. Some (0, s)), se_store = (\<lambda>_ _ _ s. Some s), se_alloc = (\<lambda>_. True),
     se_glob = \<lparr>g_pathv = [], g_pattern = None, g_last = 0\<rparr>, se_info = \<lparr>fi_type = 0, fi_access = 0\<rparr>,
     se_file = zero_file\<rparr>"

definition user_config :: config where
  "user_config = \<lparr>conf_list = [\<lparr>di_name = bytes ''user'', di_argv = [bytes ''www''], di_filename = None, di_line = 1\<rparr>],
     conf_files = []\<rparr>"

lemma user_config_run:
  "process_one sv_modules (core_run (demo_senv mem_sys)) (conf_list user_config ! 0) user_config (demo_server ([], 0)) =
     Some (FPX_OK, user_config, (demo_server ([], 0))\<lparr>sv_user := Some (bytes ''www'')\<rparr>)"
proof -
  let ?u = "\<lparr>cm_name = bytes ''user'', cm_takes = 2, cm_handler = H_str, cm_offset = F_user\<rparr>"
  have "fpx_find_command_in_modules [fpx_core_module] (bytes ''user'') = Some ?u"
    "fpx_find_module_by_command [fpx_core_module] (bytes ''user'') = Some fpx_core_module"
    "fpx_check_directive_arguments 1 ?u = FPX_OK" "m_name fpx_core_module = bytes ''core''"
    by code_simp+
  then show ?thesis
    by (simp add: process_one_def user_config_def demo_server_def core_run_def Let_def run_value_def
        fpx_handler_str_def store_core_def)
qed

theorem fpx_config_process_order_witness:
  "\<exists>ys. conf_list user_config = conf_list user_config @ ys \<and>
     fpx_config_process sv_modules (core_run (demo_senv mem_sys)) user_config (demo_server ([], 0)) =
     Some (FPX_OK, user_config, (demo_server ([], 0))\<lparr>sv_user := Some (bytes ''www'')\<rparr>)"
proof -
  let ?one = "process_one sv_modules (core_run (demo_senv mem_sys))"
  let ?s' = "(demo_server ([], 0))\<lparr>sv_user := Some (bytes ''www'')\<rparr>"
  have "handled ?one 0 user_config (demo_server ([], 0)) 1 user_config ?s'"
    using handled.next_one [of 0 user_config ?one, OF _ user_config_run handled.none]
    by (simp add: user_config_def)
  then have "walk_ends ?one 0 user_config (demo_server ([], 0)) FPX_OK user_config ?s'"
    unfolding walk_ends_def by (intro exI conjI) (assumption, simp add: user_config_def)
  then show ?thesis
    using fpx_config_process_order [of "demo_senv mem_sys" user_config "demo_server ([], 0)" FPX_OK user_config ?s'] by auto
qed

section \<open>Types and progress\<close>

lemma config_read_wf: "fpx_config_read S filename env = Some (err, c, env') \<Longrightarrow> config_wf c"
  unfolding fpx_config_read_def by (drule read_config_file_grows) (erule grows_wf, simp add: config_wf_def)

lemma word_ok_no_zero: "word_ok a \<Longrightarrow> 0 \<notin> set a \<and> a \<noteq> []"
  by (auto simp: word_ok_def word_byte_def list_all_iff)

text \<open>The number of arguments that the masks of the core commands accept.\<close>

lemma core_takes:
  assumes "cmd \<in> set fpx_core_cmd" "fpx_check_directive_arguments n cmd = FPX_OK"
  shows "if cm_handler cmd = H_log then n = 2 \<or> n = 3 else n = 1"
proof -
  have u: "fold (takes_step 2) [0..<8] (0, 0) = (1, 1)" "fold (takes_step 12) [0..<8] (0, 0) = (2, 3)"
    by code_simp+
  have "(cm_takes cmd, cm_handler cmd = H_log) \<in> {(2, False), (12, True)}" using assms(1) by (auto simp: fpx_core_cmd_def)
  then show ?thesis using assms(2) u by (auto simp: fpx_check_directive_arguments_iff args_ok_def)
qed

definition core_member_list :: "(handler_id \<times> field) list" where
  "core_member_list = [(H_include, F_none), (H_import, F_none), (H_listen, F_none), (H_log, F_none), (H_flag, F_daemon),
     (H_str, F_workdir), (H_uint, F_priority), (H_str, F_user), (H_str, F_group)]"

lemma core_members: "cmd \<in> set fpx_core_cmd \<Longrightarrow> (cm_handler cmd, cm_offset cmd) \<in> set core_member_list"
proof -
  have "map (\<lambda>cmd. (cm_handler cmd, cm_offset cmd)) fpx_core_cmd = core_member_list"
    by (simp add: fpx_core_cmd_def core_member_list_def)
  then show "cmd \<in> set fpx_core_cmd \<Longrightarrow> (cm_handler cmd, cm_offset cmd) \<in> set core_member_list"
    by (metis (mono_tags, lifting) image_eqI set_map)
qed

lemma load_module_total: "\<exists>r. fpx_load_module D ms fname e = Some r"
  by (cases fname) (auto simp: fpx_load_module_def fpx_check_absolute_path_def Let_def split: option.splits prod.splits)

lemma add_log_file_total:
  assumes "pe_ok (lr_pool (sv_logger s)) = (\<lambda>_. True)"
  shows "\<exists>s'. add_log_file E level fname sz s = Some s'"
  using assms
  by (auto simp: add_log_file_def fpx_logger_add_log_file_def Let_def pcleanup_def palloc_def split: prod.splits)

lemma handler_log_total:
  assumes "length argv = 2 \<or> length argv = 3" "list_all word_ok argv" "pe_ok (lr_pool (sv_logger s)) = (\<lambda>_. True)"
  shows "\<exists>r. fpx_handler_log E argv s = Some r"
proof -
  obtain a b cs where av: "argv = a # b # cs" using assms(1) by (cases argv; cases "tl argv") auto
  have sz: "fpx_config_parse_size (x @ [0]) = Some (size_value x)" if "x \<in> set argv" for x
    using that assms(2) word_ok_no_zero by (auto simp: list_all_iff parse_size_value)
  have l: "\<exists>s'. add_log_file E level fname z s = Some s'" for level fname z by (rule add_log_file_total [OF assms(3)])
  consider "cs = []" | x where "cs = [x]" using assms(1) av by (cases cs) auto
  then show ?thesis
  proof cases
    case 1
    then show ?thesis using av l [of "fpx_config_parse_log_level b" a 0]
      by (auto simp: fpx_handler_log_def arg_def Let_def)
  next
    case 2
    then show ?thesis
      using av sz [of x] l [of "fpx_config_parse_log_level b" a "word_of_int (size_value x)"]
      by (auto simp: fpx_handler_log_def arg_def Let_def)
  qed
qed

lemma run_value_core:
  assumes "r = Some (err, v)" "m_name m = bytes ''core''"
    and "\<And>w. v = Some w \<Longrightarrow> store_core (cm_offset cmd) w s \<noteq> None"
  shows "\<exists>q. run_value E r cmd m s = Some q"
  using assms by (cases v) (auto simp: run_value_def)

lemma flag_total:
  assumes "0 \<notin> set a"
  shows "\<exists>err v. fpx_handler_flag [a] = Some (err, v) \<and> v \<in> {None, Some (SBool True), Some (SBool False)}"
proof -
  obtain r q where "fpx_strcasecmp (a @ [0]) (bytes ''on'' @ [0]) = Some r" "fpx_strcasecmp (a @ [0]) (bytes ''off'' @ [0]) = Some q"
    using flag_compare [OF assms on_off(1)] flag_compare [OF assms on_off(2)] by blast
  then show ?thesis by (simp add: fpx_handler_flag_def)
qed

definition memory_ok :: "'os senv \<Rightarrow> 'os server \<Rightarrow> bool" where
  "memory_ok E s \<longleftrightarrow> pe_ok (sv_pool s) = (\<lambda>_. True) \<and> pe_ok (lr_pool (sv_logger s)) = (\<lambda>_. True) \<and> (\<forall>n. se_alloc E n)"

text \<open>An address without a port, for which the parser leaves the variable of the port unassigned.\<close>

definition portless :: "'os senv \<Rightarrow> byte list \<Rightarrow> bool" where
  "portless E a \<longleftrightarrow> (case fpx_config_parse_addr_port (se_alloc E) (a @ [0]) of
     None \<Rightarrow> False | Some ap \<Rightarrow> ap_rv ap \<noteq> FPX_ADDR_INVALID \<and> ap_port ap = None)"

lemma parse_addr_result:
  "parse_addr alloc str e port = Some ap \<Longrightarrow> ap_rv ap = FPX_ADDR_INVALID \<or>
     ap_rv ap \<in> {FPX_ADDR_IPV4, FPX_ADDR_IPV6} \<and> ap_addr ap \<noteq> None"
  by (auto simp: parse_addr_def ap_invalid_def split: Option.bind_splits option.splits if_splits)

lemma parse_addr_port_result:
  "fpx_config_parse_addr_port alloc str = Some ap \<Longrightarrow> ap_rv ap = FPX_ADDR_INVALID \<or>
     ap_rv ap \<in> {FPX_ADDR_IPV4, FPX_ADDR_IPV6} \<and> ap_addr ap \<noteq> None"
  by (auto simp: fpx_config_parse_addr_port_def ap_invalid_def split: Option.bind_splits if_splits dest: parse_addr_result)

lemma handler_listen_stuck:
  assumes "memory_ok E s" "0 \<notin> set a" "a \<noteq> []"
  shows "fpx_handler_listen E [a] s = None \<longleftrightarrow> portless E a"
proof -
  obtain ap where ap: "fpx_config_parse_addr_port (se_alloc E) (a @ [0]) = Some ap"
    using parse_addr_port_total [of "a @ [0]" a "se_alloc E"] assms by (auto simp: memory_ok_def)
  have "FPX_ADDR_IPV4 \<noteq> FPX_ADDR_INVALID" "FPX_ADDR_IPV6 \<noteq> FPX_ADDR_INVALID" "FPX_ADDR_IPV4 \<noteq> FPX_ADDR_IPV6"
    by (simp_all add: FPX_ADDR_IPV4_def FPX_ADDR_IPV6_def FPX_ADDR_INVALID_def)
  then show ?thesis
    using assms(1) ap parse_addr_port_result [OF ap]
    by (cases "ap_port ap")
      (auto simp: fpx_handler_listen_def portless_def arg_def Let_def palloc_def memory_ok_def split: prod.splits)
qed

lemma core_run_progress:
  assumes cmd: "cmd \<in> set fpx_core_cmd" "cm_handler cmd \<noteq> H_include" "m_name m = bytes ''core''"
    and d: "directive_wf d" "fpx_check_directive_arguments (length (di_argv d)) cmd = FPX_OK"
    and mem: "memory_ok E s"
  shows "core_run E cmd m d c s = None \<longleftrightarrow> cm_handler cmd = H_listen \<and> portless E (hd (di_argv d))"
proof -
  have n: "if cm_handler cmd = H_log then length (di_argv d) = 2 \<or> length (di_argv d) = 3 else length (di_argv d) = 1"
    using core_takes [OF cmd(1) d(2)] .
  have w: "list_all word_ok (di_argv d)" using d(1) by (simp add: directive_wf_def)
  show ?thesis
  proof (cases "cm_handler cmd = H_log")
    case True
    then have "length (di_argv d) = 2 \<or> length (di_argv d) = 3" "pe_ok (lr_pool (sv_logger s)) = (\<lambda>_. True)"
      using n mem by (simp_all add: memory_ok_def)
    then obtain r where "fpx_handler_log E (di_argv d) s = Some r" using handler_log_total [OF _ w] by blast
    then show ?thesis using True by (auto simp: core_run_def split: prod.splits)
  next
    case False
    then obtain a where a: "di_argv d = [a]" using n by (cases "di_argv d") auto
    then have a0: "0 \<notin> set a" "a \<noteq> []" using w word_ok_no_zero by auto
    note st = run_value_core [OF _ cmd(3)]
    consider "cm_handler cmd = H_import" | "cm_handler cmd = H_listen"
      | "cm_handler cmd = H_flag" "cm_offset cmd = F_daemon"
      | "cm_handler cmd = H_str" "cm_offset cmd \<in> {F_workdir, F_user, F_group}"
      | "cm_handler cmd = H_uint" "cm_offset cmd = F_priority"
      using core_members [OF cmd(1)] cmd(2) False unfolding core_member_list_def by auto
    then show ?thesis
    proof cases
      case 1
      obtain r where "fpx_load_module (se_dl E) (sv_modules s) a (sv_errno s) = Some r" using load_module_total by blast
      then have "\<exists>q. fpx_handler_import E [a] s = Some q"
        by (auto simp: fpx_handler_import_def arg_def Let_def split: option.splits prod.splits)
      with 1 a show ?thesis by (auto simp: core_run_def split: prod.splits)
    next
      case 2
      then show ?thesis using handler_listen_stuck [OF mem a0] a by (simp add: core_run_def)
    next
      case 3
      obtain err v where v: "fpx_handler_flag [a] = Some (err, v)" "v \<in> {None, Some (SBool True), Some (SBool False)}"
        using flag_total [OF a0(1)] by blast
      have "\<exists>q. run_value E (fpx_handler_flag [a]) cmd m s = Some q"
        using v 3 by (intro st [OF v(1)]) (auto simp: store_core_def)
      with 3 a show ?thesis by (auto simp: core_run_def split: prod.splits)
    next
      case 4
      have "\<exists>q. run_value E (fpx_handler_str [a]) cmd m s = Some q"
        using 4 by (intro st) (auto simp: store_core_def fpx_handler_str_def)
      with 4 a show ?thesis by (auto simp: core_run_def split: prod.splits)
    next
      case 5
      have "\<exists>err v. fpx_handler_uint [a] = Some (err, v) \<and> (\<forall>w. v = Some w \<longrightarrow> (\<exists>n. w = SInt n))"
        using a0(1) by (simp add: fpx_handler_uint_def parse_size_value Let_def)
      then obtain err v where v: "fpx_handler_uint [a] = Some (err, v)" "\<forall>w. v = Some w \<longrightarrow> (\<exists>n. w = SInt n)" by blast
      have "\<exists>q. run_value E (fpx_handler_uint [a]) cmd m s = Some q"
        using v 5 by (intro st [OF v(1)]) (auto simp: store_core_def)
      with 5 a show ?thesis by (auto simp: core_run_def split: prod.splits)
    qed
  qed
qed

text \<open>
  C9 (fpx_config_types). The types of the configuration, for every file, every pool and every
  system. Whatever bytes a configuration file holds and however often memory runs out, each
  directive that reading it leaves behind, also after an error, is well formed: its words
  are not empty, hold no blanks, number signs, zero or non-ASCII bytes, and there are at most seven
  arguments. Checking and processing keep that, whatever they include. Of the commands of the core module
  other than \<open>include\<close>, run for a well-formed directive with an accepted number of arguments while memory lasts, none
  reads an argument that is not there or stores a value of the wrong type; the only one that gets
  stuck is \<open>listen\<close> for an address without a port, which passes on a port that was never assigned.
\<close>

theorem fpx_config_types:
  "(fpx_config_read S filename env = Some (err, c, env') \<longrightarrow> config_wf c) \<and>
   (config_wf c \<and> (fpx_config_process sv_modules (core_run E) c s = Some (err', c', s') \<or>
       fpx_config_check sv_modules (core_run E) c s = Some (err', c', s')) \<longrightarrow> config_wf c') \<and>
   (directive_wf d \<and> cmd \<in> set fpx_core_cmd \<and> cm_handler cmd \<noteq> H_include \<and> m_name m = bytes ''core'' \<and>
      fpx_check_directive_arguments (length (di_argv d)) cmd = FPX_OK \<and> memory_ok E s \<longrightarrow>
      (core_run E cmd m d c s = None \<longleftrightarrow> cm_handler cmd = H_listen \<and> portless E (hd (di_argv d))))"
proof (intro conjI impI)
  show "config_wf c" if "fpx_config_read S filename env = Some (err, c, env')" by (rule config_read_wf [OF that])
  show "config_wf c'" if "config_wf c \<and> (fpx_config_process sv_modules (core_run E) c s = Some (err', c', s') \<or>
      fpx_config_check sv_modules (core_run E) c s = Some (err', c', s'))"
    using that core.process_grows [of E c s err' c' s'] core.check_grows [of E c s err' c' s'] grows_wf [of c c'] by argo
qed (use core_run_progress [of cmd m d E s c] in argo)

text \<open>A \<open>log\<close> directive runs, and a \<open>listen\<close> directive without a port gets stuck.\<close>

theorem fpx_config_types_witness:
  "(\<exists>r. core_run (demo_senv mem_sys) \<lparr>cm_name = bytes ''log'', cm_takes = 12, cm_handler = H_log, cm_offset = F_none\<rparr> fpx_core_module
      \<lparr>di_name = bytes ''log'', di_argv = [bytes ''/l'', bytes ''info'', bytes ''1M''], di_filename = None, di_line = 1\<rparr>
      empty_config (demo_server ([], 0)) = Some r) \<and>
   core_run (demo_senv mem_sys) \<lparr>cm_name = bytes ''listen'', cm_takes = 2, cm_handler = H_listen, cm_offset = F_none\<rparr> fpx_core_module
      \<lparr>di_name = bytes ''listen'', di_argv = [bytes ''lo''], di_filename = None, di_line = 1\<rparr>
      empty_config (demo_server ([], 0)) = None \<and>
   config_wf user_config"
proof -
  let ?d = "\<lparr>di_name = bytes ''log'', di_argv = [bytes ''/l'', bytes ''info'', bytes ''1M''], di_filename = None, di_line = 1\<rparr>"
  let ?cmd = "\<lparr>cm_name = bytes ''log'', cm_takes = 12, cm_handler = H_log, cm_offset = F_none\<rparr>"
  let ?e = "\<lparr>di_name = bytes ''listen'', di_argv = [bytes ''lo''], di_filename = None, di_line = 1\<rparr>"
  let ?lis = "\<lparr>cm_name = bytes ''listen'', cm_takes = 2, cm_handler = H_listen, cm_offset = F_none\<rparr>"
  have "directive_wf ?d" "fpx_check_directive_arguments (length (di_argv ?d)) ?cmd = FPX_OK" "m_name fpx_core_module = bytes ''core''"
    "directive_wf ?e" "fpx_check_directive_arguments (length (di_argv ?e)) ?lis = FPX_OK" "config_wf user_config" by code_simp+
  moreover have "?cmd \<in> set fpx_core_cmd" "?lis \<in> set fpx_core_cmd" by (simp_all add: fpx_core_cmd_def)
  moreover have "fpx_config_parse_addr_port (\<lambda>_. True) (bytes ''lo'' @ [0]) =
      Some \<lparr>ap_rv = FPX_ADDR_IPV4, ap_addr = Some (bytes ''lo''), ap_port = None\<rparr>" by code_simp
  then have "portless (demo_senv mem_sys) (bytes ''lo'')"
    by (simp add: portless_def demo_senv_def FPX_ADDR_IPV4_def FPX_ADDR_INVALID_def)
  moreover have "memory_ok (demo_senv mem_sys) (demo_server ([], 0))"
    by (simp add: memory_ok_def demo_senv_def demo_server_def demo_logger_def ok_pool_def)
  moreover note fpx_config_types [THEN conjunct2, THEN conjunct2, of ?d ?cmd fpx_core_module "demo_senv mem_sys" "demo_server ([], 0)" empty_config]
    fpx_config_types [THEN conjunct2, THEN conjunct2, of ?e ?lis fpx_core_module "demo_senv mem_sys" "demo_server ([], 0)" empty_config]
  ultimately show ?thesis by simp
qed

section \<open>User and group\<close>

text \<open>
  What is assumed of the system: only a process with the user id of root may change to other
  ids, an attempt without the right fails with \<open>EPERM\<close>, and changing one id or the
  directory leaves the other ids alone.
\<close>

definition unix_ids :: "'os proc \<Rightarrow> ('os \<Rightarrow> int) \<Rightarrow> ('os \<Rightarrow> int) \<Rightarrow> bool" where
  "unix_ids P euid egid \<longleftrightarrow> (\<forall>os. p_geteuid P os = euid os \<and> p_getegid P os = egid os \<and>
     (\<forall>u. case p_setuid P u os of (r, os') \<Rightarrow> egid os' = egid os \<and> (euid os = 0 \<longrightarrow> r = 0 \<and> euid os' = u)) \<and>
     (\<forall>g. case p_setgid P g os of (r, os') \<Rightarrow> euid os' = euid os \<and>
        (if euid os = 0 then r = 0 \<and> egid os' = g
         else g \<noteq> egid os \<longrightarrow> r = -1 \<and> egid os' = egid os \<and> p_errno P os' = 1)) \<and>
     (\<forall>w. case p_chdir P w os of (r, os') \<Rightarrow> euid os' = euid os \<and> egid os' = egid os))"

lemma unix_idsD:
  assumes "unix_ids P euid egid"
  shows "p_geteuid P os = euid os" "p_getegid P os = egid os"
    and "p_setuid P u os = (r, os') \<Longrightarrow> egid os' = egid os \<and> (euid os = 0 \<longrightarrow> r = 0 \<and> euid os' = u)"
    and "p_setgid P g os = (r, os') \<Longrightarrow> euid os' = euid os \<and> (if euid os = 0 then r = 0 \<and> egid os' = g
         else g \<noteq> egid os \<longrightarrow> r = -1 \<and> egid os' = egid os \<and> p_errno P os' = 1)"
    and "p_chdir P w os = (r, os') \<Longrightarrow> euid os' = euid os \<and> egid os' = egid os"
proof -
  note a = assms [unfolded unix_ids_def, THEN spec, of os]
  show "p_geteuid P os = euid os" "p_getegid P os = egid os" using a by blast+
  show "egid os' = egid os \<and> (euid os = 0 \<longrightarrow> r = 0 \<and> euid os' = u)" if "p_setuid P u os = (r, os')"
    using a [THEN conjunct2, THEN conjunct2, THEN conjunct1, THEN spec, of u] that by simp
  show "euid os' = euid os \<and> (if euid os = 0 then r = 0 \<and> egid os' = g
         else g \<noteq> egid os \<longrightarrow> r = -1 \<and> egid os' = egid os \<and> p_errno P os' = 1)" if "p_setgid P g os = (r, os')"
    using a [THEN conjunct2, THEN conjunct2, THEN conjunct2, THEN conjunct1, THEN spec, of g] that by simp
  show "euid os' = euid os \<and> egid os' = egid os" if "p_chdir P w os = (r, os')"
    using a [THEN conjunct2, THEN conjunct2, THEN conjunct2, THEN conjunct2, THEN spec, of w] that by simp
qed

lemma set_user_root:
  assumes "unix_ids P euid egid" "euid os = 0" "p_getpwnam P u os = Some uid"
  shows "\<exists>os'. fpx_process_set_user P u os = (FPX_OK, os') \<and> euid os' = uid \<and> egid os' = egid os"
proof -
  obtain r os' where g: "p_setuid P uid os = (r, os')" by fastforce
  show ?thesis using assms(2,3) g unix_idsD(3) [OF assms(1) g] unix_idsD(1) [OF assms(1), of os]
    by (simp add: fpx_process_set_user_def)
qed

lemma set_group_root:
  assumes "unix_ids P euid egid" "egid os = 0" "p_getgrnam P g os = Some gid" "gid \<noteq> 0"
  shows "\<exists>os'. fpx_process_set_group P g os = (if euid os = 0 then FPX_OK else 1, os') \<and> euid os' = euid os \<and>
    egid os' = (if euid os = 0 then gid else 0)"
proof -
  obtain r os' where g: "p_setgid P gid os = (r, os')" by fastforce
  show ?thesis using assms(2-4) g unix_idsD(4) [OF assms(1) g] unix_idsD(2) [OF assms(1), of os]
    by (auto simp: fpx_process_set_group_def split: if_splits)
qed

lemma set_workdir_ids:
  assumes "unix_ids P euid egid" "\<forall>os. fst (p_chdir P w os) = 0"
  shows "\<exists>os'. fpx_process_set_workdir P w os = (FPX_OK, os') \<and> euid os' = euid os \<and> egid os' = egid os"
proof -
  obtain r os' where c: "p_chdir P w os = (r, os')" by fastforce
  moreover have "r = 0" using assms(2) [rule_format, of os] c by simp
  ultimately show ?thesis using unix_idsD(5) [OF assms(1) c] by (simp add: fpx_process_set_workdir_def)
qed

text \<open>
  C21 (fpx_core_identity_order). A server that is started by root and configured with a user
  other than root: when a group is configured too, the start fails, because the user
  id is given up before the group id is changed; and when no group is configured, the
  server runs with the group id of root. A group alone is set, and the server stays root.
\<close>

theorem fpx_core_identity_order:
  assumes ids: "unix_ids P euid egid" and root: "euid (sv_os s) = 0" "egid (sv_os s) = 0"
    and dir: "\<forall>os. fst (p_chdir P (sv_workdir s) os) = 0"
    and db: "\<forall>os. p_getpwnam P u os = Some uid" "\<forall>os. p_getgrnam P g os = Some gid" "uid \<noteq> 0" "gid \<noteq> 0"
  shows "(sv_user s = Some u \<and> sv_group s = Some g \<longrightarrow> fst (core_identity P s) = 1) \<and>
    (sv_user s = Some u \<and> sv_group s = None \<longrightarrow> (\<exists>s'. core_identity P s = (FPX_OK, s') \<and>
       euid (sv_os s') = uid \<and> egid (sv_os s') = 0)) \<and>
    (sv_user s = None \<and> sv_group s = Some g \<longrightarrow> (\<exists>s'. core_identity P s = (FPX_OK, s') \<and>
       euid (sv_os s') = 0 \<and> egid (sv_os s') = gid))"
proof -
  obtain os1 where w: "fpx_process_set_workdir P (sv_workdir s) (sv_os s) = (FPX_OK, os1)" "euid os1 = 0" "egid os1 = 0"
    using set_workdir_ids [OF ids dir, of "sv_os s"] root by auto
  obtain os2 where us: "fpx_process_set_user P u os1 = (FPX_OK, os2)" "euid os2 = uid" "egid os2 = 0"
    using set_user_root [OF ids w(2) db(1) [rule_format]] w(3) by auto
  obtain os3 where g3: "fpx_process_set_group P g os2 = (1, os3)"
    using set_group_root [OF ids us(3) db(2) [rule_format] db(4)] us(2) db(3) by auto
  obtain os4 where g4: "fpx_process_set_group P g os1 = (FPX_OK, os4)" "euid os4 = 0" "egid os4 = gid"
    using set_group_root [OF ids w(3) db(2) [rule_format] db(4)] w(2) by auto
  show ?thesis using w us g3 g4 by (auto simp: core_identity_def FPX_OK_def)
qed

definition demo_proc :: "(int \<times> int) proc" where
  "demo_proc = \<lparr>p_errno = (\<lambda>_. 1), p_fork = (\<lambda>os. (0, os)), p_setsid = (\<lambda>os. (1, os)), p_detach = (\<lambda>os. os),
     p_chdir = (\<lambda>_ os. (0, os)), p_geteuid = fst, p_getegid = snd, p_getpwnam = (\<lambda>_ _. Some 33),
     p_getgrnam = (\<lambda>_ _. Some 34), p_setuid = (\<lambda>u (eu, eg). if eu = 0 then (0, (u, eg)) else (-1, (eu, eg))),
     p_setgid = (\<lambda>g (eu, eg). if eu = 0 then (0, (eu, g)) else (-1, (eu, eg)))\<rparr>"

theorem fpx_core_identity_order_witness:
  "fst (core_identity demo_proc ((demo_server (0, 0))\<lparr>sv_user := Some (bytes ''www''), sv_group := Some (bytes ''www'')\<rparr>)) = 1"
proof -
  have "unix_ids demo_proc fst snd" by (auto simp: unix_ids_def demo_proc_def)
  moreover have "\<forall>os. p_getpwnam demo_proc (bytes ''www'') os = Some 33" "\<forall>os. p_getgrnam demo_proc (bytes ''www'') os = Some 34"
    "\<forall>w os. fst (p_chdir demo_proc w os) = 0" by (simp_all add: demo_proc_def)
  ultimately show ?thesis
    using fpx_core_identity_order [of demo_proc fst snd
        "(demo_server (0, 0))\<lparr>sv_user := Some (bytes ''www''), sv_group := Some (bytes ''www'')\<rparr>" "bytes ''www''" 33 "bytes ''www''" 34]
    by (simp add: demo_server_def)
qed

end
