(* ===== verification/Fpx_Main.thy ===== *)
theory Fpx_Main
  imports Fpx_Server
begin

text \<open>
  The program \<open>src/core/main.c\<close>: the command line and the sequence of steps from the options to
  the event loop, which \<open>src/core/cycle.c\<close> leaves as an endless loop.
\<close>

section \<open>The command line\<close>

record opts =
  show_version :: bool
  show_help :: bool
  test_config :: bool
  config_fname :: "byte list"

definition FPX_DEFAULT_CONFIG_PATH :: "byte list" where
  "FPX_DEFAULT_CONFIG_PATH = bytes ''/etc/fpx/floppix.conf''"

definition default_opts :: opts where
  "default_opts = \<lparr>show_version = False, show_help = False, test_config = False,
     config_fname = FPX_DEFAULT_CONFIG_PATH\<rparr>"

text \<open>
  The inner loop over one word: \<open>p\<close> is the rest of the word, \<open>i\<close> the index that an option
  with an argument advances. On the left side stand the options at a failure.
\<close>

fun opt_loop :: "byte list list \<Rightarrow> nat \<Rightarrow> byte list \<Rightarrow> opts \<Rightarrow> opts + nat \<times> opts" where
  "opt_loop argv i [] opts = Inr (i, opts)"
| "opt_loop argv i (ch # p) opts =
     (if ch = 0x76 then opt_loop argv i p (opts\<lparr>show_version := True\<rparr>)
      else if ch = 0x68 then opt_loop argv i p (opts\<lparr>show_help := True\<rparr>)
      else if ch = 0x74 then opt_loop argv i p (opts\<lparr>test_config := True\<rparr>)
      else if ch = 0x63 then
        (case arg argv (Suc i) of
           Some f \<Rightarrow> opt_loop argv (Suc i) p (opts\<lparr>config_fname := f\<rparr>)
         | None \<Rightarrow> Inl opts)
      else if ch = 0x2D then
        if p = bytes ''version'' then Inr (i, opts\<lparr>show_version := True\<rparr>)
        else if p = bytes ''help'' then Inr (i, opts\<lparr>show_help := True\<rparr>)
        else if p = bytes ''test-config'' then Inr (i, opts\<lparr>test_config := True\<rparr>)
        else if p = bytes ''config-file'' then
          (case arg argv (Suc i) of
             Some f \<Rightarrow> Inr (Suc i, opts\<lparr>config_fname := f\<rparr>)
           | None \<Rightarrow> Inl opts)
        else Inl opts
      else Inl opts)"

lemma opt_loop_mono: "opt_loop argv i p opts = Inr (i', opts') \<Longrightarrow> i \<le> i'"
  by (induction argv i p opts rule: opt_loop.induct) (auto split: if_splits option.splits)

function argv_loop :: "byte list list \<Rightarrow> nat \<Rightarrow> opts \<Rightarrow> fpx_err_t \<times> opts" where
  "argv_loop argv i opts =
     (if i < length argv then
        (case argv ! i of
           c # ch # p \<Rightarrow>
             if c \<noteq> 0x2D then (FPX_FAILED, opts)
             else
               (case opt_loop argv i (ch # p) opts of
                  Inl opts \<Rightarrow> (FPX_FAILED, opts)
                | Inr (i, opts) \<Rightarrow> argv_loop argv (Suc i) opts)
         | _ \<Rightarrow> (FPX_FAILED, opts))
      else (FPX_OK, opts))"
  by pat_completeness auto

termination
  by (relation "measure (\<lambda>(argv, i, opts). length argv - i)") (auto simp del: opt_loop.simps dest!: opt_loop_mono)

declare argv_loop.simps [simp del]

definition fpx_parse_argv :: "byte list list \<Rightarrow> fpx_err_t \<times> opts" where
  "fpx_parse_argv argv = argv_loop argv 1 default_opts"

section \<open>What the command line accepts\<close>

datatype opt_item = Version | Help | Test_config | Config_file "byte list"

type_synonym opt_group = "opt_item list \<times> opt_item option"

fun letter :: "opt_item \<Rightarrow> byte" where
  "letter Version = 0x76" | "letter Help = 0x68" | "letter Test_config = 0x74" | "letter (Config_file f) = 0x63"

fun long_name :: "opt_item \<Rightarrow> byte list" where
  "long_name Version = bytes ''version''" | "long_name Help = bytes ''help''"
| "long_name Test_config = bytes ''test-config''" | "long_name (Config_file f) = bytes ''config-file''"

fun item_args :: "opt_item \<Rightarrow> byte list list" where
  "item_args (Config_file f) = [f]" | "item_args it = []"

fun apply_item :: "opt_item \<Rightarrow> opts \<Rightarrow> opts" where
  "apply_item Version opts = opts\<lparr>show_version := True\<rparr>"
| "apply_item Help opts = opts\<lparr>show_help := True\<rparr>"
| "apply_item Test_config opts = opts\<lparr>test_config := True\<rparr>"
| "apply_item (Config_file f) opts = opts\<lparr>config_fname := f\<rparr>"

text \<open>A word holds short options, and at its end perhaps a long one; their arguments follow.\<close>

definition items_of :: "opt_group \<Rightarrow> opt_item list" where
  "items_of g = fst g @ (case snd g of None \<Rightarrow> [] | Some it \<Rightarrow> [it])"

definition word_of :: "opt_group \<Rightarrow> byte list" where
  "word_of g = map letter (fst g) @ (case snd g of None \<Rightarrow> [] | Some it \<Rightarrow> 0x2D # long_name it)"

definition args_of :: "opt_item list \<Rightarrow> byte list list" where
  "args_of its = concat (map item_args its)"

definition render :: "opt_group \<Rightarrow> byte list list" where
  "render g = (0x2D # word_of g) # args_of (items_of g)"

lemma group_simps [simp]:
  "items_of (it # its, l) = it # items_of (its, l)" "word_of (it # its, l) = letter it # word_of (its, l)"
  "items_of ([], None) = []" "items_of ([], Some it) = [it]" "word_of ([], None) = []"
  "word_of ([], Some it) = 0x2D # long_name it" "args_of [] = []" "args_of (it # its) = item_args it @ args_of its"
  by (simp_all add: items_of_def word_of_def args_of_def)

lemma drop_Suc_cons: "drop (Suc i) argv = f # r \<longleftrightarrow> arg argv (Suc i) = Some f \<and> drop (Suc (Suc i)) argv = r"
  by (cases "Suc i < length argv") (auto simp: arg_def Cons_nth_drop_Suc [symmetric])

lemma opt_loop_render:
  assumes "p = word_of g" "drop (Suc i) argv = args_of (items_of g) @ r"
  shows "opt_loop argv i p opts = Inr (i + length (args_of (items_of g)), fold apply_item (items_of g) opts)"
  using assms
proof (induction "fst g" arbitrary: g p i opts)
  case Nil
  then obtain l where g: "g = ([], l)" by (cases g) auto
  show ?case
  proof (cases l)
    case (Some it)
    then show ?thesis using Nil g drop_Suc_cons [of i argv] by (cases it) (auto simp: bytes_def)
  qed (use Nil g in simp)
next
  case (Cons it its)
  then obtain l where g: "g = (it # its, l)" by (cases g) auto
  show ?case
    using Cons.prems Cons.hyps(1) [of "(its, l)", OF _ refl] g drop_Suc_cons [of i argv] by (cases it) auto
qed

text \<open>What is read of one word: \<open>g\<close> renders it, and its arguments lie behind it.\<close>

definition reads :: "byte list list \<Rightarrow> nat \<Rightarrow> byte list \<Rightarrow> opts \<Rightarrow> nat \<Rightarrow> opts \<Rightarrow> bool" where
  "reads argv i p opts i' opts' \<longleftrightarrow> (\<exists>g r. p = word_of g \<and> drop (Suc i) argv = args_of (items_of g) @ r \<and>
     i' = i + length (args_of (items_of g)) \<and> opts' = fold apply_item (items_of g) opts)"

lemma reads_short:
  assumes "reads argv j p (apply_item it opts) i' opts'" "ch = letter it"
    and "drop (Suc i) argv = item_args it @ drop (Suc j) argv" "j = i + length (item_args it)"
  shows "reads argv i (ch # p) opts i' opts'"
proof -
  from assms(1) obtain g r where g: "p = word_of g" "drop (Suc j) argv = args_of (items_of g) @ r"
    "i' = j + length (args_of (items_of g))" "opts' = fold apply_item (items_of g) (apply_item it opts)"
    unfolding reads_def by blast
  then show ?thesis
    unfolding reads_def using assms(2-4) by (intro exI [of _ "(it # fst g, snd g)"] exI [of _ r]) auto
qed

lemma reads_long:
  assumes "p = long_name it" "drop (Suc i) argv = item_args it @ r" "i' = i + length (item_args it)"
  shows "reads argv i (0x2D # p) opts i' (apply_item it opts)"
  unfolding reads_def using assms by (intro exI [of _ "([], Some it)"] exI [of _ r]) auto

lemma arg_drop: "arg argv (Suc i) = Some f \<Longrightarrow> drop (Suc i) argv = [f] @ drop (Suc (Suc i)) argv"
  using drop_Suc_cons [of i argv f] by simp

lemma ex_item: "(\<exists>it. P it) \<longleftrightarrow> P Version \<or> P Help \<or> P Test_config \<or> (\<exists>f. P (Config_file f))"
  by (metis opt_item.exhaust)

lemma opt_loop_reads: "opt_loop argv i p opts = Inr (i', opts') \<Longrightarrow> reads argv i p opts i' opts'"
proof (induction argv i p opts rule: opt_loop.induct)
  case (1 argv i opts)
  then show ?case unfolding reads_def by (intro exI [of _ "([], None)"] exI [of _ "drop (Suc i) argv"]) simp
next
  case (2 argv i ch p opts)
  note short = reads_short [where argv = argv and i = i] and long = reads_long [where argv = argv and i = i]
  consider "ch = 0x76" | "ch = 0x68" | "ch = 0x74" | "ch = 0x63" | "ch = 0x2D" "ch \<notin> {0x76, 0x68, 0x74, 0x63}"
    using 2(5) by (fastforce split: if_splits)
  then show ?case
  proof cases
    case 4
    then obtain f where f: "arg argv (Suc i) = Some f"
      "opt_loop argv (Suc i) p (opts\<lparr>config_fname := f\<rparr>) = Inr (i', opts')"
      using 2(5) by (auto split: option.splits)
    then have "reads argv (Suc i) p (opts\<lparr>config_fname := f\<rparr>) i' opts'" using 2(4) 4 by simp
    then show ?thesis using arg_drop [OF f(1)] 4 by (intro short [where it = "Config_file f" and j = "Suc i"]) auto
  next
    case 5
    then have "\<exists>it r. p = long_name it \<and> drop (Suc i) argv = item_args it @ r \<and> i' = i + length (item_args it) \<and>
        opts' = apply_item it opts"
      using 2(5) by (auto simp: ex_item arg_drop split: if_splits option.splits)
    then show ?thesis using 5 long by auto
  qed (use 2 short [where it = Version and j = i] short [where it = Help and j = i] short [where it = Test_config and j = i] in auto)
qed

lemma opt_loop_iff: "opt_loop argv i p opts = Inr (i', opts') \<longleftrightarrow> reads argv i p opts i' opts'"
  using opt_loop_reads opt_loop_render unfolding reads_def by fastforce

definition group_ok :: "opt_group \<Rightarrow> bool" where
  "group_ok g \<longleftrightarrow> items_of g \<noteq> []"

lemma group_ok_word: "group_ok g \<longleftrightarrow> word_of g \<noteq> []"
  by (auto simp: group_ok_def items_of_def word_of_def split: option.splits)

lemma argv_loop_accepts:
  "argv_loop argv i opts = (FPX_OK, opts') \<Longrightarrow>
   \<exists>gs. list_all group_ok gs \<and> drop i argv = concat (map render gs) \<and>
     opts' = fold apply_item (concat (map items_of gs)) opts"
proof (induction argv i opts rule: argv_loop.induct)
  case (1 argv i opts)
  show ?case
  proof (cases "i < length argv")
    case True
    with 1(2) obtain ch p j opts1 where w: "argv ! i = 0x2D # ch # p" "opt_loop argv i (ch # p) opts = Inr (j, opts1)"
      and rest: "argv_loop argv (Suc j) opts1 = (FPX_OK, opts')"
      by (subst (asm) argv_loop.simps) (auto simp: FPX_OK_def FPX_FAILED_def simp del: opt_loop.simps
          split: list.splits sum.splits if_splits)
    obtain g r where g: "ch # p = word_of g" "drop (Suc i) argv = args_of (items_of g) @ r"
      "j = i + length (args_of (items_of g))" "opts1 = fold apply_item (items_of g) opts"
      using w(2) unfolding opt_loop_iff reads_def by blast
    obtain gs where gs: "list_all group_ok gs" "drop (Suc j) argv = concat (map render gs)"
      "opts' = fold apply_item (concat (map items_of gs)) opts1"
      using 1(1) [OF True w(1) refl _ w(2) refl rest] by auto
    have "drop (Suc j) argv = drop (length (args_of (items_of g))) (drop (Suc i) argv)"
      using g(3) by (simp add: add.commute)
    then have "r = concat (map render gs)" using g(2) gs(2) by simp
    moreover have "drop i argv = argv ! i # drop (Suc i) argv" using True by (simp add: Cons_nth_drop_Suc)
    ultimately show ?thesis
      using g gs w(1) by (intro exI [of _ "g # gs"]) (auto simp: group_ok_word [of g] render_def [of g])
  qed (use 1(2) in \<open>auto simp: argv_loop.simps intro!: exI [of _ "[]"]\<close>)
qed

lemma argv_loop_render:
  "list_all group_ok gs \<Longrightarrow> drop i argv = concat (map render gs) \<Longrightarrow>
   argv_loop argv i opts = (FPX_OK, fold apply_item (concat (map items_of gs)) opts)"
proof (induction gs arbitrary: i opts)
  case Nil
  then show ?case by (subst argv_loop.simps) simp
next
  case (Cons g gs)
  let ?n = "length (args_of (items_of g))"
  have d: "drop i argv = (0x2D # word_of g) # args_of (items_of g) @ concat (map render gs)"
    using Cons.prems(2) by (simp add: render_def [of g])
  then have i: "i < length argv" by (cases "i < length argv") auto
  then have w: "argv ! i = 0x2D # word_of g" "drop (Suc i) argv = args_of (items_of g) @ concat (map render gs)"
    using d by (simp_all add: Cons_nth_drop_Suc [symmetric])
  have "drop (Suc (i + ?n)) argv = concat (map render gs)"
    using arg_cong [OF w(2), of "drop ?n"] by (simp add: add.commute)
  then have "argv_loop argv (Suc (i + ?n)) (fold apply_item (items_of g) opts) =
      (FPX_OK, fold apply_item (concat (map items_of gs)) (fold apply_item (items_of g) opts))"
    using Cons.IH Cons.prems(1) by simp
  moreover obtain ch p where "word_of g = ch # p" using Cons.prems(1) by (cases "word_of g") (auto simp: group_ok_word)
  ultimately show ?case
    using i w opt_loop_render [OF refl w(2), of opts] by (subst argv_loop.simps) (simp del: opt_loop.simps)
qed

text \<open>
  C16 (fpx_parse_argv_accepts). The command lines that are accepted, and what they mean: words
  of one or more options, each word a dash with short options and at its end perhaps a
  second dash with a long option, each followed by the arguments of its \<open>-c\<close> and
  \<open>--config-file\<close> options in their order. Every option takes effect in order, so that the
  last configuration file counts. The word \<open>--test\<close> that the help text offers is not among them.
\<close>

theorem fpx_parse_argv_accepts:
  "(fpx_parse_argv (prog # args) = (FPX_OK, opts) \<longleftrightarrow>
     (\<exists>gs. list_all group_ok gs \<and> args = concat (map render gs) \<and>
       opts = fold apply_item (concat (map items_of gs)) default_opts)) \<and>
   fst (fpx_parse_argv [prog, bytes ''--test'']) = FPX_FAILED"
proof -
  have "fst (argv_loop [prog, bytes ''--test''] 1 default_opts) = FPX_FAILED"
    by (subst argv_loop.simps) (simp add: bytes_def)
  then show ?thesis
    using argv_loop_accepts [of "prog # args" 1 default_opts opts] argv_loop_render [of _ 1 "prog # args" default_opts]
    by (auto simp: fpx_parse_argv_def)
qed

section \<open>The main function\<close>

text \<open>
  What becomes of the program: it goes on, enters the endless \<open>fpx_server_cycle\<close>, returns from
  \<open>main\<close> or exits with a status, fails an assertion, or never gets further (a loop that does not
  end, or behaviour that C leaves undefined).
\<close>

datatype 's fate = Goes_on 's | Cycles 's | Exits int | Aborts | Stuck

text \<open>
  The hooks of the modules, with those of the core module. \<open>T\<close> is the thread library, \<open>lpool\<close>
  and \<open>messages\<close> are the pool and the block that the logger gets, \<open>tid\<close> is the address of its
  thread's number; the context of the core module is the server, at the address \<open>server_ptr\<close>. Once the
  program has ended, a hook changes nothing.
\<close>

definition server_ptr :: addr where "server_ptr = 0x2000"

definition core_preinit_hook :: "'os pth \<Rightarrow> penv option \<Rightarrow> addr \<Rightarrow> 'os server \<Rightarrow> addr \<times> 'os server fate" where
  "core_preinit_hook T lpool messages s =
     (case fpx_core_preinit T lpool messages s of
        None \<Rightarrow> (NULL, Stuck)
      | Some None \<Rightarrow> (NULL, Aborts)
      | Some (Some s) \<Rightarrow> (server_ptr, Goes_on s))"

definition core_init_hook :: "'os net \<Rightarrow> 'os proc \<Rightarrow> 'os pth \<Rightarrow> addr \<Rightarrow> addr \<Rightarrow> 'os server \<Rightarrow>
    fpx_err_t \<times> 'os server fate" where
  "core_init_hook N P T tid data s =
     (if data \<noteq> server_ptr then (FPX_FAILED, Aborts)
      else case fpx_core_init N P T tid s of
        None \<Rightarrow> (FPX_FAILED, Stuck)
      | Some (None, s) \<Rightarrow> (FPX_FAILED, Exits 0)
      | Some (Some err, s) \<Rightarrow> (err, Goes_on s))"

text \<open>What \<open>main\<close> is run in: besides the handlers' surroundings what the hooks of the core module need.\<close>

record 'os menv =
  me_senv :: "'os senv"
  me_net :: "'os net"
  me_proc :: "'os proc"
  me_pth :: "'os pth"
  me_lpool :: "penv option"
  me_messages :: addr
  me_tid :: addr
  me_pools :: "penv option"

definition menv_hooks :: "'os menv \<Rightarrow> 'os server fate hooks" where
  "menv_hooks M = \<lparr>
     hk_preinit = (\<lambda>f st. case st of
         Goes_on s \<Rightarrow> if f = fpx_core_preinit_ptr then core_preinit_hook (me_pth M) (me_lpool M) (me_messages M) s
                    else map_prod id Goes_on (hk_preinit (se_hooks (me_senv M)) f s)
       | _ \<Rightarrow> (NULL, st)),
     hk_init = (\<lambda>f data st. case st of
         Goes_on s \<Rightarrow> if f = fpx_core_init_ptr then core_init_hook (me_net M) (me_proc M) (me_pth M) (me_tid M) data s
                    else map_prod id Goes_on (hk_init (se_hooks (me_senv M)) f data s)
       | _ \<Rightarrow> (FPX_FAILED, st)),
     hk_fini = (\<lambda>f data st. case st of Goes_on s \<Rightarrow> Goes_on (hk_fini (se_hooks (me_senv M)) f data s) | _ \<Rightarrow> st)\<rparr>"

text \<open>The server as \<open>fpx_pcalloc\<close> and \<open>fpx_list_init\<close> leave it; there is no logger yet.\<close>

definition new_server :: "logger \<Rightarrow> penv \<Rightarrow> fd list \<Rightarrow> 'os \<Rightarrow> 'os server" where
  "new_server nil pool closes os = \<lparr>sv_pool = pool, sv_closes = closes, sv_os = os, sv_trace = [], sv_ttrace = [], sv_logger = nil,
     sv_modules = [], sv_listeners = [], sv_errno = 0, sv_daemon = False, sv_priority = 0,
     sv_workdir = [], sv_user = None, sv_group = None\<rparr>"

text \<open>The event loop is an empty loop, \<open>core/cycle.c\<close>: a server that gets there stays there.\<close>

partial_function (option) fpx_server_cycle :: "'os server \<Rightarrow> 'os server option" where
  "fpx_server_cycle s = fpx_server_cycle s"

lemma fpx_server_cycle_stays: "fpx_server_cycle s = None"
proof -
  have "fpx_server_cycle s = Some s' \<Longrightarrow> False" for s'
    by (rule fpx_server_cycle.raw_induct [of "\<lambda>_ _. False"])
  then show ?thesis by (cases "fpx_server_cycle s") auto
qed

text \<open>
  From the processed configuration to the cycle: all modules are initialised. A failed hook
  gives status 1, unless the program has ended inside it. Giving back the logger and the
  pools (theories \<open>Fpx_Sync\<close> and \<open>Fpx_Pool\<close>) at the end of a test run and before the cycle, and
  setting the global logger, change nothing that is observed here and are left out.
\<close>

definition main_init :: "'os menv \<Rightarrow> 'os server \<Rightarrow> 'os server fate" where
  "main_init M s =
     (case fpx_init_modules (menv_hooks M) (sv_modules s) (Goes_on s) of
        None \<Rightarrow> Stuck
      | Some (err, modules, st) \<Rightarrow>
          (case st of
             Goes_on s \<Rightarrow> if err \<noteq> FPX_OK then Exits 1 else Cycles (s\<lparr>sv_modules := modules\<rparr>)
           | _ \<Rightarrow> st))"

definition main_configured :: "'os menv \<Rightarrow> opts \<Rightarrow> config \<Rightarrow> 'os server \<Rightarrow> 'os server fate" where
  "main_configured M opts config s =
     (if test_config opts then
        (case fpx_config_check sv_modules (core_run (me_senv M)) config s of
           None \<Rightarrow> Stuck
         | Some _ \<Rightarrow> Exits 0)
      else
        case fpx_config_process sv_modules (core_run (me_senv M)) config s of
          None \<Rightarrow> Stuck
        | Some (err, config, s) \<Rightarrow> if err \<noteq> FPX_OK then Exits 1 else main_init M s)"

definition main_modules :: "'os menv \<Rightarrow> opts \<Rightarrow> config \<Rightarrow> 'os server \<Rightarrow> 'os server fate" where
  "main_modules M opts config s =
     (case fpx_setup_prelinked_modules (sv_modules s) [fpx_core_module] of (err, modules) \<Rightarrow>
        if err \<noteq> FPX_OK then Exits 1
        else
          case fpx_preinit_modules (menv_hooks M) modules (Goes_on (s\<lparr>sv_modules := modules\<rparr>)) of (err, modules, st) \<Rightarrow>
            (case st of
               Goes_on s \<Rightarrow>
                 if err \<noteq> FPX_OK then Exits 1
                 else main_configured M opts config (s\<lparr>sv_modules := modules\<rparr>)
             | _ \<Rightarrow> st))"

definition fpx_main :: "'os menv \<Rightarrow> logger \<Rightarrow> byte list list \<Rightarrow> 'os \<Rightarrow> 'os server fate" where
  "fpx_main M nil argv os =
     (case fpx_parse_argv argv of (err, opts) \<Rightarrow>
        if err \<noteq> FPX_OK then Exits 1
        else if show_version opts then Exits 0
        else if show_help opts then Exits 0
        else
          case me_pools M of
            None \<Rightarrow> Aborts
          | Some pool \<Rightarrow>
              (let (ok, pool) = palloc pool in
               if \<not> ok then Aborts
               else
                 let (ok, pool) = palloc pool in
                 if \<not> ok then Aborts
                 else
                   case fpx_config_read (se_sys (me_senv M)) (config_fname opts)
                          \<lparr>re_pool = pool, re_closes = [], re_os = os\<rparr> of
                     None \<Rightarrow> Stuck
                   | Some (err, config, env) \<Rightarrow>
                       if err \<noteq> FPX_OK then Exits 1
                       else main_modules M opts config (new_server nil (re_pool env) (re_closes env) (re_os env))))"

section \<open>Reaching the cycle\<close>

text \<open>The handlers of other modules store what they configure, and do not touch the list of modules.\<close>

definition others_keep :: "'os senv \<Rightarrow> bool" where
  "others_keep E \<longleftrightarrow>
     (\<forall>n cmd m d s err s'. se_other E n cmd m d s = Some (err, s') \<longrightarrow> sv_modules s' = sv_modules s) \<and>
     (\<forall>m f v s s'. se_store E m f v s = Some s' \<longrightarrow> sv_modules s' = sv_modules s)"

text \<open>The core module as preparation leaves it stands first in the list.\<close>

definition core_ready :: module where
  "core_ready = fpx_core_module\<lparr>m_cntx := server_ptr, m_preinited := True\<rparr>"

definition core_first :: "'os server \<Rightarrow> bool" where
  "core_first s \<longleftrightarrow> (\<exists>ms. sv_modules s = core_ready # ms)"

lemma core_ready_simps [simp]:
  "m_preinited core_ready" "\<not> m_inited core_ready" "m_init core_ready = fpx_core_init_ptr"
  "m_cntx core_ready = server_ptr"
  by (simp_all add: core_ready_def fpx_core_module_def)

lemma core_firstI: "core_first s \<Longrightarrow> sv_modules s' = sv_modules s \<Longrightarrow> core_first s'"
  by (simp add: core_first_def)

lemma add_module_first: "fpx_add_module (c # ms) m = (err, ms') \<Longrightarrow> \<exists>r. ms' = c # r"
  by (auto simp: fpx_add_module_def split: if_splits)

lemma load_module_first:
  "fpx_load_module D (c # ms) f e = Some r \<Longrightarrow> \<exists>r'. ld_modules r = c # r'"
  by (auto simp: fpx_load_module_def Let_def split: Option.bind_splits if_splits option.splits prod.splits dest: add_module_first)

lemma import_first:
  assumes "fpx_handler_import E argv s = Some (err, s')" "core_first s"
  shows "core_first s'"
  using assms load_module_first [of "se_dl E" core_ready]
  by (fastforce simp: fpx_handler_import_def core_first_def Let_def fpx_preinit_modules_def
      split: Option.bind_splits option.splits prod.splits)

lemma listen_modules: "fpx_handler_listen E argv s = Some (err, s') \<Longrightarrow> sv_modules s' = sv_modules s"
  by (auto simp: fpx_handler_listen_def Let_def split: Option.bind_splits if_splits prod.splits)

lemma add_log_modules: "sv_modules (add_log_fd E l f s) = sv_modules s" "add_log_file E l n z s = Some s' \<Longrightarrow> sv_modules s' = sv_modules s"
  by (auto simp: add_log_fd_def add_log_file_def split: Option.bind_splits)

lemma log_modules: "fpx_handler_log E argv s = Some (err, s') \<Longrightarrow> sv_modules s' = sv_modules s"
  by (auto simp: fpx_handler_log_def Let_def add_log_modules split: Option.bind_splits if_splits)

lemma store_core_modules: "store_core f v s = Some s' \<Longrightarrow> sv_modules s' = sv_modules s"
  by (auto simp: store_core_def split: field.splits stored.splits)

lemma run_value_modules:
  assumes "others_keep E" "run_value E r cmd m s = Some (err, s')"
  shows "sv_modules s' = sv_modules s"
  using assms by (auto simp: run_value_def others_keep_def split: Option.bind_splits option.splits if_splits dest: store_core_modules)

lemma core_run_first:
  assumes "others_keep E" "core_run E cmd m d c s = Some (err, c', s')" "core_first s"
  shows "core_first s'"
proof -
  have "cm_handler cmd \<noteq> H_import \<Longrightarrow> sv_modules s' = sv_modules s"
    using assms(1,2) by (auto simp: core_run_def Let_def fpx_handler_include_def others_keep_def
        split: handler_id.splits Option.bind_splits
        dest: listen_modules log_modules run_value_modules [OF assms(1)])
  then show ?thesis
    using assms(2,3) by (cases "cm_handler cmd = H_import") (auto simp: core_run_def intro: core_firstI dest: import_first)
qed

lemma process_one_first:
  assumes "others_keep E" "process_one sv_modules (core_run E) d c s = Some (err, c', s')" "core_first s"
  shows "core_first s'"
  using assms by (auto simp: process_one_def split: option.splits if_splits dest: core_run_first)

lemma handled_first:
  assumes "handled (process_one sv_modules (core_run E)) i c s j c' s'" "others_keep E" "core_first s"
  shows "core_first s'"
  using assms by (induction rule: handled.induct) (auto dest: process_one_first)

lemma process_first:
  assumes "fpx_config_process sv_modules (core_run E) c s = Some (FPX_OK, c', s')" "others_keep E" "core_first s"
  shows "core_first s'"
  using assms handled_first [OF _ assms(2,3)]
  by (auto simp: fpx_config_process_def walk_iff walk_ends_def split: if_splits)

lemma main_init_cycles:
  assumes "main_init M s = Cycles s'" "core_first s"
  shows "sv_listeners s \<noteq> [] \<and> (\<exists>s2. fpx_core_init (me_net M) (me_proc M) (me_pth M) (me_tid M) s = Some (Some FPX_OK, s2))"
  using assms
  by (auto simp: main_init_def core_first_def fpx_init_modules_def menv_hooks_def core_init_hook_def
      fpx_core_init_def Let_def split: option.splits prod.splits fate.splits if_splits)

text \<open>The server after preparation: \<open>st\<close> is the state that creating the logger left.\<close>

definition ready :: "logger \<Rightarrow> 'os tst \<Rightarrow> 'os server \<Rightarrow> 'os server" where
  "ready logger st s = (set_tst st s)\<lparr>sv_logger := logger, sv_daemon := True, sv_workdir := bytes ''/'', sv_priority := 0,
     sv_user := None, sv_group := None, sv_modules := [core_ready]\<rparr>"

lemma main_modules_ready:
  assumes "sv_modules s = []"
  shows "main_modules M opts config s =
    (case fpx_logger_init (me_pth M) (me_lpool M) (me_messages M) (server_tst s) of
       None \<Rightarrow> Stuck
     | Some (err, None, st) \<Rightarrow> Aborts
     | Some (err, Some (logger, cl), st) \<Rightarrow> main_configured M opts config (ready logger st s))"
proof -
  have "\<not> m_preinited fpx_core_module" "m_preinit fpx_core_module = fpx_core_preinit_ptr" "fpx_core_preinit_ptr \<noteq> NULL"
    "server_ptr \<noteq> NULL" by (simp_all add: fpx_core_module_def fpx_core_preinit_ptr_def server_ptr_def)
  then show ?thesis
    using assms by (simp add: main_modules_def fpx_add_module_def fpx_preinit_modules_def menv_hooks_def
        core_preinit_hook_def fpx_core_preinit_def core_ready_def ready_def set_tst_def server_tst_def Let_def
        split: option.splits prod.splits)
qed

text \<open>A listener that has been bound, and the socket of which listens.\<close>

definition listening :: "'os net \<Rightarrow> listener \<Rightarrow> listener \<Rightarrow> bool" where
  "listening N l l' \<longleftrightarrow> (\<exists>st st' st''. fpx_listener_bind N l st = Some (FPX_OK, l', st') \<and>
     fpx_listener_open N l' st' = (FPX_OK, st''))"

lemma set_nst_back [simp]: "server_nst (set_nst st s) = st"
  by (simp add: server_nst_def set_nst_def)

lemma open_listeners_all:
  "open_listeners N done ls s = Some (FPX_OK, s') \<Longrightarrow> \<exists>ls'. sv_listeners s' = done @ ls' \<and> list_all2 (listening N) ls ls'"
proof (induction N "done" ls s rule: open_listeners.induct)
  case (1 N "done" s)
  then show ?case by auto
next
  case (2 N "done" l ls s)
  from 2(2) obtain l' st st' pool where b: "fpx_listener_bind N l (server_nst s) = Some (FPX_OK, l', st)"
    "fpx_listener_open N l' st = (FPX_OK, st')"
    "pcleanup (sv_pool (set_nst st' (set_nst st s))) = Some pool"
    "open_listeners N (done @ [l']) ls ((set_nst st' (set_nst st s))\<lparr>sv_pool := pool\<rparr>) = Some (FPX_OK, s')"
    by (fastforce simp: Let_def FPX_OK_def FPX_FAILED_def split: Option.bind_splits prod.splits if_splits)
  have "listening N l l'" using b(1,2) unfolding listening_def by blast
  moreover obtain ls' where "sv_listeners s' = (done @ [l']) @ ls'" "list_all2 (listening N) ls ls'"
    using 2(1) [OF b(1) refl refl refl _ _ refl _ b(3) b(4)] b(2) by auto
  ultimately show ?case by (intro exI [of _ "l' # ls'"]) simp
qed

lemma core_identity_listeners: "core_identity P s = (err, s') \<Longrightarrow> sv_listeners s' = sv_listeners s"
  by (auto simp: core_identity_def split: prod.splits if_splits)

lemma core_init_listening:
  assumes "fpx_core_init N P T tid s = Some (Some FPX_OK, s')"
  shows "sv_listeners s \<noteq> [] \<and> list_all2 (listening N) (sv_listeners s) (sv_listeners s')"
  using assms
  by (auto simp: fpx_core_init_def Let_def split: if_splits Option.bind_splits prod.splits
      dest!: open_listeners_all core_identity_listeners)

lemma core_init_started:
  assumes "fpx_core_init N P T tid s = Some (Some FPX_OK, s')"
  shows "lr_running (sv_logger s')"
  using assms
  by (auto simp: fpx_core_init_def fpx_logger_start_def Let_def FPX_OK_def FPX_FAILED_def split: if_splits Option.bind_splits prod.splits)

text \<open>
  C6 (fpx_main_cycles). When the program enters its event loop, then the command line was
  accepted and did not ask for a test, the configuration file it names was read without an error, the
  logger was created, all directives were processed without an error on a server with the default
  settings, the configuration gave at least one listener, and the initialisation of
  the core module succeeded, has bound and opened every listener and started the logger.
\<close>

theorem fpx_main_cycles:
  assumes "fpx_main M nil argv os = Cycles s'" "others_keep (me_senv M)"
  shows "\<exists>opts config config' pool env logger cl st s0 s1 s2.
    fpx_parse_argv argv = (FPX_OK, opts) \<and> \<not> show_version opts \<and> \<not> show_help opts \<and> \<not> test_config opts \<and>
    fpx_config_read (se_sys (me_senv M)) (config_fname opts) \<lparr>re_pool = pool, re_closes = [], re_os = os\<rparr> =
      Some (FPX_OK, config, env) \<and>
    s0 = new_server nil (re_pool env) (re_closes env) (re_os env) \<and>
    fpx_logger_init (me_pth M) (me_lpool M) (me_messages M) (server_tst s0) = Some (FPX_OK, Some (logger, cl), st) \<and>
    fpx_config_process sv_modules (core_run (me_senv M)) config (ready logger st s0) = Some (FPX_OK, config', s1) \<and>
    sv_listeners s1 \<noteq> [] \<and>
    fpx_core_init (me_net M) (me_proc M) (me_pth M) (me_tid M) s1 = Some (Some FPX_OK, s2) \<and>
    list_all2 (listening (me_net M)) (sv_listeners s1) (sv_listeners s2) \<and> lr_running (sv_logger s2)"
proof -
  obtain opts pool config env where r: "fpx_parse_argv argv = (FPX_OK, opts)" "\<not> show_version opts" "\<not> show_help opts"
    "fpx_config_read (se_sys (me_senv M)) (config_fname opts) \<lparr>re_pool = pool, re_closes = [], re_os = os\<rparr> =
      Some (FPX_OK, config, env)"
    "main_modules M opts config (new_server nil (re_pool env) (re_closes env) (re_os env)) = Cycles s'"
    using assms(1) by (auto simp: fpx_main_def Let_def split: prod.splits if_splits option.splits)
  define s0 where "s0 = new_server nil (re_pool env) (re_closes env) (re_os env)"
  have "sv_modules s0 = []" by (simp add: s0_def new_server_def)
  then obtain err logger cl st where
    l: "fpx_logger_init (me_pth M) (me_lpool M) (me_messages M) (server_tst s0) = Some (err, Some (logger, cl), st)"
    "main_configured M opts config (ready logger st s0) = Cycles s'"
    using r(5) main_modules_ready [of s0 M opts config] unfolding s0_def by (auto split: option.splits)
  have ok: "err = FPX_OK" by (rule logger_init_result [OF l(1)])
  obtain config' s1 where p: "\<not> test_config opts" "main_init M s1 = Cycles s'"
    "fpx_config_process sv_modules (core_run (me_senv M)) config (ready logger st s0) = Some (FPX_OK, config', s1)"
    using l(2) by (auto simp: main_configured_def split: if_splits option.splits)
  have "core_first s1" using process_first [OF p(3) assms(2)] by (simp add: core_first_def ready_def)
  then obtain s2 where s2: "fpx_core_init (me_net M) (me_proc M) (me_pth M) (me_tid M) s1 = Some (Some FPX_OK, s2)"
    using main_init_cycles [OF p(2)] by blast
  note core_init_listening [OF s2] core_init_started [OF s2]
  with r l(1) ok p s2 s0_def show ?thesis by blast
qed

definition demo_net :: "'os net" where
  "demo_net = \<lparr>n_errno = (\<lambda>_. 98), n_socket = (\<lambda>_ _ _ os. (3, os)), n_setsockopt = (\<lambda>_ _ os. (0, os)),
     n_getfl = (\<lambda>_ _. 2), n_setfl = (\<lambda>_ _ os. (0, os)), n_bind = (\<lambda>_ _ os. (0, os)), n_listen = (\<lambda>_ _ os. (0, os)),
     n_accept = (\<lambda>_ _ os. (-1, [], os)), n_connect = (\<lambda>_ _ os. (-1, os)), n_shutdown = (\<lambda>_ _ os. (0, os)),
     n_close = (\<lambda>_ os. os), n_getaddrinfo = (\<lambda>_ _ _ os. (0, [\<lparr>ai_family = 2, ai_socktype = 1, ai_protocol = 6, ai_addr = []\<rparr>], os)),
     n_getsockname = (\<lambda>_ os. (0, [], os))\<rparr>"

text \<open>A thread library in which every call succeeds.\<close>

definition quiet_pth :: "int pth" where
  "quiet_pth = \<lparr>t_errno = (\<lambda>_. 1), t_call = (\<lambda>_ os. (0, os))\<rparr>"

definition demo_menv :: "int menv" where
  "demo_menv = \<lparr>me_senv = demo_senv (one_file_sys 0x81A4 (bytes ''listen 10.0.0.1:80'' @ [10])), me_net = demo_net,
     me_proc = \<lparr>p_errno = (\<lambda>_. 1), p_fork = (\<lambda>os. (0, os)), p_setsid = (\<lambda>os. (1, os)), p_detach = (\<lambda>os. os),
       p_chdir = (\<lambda>_ os. (0, os)), p_geteuid = (\<lambda>_. 0), p_getegid = (\<lambda>_. 0), p_getpwnam = (\<lambda>_ _. None),
       p_getgrnam = (\<lambda>_ _. None), p_setuid = (\<lambda>_ os. (0, os)), p_setgid = (\<lambda>_ os. (0, os))\<rparr>,
     me_pth = quiet_pth, me_lpool = Some ok_pool, me_messages = 0x8000, me_tid = 0x9000, me_pools = Some ok_pool\<rparr>"

definition cycles :: "'s fate \<Rightarrow> bool" where
  "cycles st = (case st of Cycles s \<Rightarrow> True | _ \<Rightarrow> False)"

lemma demo_cycles: "cycles (fpx_main demo_menv demo_logger [bytes ''floppix''] 0)"
  by code_simp

theorem fpx_main_cycles_witness:
  "\<exists>config config' s s1 s2. fpx_config_process sv_modules (core_run (me_senv demo_menv)) config s = Some (FPX_OK, config', s1) \<and>
     sv_listeners s1 \<noteq> [] \<and> list_all2 (listening (me_net demo_menv)) (sv_listeners s1) (sv_listeners (s2 :: int server))"
proof -
  obtain s' where "fpx_main demo_menv demo_logger [bytes ''floppix''] 0 = Cycles s'"
    using demo_cycles by (auto simp: cycles_def split: fate.splits)
  moreover have "others_keep (me_senv demo_menv)" by (simp add: others_keep_def demo_menv_def demo_senv_def)
  ultimately show ?thesis using fpx_main_cycles [of demo_menv demo_logger "[bytes ''floppix'']" 0 s'] by blast
qed

text \<open>
  A run that only tests the configuration ends with status 0 for a file of an unknown directive
  too; without the option the same file gives status 1.
\<close>

definition exit_status :: "'s fate \<Rightarrow> int option" where
  "exit_status st = (case st of Exits n \<Rightarrow> Some n | _ \<Rightarrow> None)"

lemma fpx_main_test_status:
  "exit_status (fpx_main (demo_menv\<lparr>me_senv := demo_senv (one_file_sys 0x81A4 (bytes ''bogus'' @ [10]))\<rparr>) demo_logger
     [bytes ''floppix'', bytes ''-t''] 0) = Some 0"
  "exit_status (fpx_main (demo_menv\<lparr>me_senv := demo_senv (one_file_sys 0x81A4 (bytes ''bogus'' @ [10]))\<rparr>) demo_logger
     [bytes ''floppix''] 0) = Some 1"
  by code_simp+

section \<open>The daemon and its logger\<close>

text \<open>
  What is assumed of the system: \<open>alive\<close> gives the other threads of a process. The child of a
  \<open>fork\<close> has none, and neither \<open>setsid\<close> nor the calls that detach a daemon make one; a failed
  call sets \<open>errno\<close>.
\<close>

definition lone_fork :: "'os proc \<Rightarrow> ('os \<Rightarrow> addr set) \<Rightarrow> bool" where
  "lone_fork P alive \<longleftrightarrow> (\<forall>os.
     (case p_fork P os of (pid, os') \<Rightarrow> (pid = 0 \<longrightarrow> alive os' = {}) \<and> (pid < 0 \<longrightarrow> p_errno P os' \<noteq> 0)) \<and>
     (case p_setsid P os of (r, os') \<Rightarrow> alive os' \<subseteq> alive os \<and> (r < 0 \<longrightarrow> p_errno P os' \<noteq> 0)) \<and>
     alive (p_detach P os) \<subseteq> alive os)"

lemma become_daemon_alone:
  assumes "lone_fork P alive" "fpx_process_become_daemon P os = (Some FPX_OK, os')"
  shows "alive os' = {}"
proof -
  note a = assms(1) [unfolded lone_fork_def, rule_format]
  obtain pid1 os1 where 1: "p_fork P os = (pid1, os1)" by fastforce
  obtain r os2 where 2: "p_setsid P os1 = (r, os2)" by fastforce
  obtain pid3 os3 where 3: "p_fork P os2 = (pid3, os3)" by fastforce
  have "pid3 = 0" "os' = p_detach P os3"
    using assms(2) 1 2 3 a [of os] a [of os1] a [of os2]
    by (auto simp: fpx_process_become_daemon_def FPX_OK_def split: if_splits)
  then show ?thesis using a [of os2] a [of os3] 3 by auto
qed

lemma core_init_daemon:
  assumes "fpx_core_init N P T tid s = Some (Some FPX_OK, s')" "sv_daemon s'"
  shows "\<exists>os. fpx_process_become_daemon P os = (Some FPX_OK, sv_os s')"
  using assms
  by (auto simp: fpx_core_init_def Let_def FPX_OK_def FPX_FAILED_def split: if_splits Option.bind_splits prod.splits)

text \<open>In a process without a logging thread only the steps of the callers are left.\<close>

definition caller_step :: "lg \<Rightarrow> lg \<Rightarrow> bool" where
  "caller_step q q' \<longleftrightarrow> lg_step q q' \<and> lg_worker q' = lg_worker q \<and> lg_pc q' worker_tid = lg_pc q worker_tid"

lemma caller_step_out: "caller_step q q' \<Longrightarrow> lg_out q' = lg_out q \<and> lg_empty q' \<le> lg_empty q"
  unfolding caller_step_def by (auto elim: lg_stepE)

lemma caller_steps_out: "caller_step\<^sup>*\<^sup>* q q' \<Longrightarrow> lg_out q' = lg_out q \<and> lg_empty q' \<le> lg_empty q"
  by (induction rule: rtranclp_induct) (auto dest: caller_step_out)

lemma caller_steps_reach: "caller_step\<^sup>*\<^sup>* q q' \<Longrightarrow> lg_reach q \<Longrightarrow> lg_reach q'"
proof -
  have "caller_step\<^sup>*\<^sup>* q q' \<Longrightarrow> lg_step\<^sup>*\<^sup>* q q'"
    by (induction rule: rtranclp_induct) (auto simp: caller_step_def intro: rtranclp.rtrancl_into_rtrancl)
  then show "caller_step\<^sup>*\<^sup>* q q' \<Longrightarrow> lg_reach q \<Longrightarrow> lg_reach q'" unfolding lg_reach_def by (meson rtranclp_trans)
qed

lemma pending_bound: "lg_reach q \<Longrightarrow> length (lg_in q) \<le> length (lg_out q) + FPX_MAX_LOG_SLOTS"
proof -
  assume "lg_reach q"
  then have "lg_empty q + card (holders q) + length (lg_in q) + busy q = FPX_MAX_LOG_SLOTS + fetched q"
    using lg_reach_inv by (simp only: lg_inv_def)
  moreover have "fetched q \<le> length (lg_out q) + busy q" by (simp add: fetched_def busy_def split: wpc.splits)
  ultimately show ?thesis by linarith
qed

text \<open>A caller that finds no free slot waits for ever.\<close>

lemma caller_waits:
  assumes "caller_step\<^sup>*\<^sup>* q q'" "lg_empty q = 0" "lg_pc q p = PWant m"
  shows "lg_pc q' p = PWant m"
proof -
  have "lg_empty q' = 0 \<and> lg_pc q' p = PWant m"
    using assms
  proof (induction rule: rtranclp_induct)
    case (step y z)
    then show ?case unfolding caller_step_def by (auto simp: fun_upd_def elim!: lg_stepE)
  qed simp
  then show ?thesis ..
qed

text \<open>
  C10 (fpx_daemon_logs_nothing). A server that runs as a daemon, which is the default: when the
  initialisation of the core module succeeds, its logger counts as running, but the
  process that goes on has no thread besides its own, because the logging thread was started before the
  process forked. From whatever state the buffer was in at that moment, no message is handed
  to the logs any more, at most 32 are pending, and a caller that finds no slot free waits for ever.
\<close>

theorem fpx_daemon_logs_nothing:
  assumes "lone_fork P alive"
    and "fpx_core_init N P T tid s = Some (Some FPX_OK, s')" "sv_daemon s'"
    and "lg_reach q" "caller_step\<^sup>*\<^sup>* q q'"
  shows "lr_running (sv_logger s') \<and> alive (sv_os s') = {} \<and>
    lg_out q' = lg_out q \<and> length (lg_in q') \<le> length (lg_out q) + FPX_MAX_LOG_SLOTS \<and>
    (\<forall>q2 p m. lg_empty q' = 0 \<and> lg_pc q' p = PWant m \<and> caller_step\<^sup>*\<^sup>* q' q2 \<longrightarrow> lg_pc q2 p = PWant m)"
proof -
  obtain os where "fpx_process_become_daemon P os = (Some FPX_OK, sv_os s')" using core_init_daemon [OF assms(2,3)] by blast
  then have "alive (sv_os s') = {}" using become_daemon_alone [OF assms(1)] by blast
  moreover have "length (lg_in q') \<le> length (lg_out q) + FPX_MAX_LOG_SLOTS" "lg_out q' = lg_out q"
    using pending_bound [OF caller_steps_reach [OF assms(5,4)]] caller_steps_out [OF assms(5)] by simp_all
  ultimately show ?thesis using core_init_started [OF assms(2)] caller_waits by blast
qed

text \<open>An operating system that is the set of the other threads of the current process.\<close>

definition thread_pth :: "addr set pth" where
  "thread_pth = \<lparr>t_errno = (\<lambda>_. 1), t_call = (\<lambda>c os. (0, case c of Thread_create a \<Rightarrow> insert a os | _ \<Rightarrow> os))\<rparr>"

definition thread_proc :: "addr set proc" where
  "thread_proc = \<lparr>p_errno = (\<lambda>_. 1), p_fork = (\<lambda>_. (0, {})), p_setsid = (\<lambda>os. (1, os)), p_detach = (\<lambda>os. os),
     p_chdir = (\<lambda>_ os. (0, os)), p_geteuid = (\<lambda>_. 0), p_getegid = (\<lambda>_. 0), p_getpwnam = (\<lambda>_ _. None),
     p_getgrnam = (\<lambda>_ _. None), p_setuid = (\<lambda>_ os. (0, os)), p_setgid = (\<lambda>_ os. (0, os))\<rparr>"

definition one_listener :: "addr set server" where
  "one_listener = (demo_server {})\<lparr>sv_listeners := [snd (fpx_listener_init_ipv4 (Some (bytes ''10.0.0.1'')) (Some (bytes ''80'')))]\<rparr>"

lemma one_listener_init:
  "case fpx_core_init demo_net thread_proc thread_pth 0x9000 one_listener of
     Some (Some err, s') \<Rightarrow> err = FPX_OK \<and> sv_daemon s' \<and> Started 0x9000 \<in> set (sv_ttrace s')
   | _ \<Rightarrow> False"
  by code_simp

theorem fpx_daemon_logs_nothing_witness:
  "\<exists>s'. fpx_core_init demo_net thread_proc thread_pth 0x9000 one_listener = Some (Some FPX_OK, s') \<and>
     Started 0x9000 \<in> set (sv_ttrace s') \<and> lr_running (sv_logger s') \<and> sv_os s' = {}"
proof -
  obtain s' where s': "fpx_core_init demo_net thread_proc thread_pth 0x9000 one_listener = Some (Some FPX_OK, s')"
    "sv_daemon s'" "Started 0x9000 \<in> set (sv_ttrace s')"
    using one_listener_init by (auto split: option.splits)
  have "lone_fork thread_proc (\<lambda>os. os)" by (simp add: lone_fork_def thread_proc_def)
  from fpx_daemon_logs_nothing [OF this s'(1,2) lg_demo_reach rtranclp.rtrancl_refl] s' show ?thesis by blast
qed

end
