(* ===== verification/Fpx_Iter.thy ===== *)
theory Fpx_Iter
  imports Fpx_List
begin

text \<open>
  The loops over an intrusive list, the macros of \<open>include/floppix/algo/list.h\<close>, at pointer level:
  a loop reads the link of the current node after its body has run, on whatever the heap holds
  then. So a body may append nodes, as the handler of \<open>include\<close> does during the walk over the
  configuration, and it may unlink the current node; it must not free it, and the loop of
  \<open>fpx_list_cleanup\<close> is for that.
\<close>

section \<open>The macros\<close>

definition fpx_list_next :: "lheap \<Rightarrow> addr \<Rightarrow> addr option" where "fpx_list_next h node = get_next h node"
definition fpx_list_prev :: "lheap \<Rightarrow> addr \<Rightarrow> addr option" where "fpx_list_prev h node = get_prev h node"
definition fpx_list_size :: "fpx_list_t \<Rightarrow> size_t" where "fpx_list_size l = l_size l"
definition fpx_list_head :: "fpx_list_t \<Rightarrow> addr" where "fpx_list_head l = l_head l"
definition fpx_list_tail :: "fpx_list_t \<Rightarrow> addr" where "fpx_list_tail l = l_tail l"

text \<open>The struct around a node, whose member is at an offset in it.\<close>

definition fpx_container_of :: "addr \<Rightarrow> addr \<Rightarrow> addr" where
  "fpx_container_of ptr off = ptr - off"

definition fpx_list_data :: "addr \<Rightarrow> addr \<Rightarrow> addr" where
  "fpx_list_data ptr off = fpx_container_of ptr off"

text \<open>
  What a body does to the heap, the header and the rest of the state; \<^const>\<open>True\<close> in its result
  stands for leaving the loop with \<open>break\<close>, \<open>goto\<close> or \<open>return\<close>.
\<close>

type_synonym 's body = "addr \<Rightarrow> lheap \<Rightarrow> fpx_list_t \<Rightarrow> 's \<Rightarrow> (bool \<times> lheap \<times> fpx_list_t \<times> 's) option"

partial_function (option) foreach_from ::
  "(lheap \<Rightarrow> addr \<Rightarrow> addr option) \<Rightarrow> 's body \<Rightarrow> addr \<Rightarrow> lheap \<Rightarrow> fpx_list_t \<Rightarrow> 's \<Rightarrow> (lheap \<times> fpx_list_t \<times> 's) option" where
  "foreach_from link body pos h l s =
     (if pos \<noteq> NULL then
        Option.bind (body pos h l s) (\<lambda>(leave, h, l, s).
          if leave then Some (h, l, s)
          else Option.bind (link h pos) (\<lambda>pos. foreach_from link body pos h l s))
      else Some (h, l, s))"

definition fpx_list_foreach :: "'s body \<Rightarrow> lheap \<Rightarrow> fpx_list_t \<Rightarrow> 's \<Rightarrow> (lheap \<times> fpx_list_t \<times> 's) option" where
  "fpx_list_foreach body h l s = foreach_from fpx_list_next body (fpx_list_head l) h l s"

definition fpx_list_foreach_reverse :: "'s body \<Rightarrow> lheap \<Rightarrow> fpx_list_t \<Rightarrow> 's \<Rightarrow> (lheap \<times> fpx_list_t \<times> 's) option" where
  "fpx_list_foreach_reverse body h l s = foreach_from fpx_list_prev body (fpx_list_tail l) h l s"

text \<open>
  \<open>fpx_list_cleanup\<close>, for the list that is called \<open>list1\<close> where the macro is used, as the macro
  does not use its parameter. The callback gets the struct and may change the heap.
\<close>

partial_function (option) fpx_list_cleanup ::
  "addr \<Rightarrow> (addr \<Rightarrow> lheap \<Rightarrow> 's \<Rightarrow> (lheap \<times> 's) option) \<Rightarrow> lheap \<Rightarrow> fpx_list_t \<Rightarrow> 's \<Rightarrow> (lheap \<times> fpx_list_t \<times> 's) option" where
  "fpx_list_cleanup off callback h list1 s =
     (let pos = fpx_list_head list1 in
      if pos \<noteq> NULL then
        Option.bind (fpx_list_remove h list1 pos) (\<lambda>(h, list1).
          Option.bind (callback (fpx_list_data pos off) h s) (\<lambda>(h, s). fpx_list_cleanup off callback h list1 s))
      else Some (h, list1, s))"

section \<open>A body that leaves the list alone\<close>

definition pure_body :: "(addr \<Rightarrow> 's \<Rightarrow> bool \<times> 's) \<Rightarrow> 's body" where
  "pure_body f p h l s = (case f p s of (leave, s') \<Rightarrow> Some (leave, h, l, s'))"

fun visit :: "(addr \<Rightarrow> 's \<Rightarrow> bool \<times> 's) \<Rightarrow> addr list \<Rightarrow> 's \<Rightarrow> 's" where
  "visit f [] s = s"
| "visit f (x # xs) s = (case f x s of (leave, s') \<Rightarrow> if leave then s' else visit f xs s')"

lemma foreach_NULL [simp]: "foreach_from link body NULL h l s = Some (h, l, s)"
  by (simp add: foreach_from.simps)

lemma foreach_node:
  "p \<noteq> NULL \<Longrightarrow> foreach_from link body p h l s = Option.bind (body p h l s) (\<lambda>(leave, h, l, s).
     if leave then Some (h, l, s) else Option.bind (link h p) (\<lambda>pos. foreach_from link body pos h l s))"
  by (subst foreach_from.simps) simp

lemma foreach_pure:
  "fchain h xs \<Longrightarrow> NULL \<notin> set xs \<Longrightarrow>
   foreach_from fpx_list_next (pure_body f) (hd (xs @ [NULL])) h l s = Some (h, l, visit f xs s)"
  by (induction xs arbitrary: s) (auto simp: foreach_node pure_body_def fpx_list_next_def split: prod.splits)

lemma foreach_reverse_pure:
  "dlseg h NULL xs q \<Longrightarrow> NULL \<notin> set xs \<Longrightarrow>
   foreach_from fpx_list_prev (pure_body f) (last (NULL # xs)) h l s = Some (h, l, visit f (rev xs) s)"
proof (induction xs arbitrary: q s rule: rev_induct)
  case (snoc x xs)
  then have "get_prev h x = Some (last (NULL # xs))" by (simp add: get_prev_def)
  with snoc show ?case by (auto simp: foreach_node pure_body_def fpx_list_prev_def split: prod.splits)
qed simp

section \<open>A body that appends\<close>

text \<open>
  The body takes a number of fresh nodes from a supply and pushes them at the back. What the
  loop does then, on sequences: it works off a queue.
\<close>

definition grow_body :: "(addr \<Rightarrow> 's \<Rightarrow> bool \<times> nat \<times> 's) \<Rightarrow> (addr list \<times> 's) body" where
  "grow_body g p h l fs = (case g p (snd fs) of (leave, k, s') \<Rightarrow>
     map_option (\<lambda>(h, l). (leave, h, l, drop k (fst fs), s')) (dll.push_all h l (take k (fst fs))))"

function work_off :: "(addr \<Rightarrow> 's \<Rightarrow> bool \<times> nat \<times> 's) \<Rightarrow> addr list \<Rightarrow> addr list \<Rightarrow> 's \<Rightarrow> addr list \<times> 's" where
  "work_off g [] free s = (free, s)"
| "work_off g (x # todo) free s = (case g x s of (leave, k, s') \<Rightarrow>
     if leave then (drop k free, s') else work_off g (todo @ take k free) (drop k free) s')"
  by pat_completeness auto
termination by (relation "measure (\<lambda>(g, todo, free, s). length todo + length free)") auto

definition free_nodes :: "lheap \<Rightarrow> addr list \<Rightarrow> addr list \<Rightarrow> bool" where
  "free_nodes h xs free \<longleftrightarrow> distinct (xs @ free) \<and> (\<forall>p\<in>set free. deref h p \<noteq> None)"

lemma free_nodes_push:
  assumes "list_rep h l xs" "free_nodes h xs free"
  shows "\<exists>h' l'. dll.push_all h l (take k free) = Some (h', l') \<and> list_rep h' l' (xs @ take k free) \<and>
    free_nodes h' (xs @ take k free) (drop k free)"
proof -
  have "distinct (xs @ take k free)" "\<forall>p\<in>set (take k free). deref h p \<noteq> None"
    using assms(2) by (auto simp: free_nodes_def dest: in_set_takeD)
  from dll.push_all_rep [OF assms(1) this(2,1)] obtain h' l' where
    p: "dll.push_all h l (take k free) = Some (h', l')" "list_rep h' l' (xs @ take k free)"
    "(\<lambda>p. deref h' p \<noteq> None) = (\<lambda>p. deref h p \<noteq> None)" by blast
  moreover have "free_nodes h' (xs @ take k free) (drop k free)"
    using assms(2) fun_cong [OF p(3)] by (auto simp: free_nodes_def dest: in_set_dropD)
  ultimately show ?thesis by blast
qed

lemma list_rep_next:
  assumes "list_rep h l (ys @ x # zs)"
  shows "get_next h x = Some (hd (zs @ [NULL]))" "x \<noteq> NULL"
  using assms by (auto simp: list_rep_def list_links_def get_next_def)

lemma foreach_grow_step:
  assumes "p \<noteq> NULL" "g p s = (False, k, s')" "dll.push_all h l (take k free) = Some (h1, l1)" "get_next h1 p = Some q"
  shows "foreach_from fpx_list_next (grow_body g) p h l (free, s) =
    foreach_from fpx_list_next (grow_body g) q h1 l1 (drop k free, s')"
  using assms by (simp add: foreach_node grow_body_def fpx_list_next_def)

lemma foreach_grow:
  "list_rep h l (ys @ todo) \<Longrightarrow> free_nodes h (ys @ todo) free \<Longrightarrow>
   \<exists>h' l' used. foreach_from fpx_list_next (grow_body g) (hd (todo @ [NULL])) h l (free, s) =
     Some (h', l', work_off g todo free s) \<and> list_rep h' l' (ys @ todo @ used) \<and>
     free = used @ fst (work_off g todo free s)"
proof (induction g todo free s arbitrary: h l ys rule: work_off.induct)
  case (1 g free s)
  then show ?case by (intro exI [of _ h] exI [of _ l] exI [of _ "[]"]) simp
next
  case (2 g x todo free s)
  obtain leave k s' where g: "g x s = (leave, k, s')" by (cases "g x s")
  obtain h1 l1 where p: "dll.push_all h l (take k free) = Some (h1, l1)" "list_rep h1 l1 (ys @ x # todo @ take k free)"
    "free_nodes h1 (ys @ x # todo @ take k free) (drop k free)"
    using free_nodes_push [OF 2(2,3), of k] by auto
  note nx = list_rep_next [OF p(2)]
  show ?case
  proof (cases leave)
    case True
    then show ?thesis using g p nx
      by (intro exI [of _ h1] exI [of _ l1] exI [of _ "take k free"]) (simp add: foreach_node grow_body_def)
  next
    case False
    have "list_rep h1 l1 ((ys @ [x]) @ (todo @ take k free))" "free_nodes h1 ((ys @ [x]) @ (todo @ take k free)) (drop k free)"
      using p(2,3) by simp_all
    from 2(1) [OF g [symmetric] refl False this] obtain h' l' used where
      "foreach_from fpx_list_next (grow_body g) (hd ((todo @ take k free) @ [NULL])) h1 l1 (drop k free, s') =
        Some (h', l', work_off g (todo @ take k free) (drop k free) s')"
      "list_rep h' l' ((ys @ [x]) @ (todo @ take k free) @ used)"
      "drop k free = used @ fst (work_off g (todo @ take k free) (drop k free) s')" by blast
    moreover have "foreach_from fpx_list_next (grow_body g) (hd ((x # todo) @ [NULL])) h l (free, s) =
      foreach_from fpx_list_next (grow_body g) (hd ((todo @ take k free) @ [NULL])) h1 l1 (drop k free, s')"
      using foreach_grow_step [of x g s k s' h l free h1 l1] nx g False p(1) by simp
    ultimately show ?thesis using False g append_take_drop_id [of k free]
      by (intro exI [of _ h'] exI [of _ l'] exI [of _ "take k free @ used"]) simp
  qed
qed

section \<open>A body that unlinks or frees the current node\<close>

definition unlink_body :: "(addr \<Rightarrow> 's \<Rightarrow> 's) \<Rightarrow> 's body" where
  "unlink_body f p h l s = map_option (\<lambda>(h, l). (False, h, l, f p s)) (fpx_list_remove h l p)"

definition callback_body :: "addr \<Rightarrow> (addr \<Rightarrow> lheap \<Rightarrow> 's \<Rightarrow> (lheap \<times> 's) option) \<Rightarrow> 's body" where
  "callback_body off callback p h l s = map_option (\<lambda>(h, s). (False, h, l, s)) (callback (fpx_list_data p off) h s)"

text \<open>A callback that may do anything to the node of its struct, and nothing to other nodes.\<close>

definition owns_node :: "addr \<Rightarrow> (addr \<Rightarrow> lheap \<Rightarrow> 's \<Rightarrow> (lheap \<times> 's) option) \<Rightarrow> (addr \<Rightarrow> 's \<Rightarrow> 's) \<Rightarrow> bool" where
  "owns_node off callback f \<longleftrightarrow> (\<forall>x h s. \<exists>h'. callback (fpx_list_data x off) h s = Some (h', f (fpx_list_data x off) s) \<and>
     (\<forall>q. q \<noteq> x \<longrightarrow> h' q = h q))"

definition frees_node :: "addr \<Rightarrow> (addr \<Rightarrow> lheap \<Rightarrow> 's \<Rightarrow> (lheap \<times> 's) option) \<Rightarrow> bool" where
  "frees_node off callback \<longleftrightarrow> (\<forall>x h s h' s'. callback (fpx_list_data x off) h s = Some (h', s') \<longrightarrow> deref h' x = None)"

lemma foreach_unlink_step:
  assumes "p \<noteq> NULL" "fpx_list_remove h l p = Some (h1, l1)" "get_next h1 p = Some q"
  shows "foreach_from fpx_list_next (unlink_body f) p h l s = foreach_from fpx_list_next (unlink_body f) q h1 l1 (f p s)"
  using assms by (simp add: foreach_node unlink_body_def fpx_list_next_def)

lemma foreach_unlink:
  "list_rep h l xs \<Longrightarrow> \<exists>h' l'. foreach_from fpx_list_next (unlink_body f) (hd (xs @ [NULL])) h l s =
     Some (h', l', fold f xs s) \<and> list_rep h' l' []"
proof (induction xs arbitrary: h l s)
  case (Cons x xs)
  have nx: "x \<noteq> NULL" "get_next h x = Some (hd (xs @ [NULL]))" using list_rep_next [of h l "[]"] Cons.prems by auto
  obtain h1 l1 where r: "fpx_list_remove h l x = Some (h1, l1)" "list_links h1 l1 xs" "l_size l1 = l_size l - 1"
    "frame h h1 (set xs)" using remove_links [of h l "[]" x xs] Cons.prems by (auto simp: list_rep_def)
  have "list_rep h1 l1 xs" using Cons.prems r(2,3) by (simp add: list_rep_def)
  from Cons.IH [OF this, of "f x s"] obtain h' l' where
    "foreach_from fpx_list_next (unlink_body f) (hd (xs @ [NULL])) h1 l1 (f x s) = Some (h', l', fold f xs (f x s))"
    "list_rep h' l' []" by blast
  moreover have "x \<notin> set xs" using Cons.prems by (auto simp: list_rep_def list_links_def)
  then have "get_next h1 x = get_next h x" using frame_deref [OF r(4)] by (simp add: get_next_def)
  ultimately show ?case using nx foreach_unlink_step [OF nx(1) r(1), of "hd (xs @ [NULL])" f s] by simp
qed auto

lemma list_rep_elsewhere:
  assumes "list_rep h l xs" "\<forall>q. q \<noteq> x \<longrightarrow> h' q = h q" "x \<notin> set xs"
  shows "list_rep h' l xs"
  using assms dlseg_cong [of xs h' h NULL NULL] by (auto simp: list_rep_def list_links_def) (metis)

lemma cleanup_all:
  assumes "owns_node off callback f"
  shows "list_rep h l xs \<Longrightarrow> \<exists>h' l'. fpx_list_cleanup off callback h l s =
     Some (h', l', fold f (map (\<lambda>x. fpx_list_data x off) xs) s) \<and> list_rep h' l' [] \<and> (\<forall>q. q \<notin> set xs \<longrightarrow> h' q = h q)"
proof (induction xs arbitrary: h l s)
  case Nil
  then have "fpx_list_head l = NULL" by (simp add: fpx_list_head_def list_rep_def list_links_def)
  then show ?case using Nil by (subst fpx_list_cleanup.simps) simp
next
  case (Cons x xs)
  have hd: "fpx_list_head l = x" "x \<noteq> NULL" "x \<notin> set xs"
    using Cons.prems by (auto simp: fpx_list_head_def list_rep_def list_links_def)
  obtain h1 l1 where r: "fpx_list_remove h l x = Some (h1, l1)" "list_links h1 l1 xs" "l_size l1 = l_size l - 1"
    "frame h h1 (set xs)" using remove_links [of h l "[]" x xs] Cons.prems by (auto simp: list_rep_def)
  obtain h2 where c: "callback (fpx_list_data x off) h1 s = Some (h2, f (fpx_list_data x off) s)"
    "\<forall>q. q \<noteq> x \<longrightarrow> h2 q = h1 q" using assms [unfolded owns_node_def, THEN spec, of x, THEN spec, of h1, THEN spec, of s] by blast
  have "list_rep h1 l1 xs" using Cons.prems r(2,3) by (simp add: list_rep_def)
  from Cons.IH [OF list_rep_elsewhere [OF this c(2) hd(3)], of "f (fpx_list_data x off) s"] obtain h' l' where
    "fpx_list_cleanup off callback h2 l1 (f (fpx_list_data x off) s) =
      Some (h', l', fold f (map (\<lambda>x. fpx_list_data x off) xs) (f (fpx_list_data x off) s))"
    "list_rep h' l' []" "\<forall>q. q \<notin> set xs \<longrightarrow> h' q = h2 q" by blast
  then show ?case using hd r(1,4) c by (subst fpx_list_cleanup.simps) (auto simp: Let_def frame_def)
qed

lemma foreach_free_undefined:
  assumes "frees_node off callback" "p \<noteq> NULL"
  shows "foreach_from fpx_list_next (callback_body off callback) p h l s = None"
proof (cases "callback (fpx_list_data p off) h s")
  case (Some hs)
  then have "deref (fst hs) p = None" using assms(1) unfolding frees_node_def by (metis prod.collapse)
  then show ?thesis using Some assms(2)
    by (cases hs) (simp add: foreach_node callback_body_def fpx_list_next_def get_next_def)
qed (use assms(2) in \<open>simp add: foreach_node callback_body_def\<close>)

section \<open>Properties\<close>

text \<open>
  A loop over a well-formed list ends and visits its nodes in order, the
  reverse loop in reverse order, until the body leaves it. Nodes that the body pushes at the back meanwhile are
  visited in their turn, each once, as from a queue: the loop ends with the list followed
  by exactly the nodes that were taken, as long as the supply of nodes lasts.
\<close>

theorem fpx_list_foreach_appends:
  assumes "list_rep h l xs" "free_nodes h xs free"
  shows "fpx_list_foreach (pure_body f) h l s = Some (h, l, visit f xs s) \<and>
    fpx_list_foreach_reverse (pure_body f) h l s = Some (h, l, visit f (rev xs) s) \<and>
    (\<exists>h' l' used. fpx_list_foreach (grow_body g) h l (free, s) = Some (h', l', work_off g xs free s) \<and>
      list_rep h' l' (xs @ used) \<and> free = used @ fst (work_off g xs free s))"
proof -
  have l: "fpx_list_head l = hd (xs @ [NULL])" "fpx_list_tail l = last (NULL # xs)" "dlseg h NULL xs NULL" "NULL \<notin> set xs"
    using assms(1) by (simp_all add: list_rep_def list_links_def fpx_list_head_def fpx_list_tail_def)
  note fs = fpx_list_foreach_def fpx_list_foreach_reverse_def l(1,2)
  show ?thesis unfolding fs
    using foreach_pure [OF dlseg_fchain [OF l(3)] l(4)] foreach_reverse_pure [OF l(3,4)] foreach_grow [of h l "[]" xs free g s] assms
    by (intro conjI) auto
qed

theorem fpx_list_foreach_appends_witness:
  "\<exists>h' l'. fpx_list_foreach (grow_body (\<lambda>p seen. (False, if p = 8 then 1 else 0, seen @ [p]))) ex_heap ex_list ([24], []) =
     Some (h', l', [], [8, 16, 24]) \<and> list_rep h' l' [8, 16, 24]"
proof -
  have "free_nodes ex_heap [8, 16] [24]" using ex_node by (simp add: free_nodes_def)
  from fpx_list_foreach_appends [OF ex_rep this, THEN conjunct2, THEN conjunct2,
      of "\<lambda>p seen. (False, if p = 8 then 1 else 0, seen @ [p])" "[]"]
  show ?thesis by (simp add: append_eq_Cons_conv)
qed

text \<open>
  C14 (fpx_list_cleanup_frees). A loop whose body unlinks the current node still visits every node and
  empties the list, because an unlinked node keeps its own links. A loop whose body frees the current
  node reads freed memory. \<open>fpx_list_cleanup\<close> does not: it calls the callback once for each struct, in
  order, which may free it, ends with an empty list, and leaves all other memory alone.
\<close>

theorem fpx_list_cleanup_frees:
  assumes "list_rep h l xs" "owns_node off callback f"
  shows "(\<exists>h' l'. fpx_list_foreach (unlink_body f) h l s = Some (h', l', fold f xs s) \<and> list_rep h' l' []) \<and>
    (frees_node off callback \<and> xs \<noteq> [] \<longrightarrow> fpx_list_foreach (callback_body off callback) h l s = None) \<and>
    (\<exists>h' l'. fpx_list_cleanup off callback h l s = Some (h', l', fold f (map (\<lambda>x. fpx_list_data x off) xs) s) \<and>
      list_rep h' l' [] \<and> (\<forall>q. q \<notin> set xs \<longrightarrow> h' q = h q))"
proof -
  have l: "fpx_list_head l = hd (xs @ [NULL])" "NULL \<notin> set xs"
    using assms(1) by (simp_all add: list_rep_def list_links_def fpx_list_head_def)
  have "fpx_list_foreach (callback_body off callback) h l s = None" if "frees_node off callback \<and> xs \<noteq> []"
    using that l foreach_free_undefined [of off callback "hd xs" h l s] by (cases xs) (auto simp: fpx_list_foreach_def)
  then show ?thesis
    using foreach_unlink [OF assms(1), of f s] cleanup_all [OF assms(2,1), of s] unfolding fpx_list_foreach_def l(1) by blast
qed

definition ex_free :: "addr \<Rightarrow> lheap \<Rightarrow> addr list \<Rightarrow> (lheap \<times> addr list) option" where
  "ex_free ptr h seen = Some (h(ptr + 4 := None), seen @ [ptr])"

theorem fpx_list_cleanup_frees_witness:
  "\<exists>h' l'. fpx_list_cleanup 4 ex_free ex_heap ex_list [] = Some (h', l', [4, 12]) \<and> list_rep h' l' [] \<and>
     h' 24 = ex_heap 24 \<and> fpx_list_foreach (callback_body 4 ex_free) ex_heap ex_list [] = None"
proof -
  have "owns_node 4 ex_free (\<lambda>ptr seen. seen @ [ptr])" "frees_node 4 ex_free"
    by (auto simp: owns_node_def frees_node_def ex_free_def fpx_list_data_def fpx_container_of_def deref_def)
  with fpx_list_cleanup_frees [OF ex_rep this(1), of "[]"]
  show ?thesis by (fastforce simp: fpx_list_data_def fpx_container_of_def)
qed

end
