(* ===== verification/Fpx_Walk.thy ===== *)
theory Fpx_Walk
  imports Fpx_Iter Fpx_Command
begin

text \<open>
  The walk over the directives in two models: \<open>walk\<close> of \<open>Fpx_Command\<close> goes by index over a sequence of
  directives that grows meanwhile, and the C loop in \<open>fpx_config_check\<close> and \<open>fpx_config_process\<close>
  is \<open>fpx_list_foreach\<close> of \<open>Fpx_Iter\<close> over nodes on a heap, to whose end a handler pushes new
  nodes. The two agree. Here a handler is given by what it does with a directive: its error code, the
  directives it adds, and its effect on the rest of the server.
\<close>

section \<open>The two bodies\<close>

type_synonym 's effect = "directive \<Rightarrow> 's \<Rightarrow> fpx_err_t \<times> directive list \<times> 's"

definition list_handler :: "'s effect \<Rightarrow> directive \<Rightarrow> config \<Rightarrow> 's \<Rightarrow> 's dresult" where
  "list_handler f d c s = (case f d s of (err, new, s') \<Rightarrow> Some (err, c\<lparr>conf_list := conf_list c @ new\<rparr>, s'))"

text \<open>The directives that the nodes carry: \<open>store\<close> puts new ones into nodes.\<close>

fun store :: "addr list \<Rightarrow> directive list \<Rightarrow> (addr \<Rightarrow> directive) \<Rightarrow> addr \<Rightarrow> directive" where
  "store (p # ps) (d # ds) ct = store ps ds (ct(p := d))"
| "store ps ds ct = ct"

text \<open>
  The body of the C loop. \<open>free\<close> are the nodes that the pool is going to serve, \<open>n\<close> of them have
  been taken; the error that ends the loop is its result.
\<close>

definition node_body :: "'s effect \<Rightarrow> addr list \<Rightarrow> addr \<Rightarrow> nat \<times> (addr \<Rightarrow> directive) \<times> 's \<times> fpx_err_t \<Rightarrow>
    bool \<times> nat \<times> nat \<times> (addr \<Rightarrow> directive) \<times> 's \<times> fpx_err_t" where
  "node_body f free p st = (case st of (n, ct, s, _) \<Rightarrow> case f (ct p) s of (err, new, s') \<Rightarrow>
     (err \<noteq> FPX_OK, length new, n + length new, store (take (length new) (drop n free)) new ct, s', err))"

section \<open>Their agreement\<close>

lemma store_other: "p \<notin> set ps \<Longrightarrow> store ps ds ct p = ct p"
  by (induction ps ds ct rule: store.induct) auto

lemma map_store: "distinct ps \<Longrightarrow> length ps = length ds \<Longrightarrow> map (store ps ds ct) ps = ds"
  by (induction ps ds ct rule: store.induct) (auto simp: store_other)

lemma handled_list_grows:
  "handled (list_handler f) i c s j c' s' \<Longrightarrow> \<exists>ys. conf_list c' = conf_list c @ ys"
  by (induction rule: handled.induct) (auto simp: list_handler_def split: prod.splits)

lemma walk_list_grows:
  assumes "walk (list_handler f) i c s = Some (err, c', s')"
  shows "\<exists>ys. conf_list c' = conf_list c @ ys"
proof -
  obtain j c1 s1 where h: "handled (list_handler f) i c s j c1 s1"
    "if j < length (conf_list c1) then err \<noteq> FPX_OK \<and> list_handler f (conf_list c1 ! j) c1 s1 = Some (err, c', s')
     else err = FPX_OK \<and> c' = c1 \<and> s' = s1" using assms unfolding walk_iff walk_ends_def by blast
  then have "\<exists>ys. conf_list c' = conf_list c1 @ ys" by (auto simp: list_handler_def split: if_splits prod.splits)
  with handled_list_grows [OF h(1)] show ?thesis by auto
qed

lemma walk_list_step:
  assumes "i < length (conf_list c)" "f (conf_list c ! i) s = (err, new, s1)"
  shows "walk (list_handler f) i c s =
    (if err \<noteq> FPX_OK then Some (err, c\<lparr>conf_list := conf_list c @ new\<rparr>, s1)
     else walk (list_handler f) (Suc i) (c\<lparr>conf_list := conf_list c @ new\<rparr>) s1)"
  using assms by (subst walk.simps) (simp add: list_handler_def)

lemma walk_work_off:
  assumes "map ct todo = drop i (conf_list c)" "walk (list_handler f) i c s = Some (err, c', s')"
    and "length (conf_list c') \<le> length (conf_list c) + length free" "distinct (todo @ free)" "drop n free0 = free"
  shows "\<exists>n' ct'. work_off (node_body f free0) todo free (n, ct, s, FPX_OK) = (drop n' free0, n', ct', s', err) \<and>
    n \<le> n' \<and> map ct' (todo @ take (n' - n) free) = drop i (conf_list c') \<and> (\<forall>p. p \<notin> set free \<longrightarrow> ct' p = ct p)"
  using assms
proof (induction "length todo + length free" arbitrary: todo free n i c s ct rule: less_induct)
  case less
  show ?case
  proof (cases todo)
    case Nil
    then have "length (conf_list c) \<le> i" using less.prems(1) by simp
    then have "err = FPX_OK \<and> c' = c \<and> s' = s" using less.prems(2) by (subst (asm) walk.simps) simp
    then show ?thesis using Nil less.prems(1,5) by (intro exI [of _ n] exI [of _ ct]) simp
  next
    case (Cons x rest)
    then have i: "i < length (conf_list c)" using less.prems(1) by (metis drop_eq_Nil list.distinct(1) list.map_disc_iff not_le)
    have x: "ct x = conf_list c ! i" "map ct rest = drop (Suc i) (conf_list c)"
      using less.prems(1) Cons Cons_nth_drop_Suc [OF i, symmetric] by simp_all
    obtain e new s1 where f: "f (conf_list c ! i) s = (e, new, s1)" by (cases "f (conf_list c ! i) s")
    let ?c1 = "c\<lparr>conf_list := conf_list c @ new\<rparr>" and ?k = "length new"
    let ?ct1 = "store (take ?k free) new ct"
    note w = less.prems(2) [unfolded walk_list_step [of i c f s e new s1, OF i f]]
    obtain ys where ys: "conf_list c' = conf_list c @ new @ ys"
      using w walk_list_grows [of f "Suc i" ?c1 s1 err c' s'] by (auto split: if_splits)
    then have k: "?k \<le> length free" using less.prems(3) by simp
    have d: "distinct (take ?k free)" "x \<notin> set free" "\<forall>p\<in>set rest. p \<notin> set free" "length (take ?k free) = ?k"
      using less.prems(4) Cons k by auto
    have new: "map ?ct1 (take ?k free) = new" using map_store [OF d(1,4)] .
    have old: "p \<notin> set free \<Longrightarrow> ?ct1 p = ct p" for p using store_other in_set_takeD by metis
    have r: "map ?ct1 (rest @ take ?k free) = drop (Suc i) (conf_list ?c1)"
      using i x(2) new old d(3) by (simp cong: map_cong)
    have g: "node_body f free0 x (n, ct, s, FPX_OK) = (e \<noteq> FPX_OK, ?k, n + ?k, ?ct1, s1, e)"
      using f x(1) less.prems(5) by (simp add: node_body_def)
    have nf: "drop (n + ?k) free0 = drop ?k free" using less.prems(5) by (metis add.commute drop_drop)
    show ?thesis
    proof (cases "e = FPX_OK")
      case False
      then have c': "err = e" "c' = ?c1" "s' = s1" using w by auto
      have "map ?ct1 (todo @ take ?k free) = drop i (conf_list c')"
        using r old [OF d(2)] x(1) Cons c'(2) i Cons_nth_drop_Suc [OF i] by (simp add: Cons_nth_drop_Suc [symmetric] nth_append)
      then show ?thesis using False g nf c' old Cons
        by (intro exI [of _ "n + ?k"] exI [of _ ?ct1]) simp
    next
      case True
      have w1: "walk (list_handler f) (Suc i) ?c1 s1 = Some (err, c', s')" using w True by simp
      have len: "length (conf_list c') \<le> length (conf_list ?c1) + length (drop ?k free)" using less.prems(3) k by simp
      have dist: "distinct ((rest @ take ?k free) @ drop ?k free)" using less.prems(4) Cons by simp
      have less': "length (rest @ take ?k free) + length (drop ?k free) < length todo + length free" using Cons k by simp
      obtain n' ct' where IH: "work_off (node_body f free0) (rest @ take ?k free) (drop ?k free) (n + ?k, ?ct1, s1, FPX_OK) =
          (drop n' free0, n', ct', s', err)" "n + ?k \<le> n'"
        "map ct' ((rest @ take ?k free) @ take (n' - (n + ?k)) (drop ?k free)) = drop (Suc i) (conf_list c')"
        "\<forall>p. p \<notin> set (drop ?k free) \<longrightarrow> ct' p = ?ct1 p"
        using less.hyps [OF less' r w1 len dist nf] by blast
      have tk: "take ?k free @ take (n' - (n + ?k)) (drop ?k free) = take (n' - n) free"
        using IH(2) by (simp add: take_add [symmetric] le_add_diff_inverse)
      have keep: "ct' p = ct p" if "p \<notin> set free" for p using IH(4) old [OF that] that in_set_dropD by metis
      have "drop i (conf_list c') = ct x # drop (Suc i) (conf_list c')"
        using i x(1) ys Cons_nth_drop_Suc [of i "conf_list c'"] by (simp add: nth_append)
      then have "map ct' (todo @ take (n' - n) free) = drop i (conf_list c')"
        using IH(3) tk Cons keep [OF d(2)] by simp
      then show ?thesis using True g IH(1,2) keep Cons
        by (intro exI [of _ n'] exI [of _ ct']) simp
    qed
  qed
qed

section \<open>The loop over the nodes\<close>

text \<open>
  C13 (fpx_config_walk_refines). The loop of \<open>fpx_config_check\<close> and \<open>fpx_config_process\<close> over the nodes of the
  configuration, whose handlers push the directives of included files at the end of the list that the
  loop is going through, does what the walk by index over the sequence of directives does: when that
  ends, and the pool has served the nodes, the loop ends with the same error, the same server, and a
  well-formed list of the same directives.
\<close>

theorem fpx_config_walk_refines:
  assumes "list_rep h l xs" "free_nodes h xs free" "map ct xs = conf_list c"
    and "walk (list_handler f) 0 c s = Some (err, c', s')" "length (conf_list c') \<le> length (conf_list c) + length free"
  shows "\<exists>h' l' used rest n ct'. free = used @ rest \<and>
    fpx_list_foreach (grow_body (node_body f free)) h l (free, 0, ct, s, FPX_OK) = Some (h', l', rest, n, ct', s', err) \<and>
    list_rep h' l' (xs @ used) \<and> map ct' (xs @ used) = conf_list c'"
proof -
  have "distinct (xs @ free)" using assms(2) by (simp add: free_nodes_def)
  then obtain n ct' where w: "work_off (node_body f free) xs free (0, ct, s, FPX_OK) = (drop n free, n, ct', s', err)"
    "map ct' (xs @ take n free) = conf_list c'"
    using walk_work_off [of ct xs 0 c f s err c' s' free 0 free] assms(3-5) by auto
  have hd: "fpx_list_head l = hd (xs @ [NULL])"
    using assms(1) by (simp add: list_rep_def list_links_def fpx_list_head_def)
  obtain h' l' used where g: "fpx_list_foreach (grow_body (node_body f free)) h l (free, 0, ct, s, FPX_OK) =
      Some (h', l', drop n free, n, ct', s', err)" "list_rep h' l' (xs @ used)" "free = used @ drop n free"
    using foreach_grow [of h l "[]" xs free "node_body f free" "(0, ct, s, FPX_OK)"] assms(1,2) w(1)
    unfolding fpx_list_foreach_def hd by auto
  have "used = take n free" using g(3) append_take_drop_id [of n free] by (metis append_same_eq)
  with g w(2) show ?thesis by blast
qed

text \<open>One directive that adds another, which adds none.\<close>

definition demo_dir :: "nat \<Rightarrow> directive" where
  "demo_dir k = \<lparr>di_name = bytes ''include'', di_argv = [], di_filename = None, di_line = k\<rparr>"

definition demo_effect :: "nat list effect" where
  "demo_effect d seen = (FPX_OK, if di_line d = 1 then [demo_dir 3] else [], seen @ [di_line d])"

theorem fpx_config_walk_refines_witness:
  "\<exists>h' l' n ct'. fpx_list_foreach (grow_body (node_body demo_effect [24])) ex_heap ex_list
      ([24], 0, \<lambda>p. if p = 8 then demo_dir 1 else demo_dir 2, [], FPX_OK) = Some (h', l', [], n, ct', [1, 2, 3], FPX_OK) \<and>
    list_rep h' l' [8, 16, 24] \<and> map ct' [8, 16, 24] = [demo_dir 1, demo_dir 2, demo_dir 3]"
proof -
  let ?ct = "\<lambda>p :: addr. if p = 8 then demo_dir 1 else demo_dir 2"
  let ?c = "\<lparr>conf_list = [demo_dir 1, demo_dir 2], conf_files = []\<rparr>"
  let ?c' = "\<lparr>conf_list = [demo_dir 1, demo_dir 2, demo_dir 3], conf_files = []\<rparr>"
  have w: "walk (list_handler demo_effect) 0 ?c [] = Some (FPX_OK, ?c', [1, 2, 3])"
    by (simp add: walk.simps list_handler_def demo_effect_def demo_dir_def)
  have m: "map ?ct [8, 16] = conf_list ?c" "length (conf_list ?c') \<le> length (conf_list ?c) + length [24 :: addr]" by simp_all
  have fr: "free_nodes ex_heap [8, 16] [24]" using ex_node by (simp add: free_nodes_def)
  obtain h' l' used rest n ct' where r: "[24] = used @ rest"
    "fpx_list_foreach (grow_body (node_body demo_effect [24])) ex_heap ex_list ([24], 0, ?ct, [], FPX_OK) =
      Some (h', l', rest, n, ct', [1, 2, 3], FPX_OK)"
    "list_rep h' l' ([8, 16] @ used)" "map ct' ([8, 16] @ used) = conf_list ?c'"
    using fpx_config_walk_refines [OF ex_rep fr m(1) w m(2)] by blast
  have "length used = 1" using arg_cong [OF r(4), of length] by simp
  then have "used = [24]" "rest = []" using r(1) by (cases used; simp)+
  with r show ?thesis by auto
qed

end
