(* ===== verification/Fpx_Logpipe.thy ===== *)
theory Fpx_Logpipe
  imports Fpx_Logger
begin

text \<open>
  The two halves of \<open>src/core/log.c\<close> together: the ring buffer of \<open>Fpx_Log\<close> with the bytes of
  \<open>Fpx_Logger\<close> in its slots. A step of the ring that deposits a message fills the slot the way
  \<open>fpx_log_error\<close> does between locking and unlocking, and a step that hands a message out runs the
  body of the logging thread on the bytes of the slot it has fetched; all other steps leave
  bytes, logs and operating system alone. A fill or a body whose result is undefined has no step.
\<close>

section \<open>The ring buffer with its bytes\<close>

record log_request =
  rq_level :: nat
  rq_err :: fpx_err_t
  rq_msg :: "byte list"
  rq_tm :: fpx_tm

record 'os log_env =
  le_sys :: "'os sys"
  le_fsync :: "fd \<Rightarrow> 'os \<Rightarrow> 'os"
  le_strerror :: "fpx_err_t \<Rightarrow> byte list"
  le_request :: "message \<Rightarrow> log_request"

record 'os pipe =
  pp_lg :: lg
  pp_slots :: "nat \<Rightarrow> log_message"
  pp_buf :: "byte list"
  pp_logs :: "log list"
  pp_os :: 'os

definition slot_fill :: "'os log_env \<Rightarrow> message \<Rightarrow> byte list \<Rightarrow> log_message \<Rightarrow> log_message option" where
  "slot_fill E m errstr old = (let r = le_request E m in
     log_error_fill (le_strerror E) (rq_level r) (rq_err r) (rq_msg r) (rq_tm r) errstr old)"

inductive pipe_step :: "'os log_env \<Rightarrow> 'os pipe \<Rightarrow> 'os pipe \<Rightarrow> bool" for E where
  quiet: "lg_step (pp_lg s) l \<Longrightarrow> lg_in l = lg_in (pp_lg s) \<Longrightarrow> lg_out l = lg_out (pp_lg s) \<Longrightarrow>
    pipe_step E s (s\<lparr>pp_lg := l\<rparr>)"
| fill: "lg_step (pp_lg s) l \<Longrightarrow> lg_in l = lg_in (pp_lg s) @ [m] \<Longrightarrow> length errstr = 1024 \<Longrightarrow>
    slot_fill E m errstr (pp_slots s (lg_rear (pp_lg s))) = Some msg \<Longrightarrow>
    pipe_step E s (s\<lparr>pp_lg := l, pp_slots := (pp_slots s)(lg_rear (pp_lg s) := msg)\<rparr>)"
| body: "lg_step (pp_lg s) l \<Longrightarrow> lg_worker (pp_lg s) = WRead k \<Longrightarrow> lg_out l = lg_out (pp_lg s) @ [lg_slots (pp_lg s) k] \<Longrightarrow>
    worker_handle (le_sys E) (le_fsync E) (pp_logs s) (pp_slots s k) (pp_buf s) (pp_os s) = Some (logs, buf, os) \<Longrightarrow>
    pipe_step E s (s\<lparr>pp_lg := l, pp_logs := logs, pp_buf := buf, pp_os := os\<rparr>)"

definition pipe_init :: "log list \<Rightarrow> 'os \<Rightarrow> 'os pipe \<Rightarrow> bool" where
  "pipe_init logs os s \<longleftrightarrow> lg_init (pp_lg s) \<and> length (pp_buf s) = 1024 \<and> pp_logs s = logs \<and> pp_os s = os \<and>
     (\<forall>k. length (lm_str (pp_slots s k)) = 1000 \<and> length (lm_time (pp_slots s k)) = 24)"

section \<open>What the logs are to receive\<close>

definition request_line :: "'os log_env \<Rightarrow> message \<Rightarrow> byte list" where
  "request_line E m = (let r = le_request E m in log_line (le_strerror E) (rq_level r) (rq_err r) (rq_msg r) (rq_tm r))"

definition requests_ok :: "'os log_env \<Rightarrow> bool" where
  "requests_ok E \<longleftrightarrow> (\<forall>e. 0 \<notin> set (le_strerror E e)) \<and>
     (\<forall>m. rq_level (le_request E m) < 5 \<and> 0 \<notin> set (rq_msg (le_request E m)) \<and> length (request_line E m) < 1024)"

definition log_sink :: "'os log_env \<Rightarrow> nat \<Rightarrow> byte list \<Rightarrow> log \<Rightarrow> 'os \<Rightarrow> 'os" where
  "log_sink E level line l os =
     (if l_level l < level then os else le_fsync E (f_fd (l_file l)) (snd (s_write (le_sys E) (f_fd (l_file l)) line os)))"

definition lines_written :: "'os log_env \<Rightarrow> log list \<Rightarrow> message list \<Rightarrow> 'os \<Rightarrow> 'os" where
  "lines_written E logs ms os = fold (\<lambda>m. fold (log_sink E (rq_level (le_request E m)) (request_line E m)) logs) ms os"

section \<open>The fill and the body on their own\<close>

definition filled :: "'os log_env \<Rightarrow> message \<Rightarrow> log_message \<Rightarrow> bool" where
  "filled E m x \<longleftrightarrow> (let r = le_request E m in lm_level x = rq_level r \<and> cstr (lm_time x) = take 23 (tm_text (rq_tm r)) \<and>
     cstr (lm_str x) = take 999 (rq_msg r @ err_desc (le_strerror E) (rq_err r)))"

definition slot_sized :: "log_message \<Rightarrow> bool" where
  "slot_sized x \<longleftrightarrow> length (lm_str x) = 1000 \<and> length (lm_time x) = 24"

lemma log_error_fill_sized:
  assumes "log_error_fill strerror level err msg tm errstr m0 = Some m" "slot_sized m0"
  shows "slot_sized m"
  using assms
  by (auto simp: log_error_fill_def slot_sized_def FPX_LOG_STR_SIZE_def FPX_LOG_TIMESTR_SIZE_def snprintf_at_def Let_def
      split: Option.bind_splits if_splits)

lemma slot_fill_ok:
  assumes "requests_ok E" "length errstr = 1024" "slot_sized old"
  shows "\<exists>x. slot_fill E m errstr old = Some x \<and> filled E m x \<and> slot_sized x"
proof -
  obtain x where "slot_fill E m errstr old = Some x" "filled E m x"
    using log_error_fill_ok [of old errstr "rq_msg (le_request E m)" "le_strerror E"] assms
    by (fastforce simp: requests_ok_def slot_sized_def slot_fill_def filled_def Let_def)
  then show ?thesis using log_error_fill_sized assms(3) by (auto simp: slot_fill_def Let_def)
qed

lemma slot_fill_eq:
  assumes "slot_fill E m errstr old = Some x" "requests_ok E" "length errstr = 1024" "slot_sized old"
  shows "filled E m x \<and> slot_sized x"
  using slot_fill_ok [OF assms(2-4), of m] assms(1) by simp

lemma write_to_logs_all:
  assumes "buf_read buf len = Some line" "list_all2 same_log logs0 logs"
  shows "\<exists>logs'. write_to_logs (le_sys E) (le_fsync E) logs level buf len os =
      Some (logs', fold (log_sink E level line) logs0 os) \<and> list_all2 same_log logs0 logs'"
  using assms(2)
proof (induction logs0 logs arbitrary: os rule: list_all2_induct)
  case (Cons l0 logs0 l logs)
  have "\<exists>l'. fpx_write_to_log (le_sys E) (le_fsync E) l level buf len os = Some (l', log_sink E level line l0 os) \<and>
      same_log l0 l'"
    using Cons.hyps(1) assms(1) by (auto simp: write_to_log_cases log_sink_def same_log_def)
  then show ?case using Cons.IH [of "log_sink E level line l0 os"] by (auto simp: list_all2_Cons1)
qed simp

lemma worker_line_length:
  "worker_line x buf = Some (b, len) \<Longrightarrow> length buf = 1024 \<Longrightarrow> length b = 1024"
  using snprintf_length [of 0 1024 buf]
  by (simp add: worker_line_def FPX_LOG_TOTAL_STR_SIZE_def FPX_LOG_STR_SIZE_def FPX_LOG_TIMESTR_SIZE_def
      del: append.simps split: if_splits) (metis fst_conv)

lemma worker_handle_ok:
  assumes "requests_ok E" "filled E m x" "length buf = 1024" "list_all2 same_log logs0 logs"
  shows "\<exists>logs' buf'. worker_handle (le_sys E) (le_fsync E) logs x buf os =
      Some (logs', buf', fold (log_sink E (rq_level (le_request E m)) (request_line E m)) logs0 os) \<and>
      length buf' = 1024 \<and> list_all2 same_log logs0 logs'"
proof -
  have lv: "lm_level x < 5" "lm_level x = rq_level (le_request E m)"
    using assms(1,2) by (simp_all add: requests_ok_def filled_def Let_def)
  have "(do { (b, len) \<leftarrow> worker_line x buf; buf_read b len }) = sent 1024 (request_line E m)"
    using worker_line_sent [OF assms(3) lv(1)] assms(2) by (simp add: filled_def request_line_def log_line_def Let_def)
  also have "\<dots> = Some (request_line E m)" using assms(1) by (simp add: sent_def requests_ok_def)
  finally obtain b len where w: "worker_line x buf = Some (b, len)" "buf_read b len = Some (request_line E m)"
    by (auto split: Option.bind_splits)
  moreover have "length b = 1024" using worker_line_length [OF w(1) assms(3)] .
  ultimately show ?thesis using write_to_logs_all [OF w(2) assms(4), of E "lm_level x" os] lv(2)
    by (auto simp: worker_handle_def)
qed

section \<open>The invariant of the two together\<close>

definition pipe_inv :: "'os log_env \<Rightarrow> log list \<Rightarrow> 'os \<Rightarrow> 'os pipe \<Rightarrow> bool" where
  "pipe_inv E logs os s \<longleftrightarrow> requests_ok E \<and> lg_inv (pp_lg s) \<and> length (pp_buf s) = 1024 \<and>
     list_all2 same_log logs (pp_logs s) \<and> (\<forall>k. slot_sized (pp_slots s k)) \<and>
     (\<forall>j < length (lg_in (pp_lg s)). filled E (lg_slots (pp_lg s) (j mod FPX_MAX_LOG_SLOTS)) (pp_slots s (j mod FPX_MAX_LOG_SLOTS))) \<and>
     pp_os s = lines_written E logs (lg_out (pp_lg s)) os"

lemma lg_step_in:
  assumes "lg_step l l'"
  shows "lg_in l' = lg_in l \<and> lg_slots l' = lg_slots l \<or>
    (\<exists>m. lg_in l' = lg_in l @ [m] \<and> lg_out l' = lg_out l \<and> lg_slots l' = (lg_slots l)(lg_rear l := m))"
  using assms by cases auto

lemma lg_step_out:
  assumes "lg_step l l'"
  shows "lg_out l' = lg_out l \<or>
    (\<exists>k. lg_worker l = WRead k \<and> lg_in l' = lg_in l \<and> lg_out l' = lg_out l @ [lg_slots l k])"
  using assms by cases auto

lemma read_slot:
  assumes "lg_inv l" "lg_worker l = WRead k"
  shows "\<exists>j < length (lg_in l). k = j mod FPX_MAX_LOG_SLOTS"
  using assms handle_slot [OF assms] by (intro exI [of _ "length (lg_out l)"]) (simp add: lg_inv_def)

lemma pipe_body_ok:
  assumes "pipe_inv E logs0 os0 s" "lg_worker (pp_lg s) = WRead k"
  shows "\<exists>logs buf. worker_handle (le_sys E) (le_fsync E) (pp_logs s) (pp_slots s k) (pp_buf s) (pp_os s) =
      Some (logs, buf, lines_written E logs0 (lg_out (pp_lg s) @ [lg_slots (pp_lg s) k]) os0) \<and>
    length buf = 1024 \<and> list_all2 same_log logs0 logs"
proof -
  obtain j where "j < length (lg_in (pp_lg s))" "k = j mod FPX_MAX_LOG_SLOTS"
    using read_slot [OF _ assms(2)] assms(1) by (auto simp: pipe_inv_def)
  then have "filled E (lg_slots (pp_lg s) k) (pp_slots s k)" using assms(1) by (simp add: pipe_inv_def)
  from worker_handle_ok [OF _ this, of "pp_buf s" logs0 "pp_logs s" "pp_os s"] assms(1)
  show ?thesis by (auto simp: pipe_inv_def lines_written_def)
qed

lemma pipe_inv_fill:
  assumes inv: "pipe_inv E logs0 os0 s" and st: "lg_step (pp_lg s) l" "lg_in l = lg_in (pp_lg s) @ [m]"
    and f: "length errstr = 1024" "slot_fill E m errstr (pp_slots s (lg_rear (pp_lg s))) = Some msg"
  shows "pipe_inv E logs0 os0 (s\<lparr>pp_lg := l, pp_slots := (pp_slots s)(lg_rear (pp_lg s) := msg)\<rparr>)"
proof -
  have l: "lg_out l = lg_out (pp_lg s)" "lg_slots l = (lg_slots (pp_lg s))(lg_rear (pp_lg s) := m)" "lg_inv l"
    using lg_step_in [OF st(1)] st(2) lg_inv_step [OF _ st(1)] inv by (auto simp: pipe_inv_def)
  have rear: "lg_rear (pp_lg s) = length (lg_in (pp_lg s)) mod FPX_MAX_LOG_SLOTS" using inv by (simp add: pipe_inv_def lg_inv_def)
  have "filled E m msg \<and> slot_sized msg" using slot_fill_eq [OF f(2)] f(1) inv by (simp add: pipe_inv_def)
  then show ?thesis using inv l st(2) rear by (auto simp: pipe_inv_def less_Suc_eq)
qed

lemma pipe_inv_step:
  assumes "pipe_inv E logs0 os0 s" "pipe_step E s s'"
  shows "pipe_inv E logs0 os0 s'"
  using assms(2)
proof cases
  case (quiet l)
  then show ?thesis using assms(1) lg_inv_step lg_step_in [OF quiet(2)] by (auto simp: pipe_inv_def)
next
  case (fill l m errstr msg)
  then show ?thesis using pipe_inv_fill [OF assms(1)] by blast
next
  case (body l k logs buf os)
  then have "lg_in l = lg_in (pp_lg s) \<and> lg_slots l = lg_slots (pp_lg s)"
    using lg_step_in [OF body(2)] by auto
  then show ?thesis using body pipe_body_ok [OF assms(1) body(3)] assms(1) lg_inv_step by (auto simp: pipe_inv_def)
qed

text \<open>No step of the ring is lost: each has a step of the two together.\<close>

lemma pipe_follows:
  assumes inv: "pipe_inv E logs0 os0 s" and st: "lg_step (pp_lg s) l"
  shows "\<exists>s'. pipe_step E s s' \<and> pp_lg s' = l"
proof -
  consider (q) "lg_in l = lg_in (pp_lg s)" "lg_out l = lg_out (pp_lg s)" | (f) m where "lg_in l = lg_in (pp_lg s) @ [m]"
    | (b) k where "lg_worker (pp_lg s) = WRead k" "lg_out l = lg_out (pp_lg s) @ [lg_slots (pp_lg s) k]"
    using lg_step_in [OF st] lg_step_out [OF st] by blast
  then show ?thesis
  proof cases
    case q
    then show ?thesis using pipe_step.quiet [OF st] by fastforce
  next
    case f
    obtain msg where "slot_fill E m (replicate 1024 0) (pp_slots s (lg_rear (pp_lg s))) = Some msg"
      using slot_fill_ok [of E "replicate 1024 0" "pp_slots s (lg_rear (pp_lg s))" m] inv by (auto simp: pipe_inv_def)
    then show ?thesis using pipe_step.fill [OF st f, of "replicate 1024 0"] by fastforce
  next
    case b
    then show ?thesis using pipe_body_ok [OF inv b(1)] pipe_step.body [OF st b] by fastforce
  qed
qed

lemma pipe_inv_init: "requests_ok E \<and> pipe_init logs os s \<Longrightarrow> pipe_inv E logs os s"
  by (auto simp: pipe_inv_def pipe_init_def lg_inv_init slot_sized_def lines_written_def same_log_def lg_init_def
      intro: list_all2_refl)

interpretation pipe: invariant_system "\<lambda>s. requests_ok E \<and> pipe_init logs os s" "pipe_step E" "pipe_inv E logs os"
  for E logs os
  by unfold_locales (rule pipe_inv_init pipe_inv_step; assumption)+

lemma pipe_runs:
  assumes "lg_step\<^sup>*\<^sup>* (pp_lg s) l" "pipe_inv E logs0 os0 s"
  shows "\<exists>s'. (pipe_step E)\<^sup>*\<^sup>* s s' \<and> pp_lg s' = l"
  using assms
proof (induction rule: rtranclp_induct)
  case (step l l')
  then obtain s' where s': "(pipe_step E)\<^sup>*\<^sup>* s s'" "pp_lg s' = l" by blast
  then obtain s'' where "pipe_step E s' s''" "pp_lg s'' = l'"
    using pipe_follows [of E logs0 os0 s' l'] pipe.inv_steps [OF s'(1) step.prems] step.hyps(2) by blast
  with s' show ?case by (blast intro: rtranclp.rtrancl_into_rtrancl)
qed blast

section \<open>The logs under every interleaving\<close>

text \<open>
  C3 (fpx_log_lines_in_order). From a call of \<open>fpx_log_error\<close> to the log files, under every interleaving of
  the calling threads and the logging thread: the operating system has been told to write
  exactly the lines of the first messages deposited, in the order of the deposits, each whole
  line once to every log whose level admits it and to no other; and no step of the ring buffer
  runs into undefined behaviour, as long as every line is shorter than the 1024 bytes of the
  thread's buffer.
\<close>

theorem fpx_log_lines_in_order:
  assumes "requests_ok E" "pipe_init logs os s0" "(pipe_step E)\<^sup>*\<^sup>* s0 s"
  shows "pp_os s = lines_written E logs (take (length (lg_out (pp_lg s))) (lg_in (pp_lg s))) os \<and>
    (\<forall>l. lg_step (pp_lg s) l \<longrightarrow> (\<exists>s'. pipe_step E s s' \<and> pp_lg s' = l))"
proof -
  have inv: "pipe_inv E logs os s" using pipe.reach_inv [OF conjI [OF assms(1,2)] assms(3)] .
  then have "pp_os s = lines_written E logs (lg_out (pp_lg s)) os" by (simp only: pipe_inv_def)
  moreover have "lg_out (pp_lg s) = take (length (lg_out (pp_lg s))) (lg_in (pp_lg s))"
    using inv by (simp only: pipe_inv_def lg_inv_def)
  ultimately show ?thesis using pipe_follows [OF inv] by metis
qed

definition demo_log_env :: "(byte list \<times> int) log_env" where
  "demo_log_env = \<lparr>le_sys = mem_sys\<lparr>s_write := (\<lambda>_ buf (c, p). (int (length buf), (c @ buf, p)))\<rparr>, le_fsync = (\<lambda>_ os. os), le_strerror = (\<lambda>_. [0x45]),
     le_request = (\<lambda>_. \<lparr>rq_level = 1, rq_err = 0, rq_msg = [0x68, 0x69], rq_tm = demo_tm\<rparr>)\<rparr>"

lemma demo_requests_ok: "requests_ok demo_log_env"
  by (simp add: requests_ok_def request_line_def demo_log_env_def log_line_def err_desc_def length_demo_tm bytes_def
      fpx_log_prio_def FPX_OK_def)

theorem fpx_log_lines_in_order_witness:
  "\<exists>s0 s. pipe_init [\<lparr>l_level = 1, l_file = zero_file, l_size = 0\<rparr>] ([], 0) s0 \<and>
    (pipe_step demo_log_env)\<^sup>*\<^sup>* s0 s \<and> length (lg_out (pp_lg s)) = 1 \<and>
    fst (pp_os s) = bytes ''[03.12.2021] [09:05:59] [error] hi'' @ [0xA]"
proof -
  let ?logs = "[\<lparr>l_level = 1, l_file = zero_file, l_size = 0\<rparr>]"
  obtain l0 l where l: "lg_init l0" "lg_step\<^sup>*\<^sup>* l0 l" "length (lg_out l) = 1"
  proof -
    obtain l' where l': "lg_step\<^sup>*\<^sup>* (lg_demo WWait (\<lambda>_. PIdle) 31 1 None [0]) l'" "length (lg_out l') = 1"
      using steps_wait_full [of "lg_demo WWait (\<lambda>_. PIdle) 31 1 None [0]"] by (auto simp: lg_demo_def)
    with lg_demo_reach show thesis unfolding lg_reach_def using that by (meson rtranclp_trans)
  qed
  define s0 where "s0 = \<lparr>pp_lg = l0, pp_slots = (\<lambda>_. \<lparr>lm_level = 0, lm_time = replicate 24 0, lm_str = replicate 1000 0\<rparr>),
    pp_buf = replicate 1024 0, pp_logs = ?logs, pp_os = ([] :: byte list, 0 :: int)\<rparr>"
  have init: "pipe_init ?logs ([], 0) s0" using l(1) by (simp add: pipe_init_def s0_def)
  obtain s where s: "(pipe_step demo_log_env)\<^sup>*\<^sup>* s0 s" "pp_lg s = l"
    using pipe_runs [of s0 l demo_log_env] pipe_inv_init demo_requests_ok init l(2) by (fastforce simp: s0_def)
  have "pp_os s = lines_written demo_log_env ?logs (take 1 (lg_in (pp_lg s))) ([], 0)"
    using fpx_log_lines_in_order [OF demo_requests_ok init s(1)] l(3) s(2) by simp
  moreover have "length (lg_in (pp_lg s)) \<ge> 1"
    using out_le_in [OF logger.reach_inv [OF l(1,2)]] l(3) s(2) by simp
  then obtain m ms where "lg_in (pp_lg s) = m # ms" by (cases "lg_in (pp_lg s)") auto
  moreover have "request_line demo_log_env m = bytes ''[03.12.2021] [09:05:59] [error] hi'' @ [0xA]"
    unfolding request_line_def demo_log_env_def log_line_def by code_simp
  ultimately show ?thesis using init s l(3)
    by (intro exI [of _ s0] exI [of _ s]) (simp add: lines_written_def log_sink_def demo_log_env_def)
qed

end
