(* ===== verification/Fpx_Settings.thy ===== *)
theory Fpx_Settings
  imports Fpx_Server
begin

text \<open>
  From the text of a configuration file to the members of the server: \<open>fpx_config_read\<close>,
  \<open>fpx_config_check\<close>, \<open>fpx_config_process\<close>, the generic handlers of \<open>src/core/command.c\<close> and the
  commands of the core module in \<open>src/core/server.c\<close> composed, for the five directives that store a
  value. Each of the theories this one builds on models a part; here is what they do together.
\<close>

section \<open>What a file of settings means\<close>

text \<open>A directive as the list of its words: its name and its argument.\<close>

definition setting_names :: "byte list list" where
  "setting_names = map bytes [''daemon'', ''workdir'', ''priority'', ''user'', ''group'']"

definition setting :: "byte list list \<Rightarrow> bool" where
  "setting ws \<longleftrightarrow> length ws = 2 \<and> hd ws \<in> set setting_names \<and> list_all word_ok ws"

definition uint_value :: "byte list \<Rightarrow> int" where
  "uint_value a = (size_value a + 2 ^ 31) mod 2 ^ 32 - 2 ^ 31"

text \<open>The values that the handlers accept.\<close>

definition accepted :: "byte list list \<Rightarrow> bool" where
  "accepted ws \<longleftrightarrow>
     (hd ws = bytes ''daemon'' \<longrightarrow> map fpx_tolower (ws ! 1) = bytes ''on'' \<or> map fpx_tolower (ws ! 1) = bytes ''off'') \<and>
     (hd ws = bytes ''priority'' \<longrightarrow> uint_value (ws ! 1) \<noteq> -1)"

text \<open>The argument of the last directive of a name, or the value without one.\<close>

definition last_value :: "byte list \<Rightarrow> (byte list \<Rightarrow> 'v) \<Rightarrow> byte list list list \<Rightarrow> 'v \<Rightarrow> 'v" where
  "last_value name f dss x = (case filter (\<lambda>ws. hd ws = name) dss of [] \<Rightarrow> x | sel \<Rightarrow> f (last sel ! 1))"

definition with_settings :: "byte list list list \<Rightarrow> 'os server \<Rightarrow> 'os server" where
  "with_settings dss s = s\<lparr>
     sv_daemon := last_value (bytes ''daemon'') (\<lambda>a. map fpx_tolower a = bytes ''on'') dss (sv_daemon s),
     sv_priority := last_value (bytes ''priority'') uint_value dss (sv_priority s),
     sv_workdir := last_value (bytes ''workdir'') id dss (sv_workdir s),
     sv_user := last_value (bytes ''user'') Some dss (sv_user s),
     sv_group := last_value (bytes ''group'') Some dss (sv_group s)\<rparr>"

section \<open>One directive\<close>

lemma last_value_Nil [simp]: "last_value name f [] x = x"
  by (simp add: last_value_def)

lemma last_value_Cons:
  "last_value name f (ws # dss) x = last_value name f dss (if hd ws = name then f (ws ! 1) else x)"
  by (cases "filter (\<lambda>ws. hd ws = name) dss") (simp_all add: last_value_def)

lemma with_settings_Nil [simp]: "with_settings [] s = s"
  by (simp add: with_settings_def)

lemma with_settings_Cons: "with_settings (ws # dss) s = with_settings dss (with_settings [ws] s)"
  by (simp add: with_settings_def last_value_Cons)

lemma with_settings_modules [simp]: "sv_modules (with_settings dss s) = sv_modules s"
  by (simp add: with_settings_def)

definition setting_cmd :: "byte list \<Rightarrow> handler_id \<Rightarrow> field \<Rightarrow> command" where
  "setting_cmd n h f = \<lparr>cm_name = n, cm_takes = 2, cm_handler = h, cm_offset = f\<rparr>"

lemma setting_takes: "fpx_check_directive_arguments (Suc 0) (setting_cmd n h f) = FPX_OK"
proof -
  have "fold (takes_step 2) [0..<8] (0, 0) = (1, 1)" by code_simp
  then show ?thesis by (simp add: setting_cmd_def fpx_check_directive_arguments_iff args_ok_def)
qed

lemma setting_find:
  "find (\<lambda>c. cm_name c = bytes ''daemon'') (m_cmd fpx_core_module) = Some (setting_cmd (bytes ''daemon'') H_flag F_daemon)"
  "find (\<lambda>c. cm_name c = bytes ''workdir'') (m_cmd fpx_core_module) = Some (setting_cmd (bytes ''workdir'') H_str F_workdir)"
  "find (\<lambda>c. cm_name c = bytes ''priority'') (m_cmd fpx_core_module) = Some (setting_cmd (bytes ''priority'') H_uint F_priority)"
  "find (\<lambda>c. cm_name c = bytes ''user'') (m_cmd fpx_core_module) = Some (setting_cmd (bytes ''user'') H_str F_user)"
  "find (\<lambda>c. cm_name c = bytes ''group'') (m_cmd fpx_core_module) = Some (setting_cmd (bytes ''group'') H_str F_group)"
  by code_simp+

lemma setting_names_distinct: "distinct setting_names" "bytes ''include'' \<notin> set setting_names" "m_name fpx_core_module = bytes ''core''"
  by code_simp+

text \<open>A directive whose name the core module knows runs the handler of the core module.\<close>

lemma process_core:
  assumes "find (\<lambda>c. cm_name c = n) (m_cmd fpx_core_module) = Some (setting_cmd n h f)" "sv_modules s = fpx_core_module # ms"
    and "di_name d = n" "di_argv d = [a]"
  shows "process_one sv_modules (core_run E) d c s = core_run E (setting_cmd n h f) fpx_core_module d c s"
    and "directive_ok (sv_modules s) d"
  using assms setting_takes [of n h f] by (simp_all add: process_one_def directive_ok_def)

lemma setting_cases:
  assumes "setting ws"
  obtains a n where "ws = [n, a]" "0 \<notin> set a"
    "n = bytes ''daemon'' \<or> n = bytes ''workdir'' \<or> n = bytes ''priority'' \<or> n = bytes ''user'' \<or> n = bytes ''group''"
proof -
  obtain n a where ws: "ws = [n, a]" using assms by (auto simp: setting_def length_Suc_conv numeral_2_eq_2)
  moreover have "0 \<notin> set a" using assms ws word_ok_no_zero by (auto simp: setting_def)
  moreover have "n = bytes ''daemon'' \<or> n = bytes ''workdir'' \<or> n = bytes ''priority'' \<or> n = bytes ''user'' \<or> n = bytes ''group''"
    using assms ws by (simp add: setting_def setting_names_def)
  ultimately show thesis by (rule that)
qed

lemma setting_neqs:
  "bytes ''daemon'' \<noteq> bytes ''workdir''" "bytes ''daemon'' \<noteq> bytes ''priority''"
  "bytes ''daemon'' \<noteq> bytes ''user''" "bytes ''daemon'' \<noteq> bytes ''group''"
  "bytes ''workdir'' \<noteq> bytes ''daemon''" "bytes ''workdir'' \<noteq> bytes ''priority''"
  "bytes ''workdir'' \<noteq> bytes ''user''" "bytes ''workdir'' \<noteq> bytes ''group''"
  "bytes ''priority'' \<noteq> bytes ''daemon''" "bytes ''priority'' \<noteq> bytes ''workdir''"
  "bytes ''priority'' \<noteq> bytes ''user''" "bytes ''priority'' \<noteq> bytes ''group''"
  "bytes ''user'' \<noteq> bytes ''daemon''" "bytes ''user'' \<noteq> bytes ''workdir''"
  "bytes ''user'' \<noteq> bytes ''priority''" "bytes ''user'' \<noteq> bytes ''group''"
  "bytes ''group'' \<noteq> bytes ''daemon''" "bytes ''group'' \<noteq> bytes ''workdir''"
  "bytes ''group'' \<noteq> bytes ''priority''" "bytes ''group'' \<noteq> bytes ''user''"
  by code_simp+

lemma process_setting:
  assumes "setting ws" "sv_modules s = fpx_core_module # ms" "di_name d # di_argv d = ws"
  shows "process_one sv_modules (core_run E) d c s =
      Some (if accepted ws then (FPX_OK, c, with_settings [ws] s) else (FPX_ERR_CONFIG_SYNTAX, c, s))"
    and "directive_ok (sv_modules s) d"
proof -
  obtain n a where ws: "ws = [n, a]" and a: "0 \<notin> set a" and n: "n = bytes ''daemon'' \<or> n = bytes ''workdir'' \<or>
      n = bytes ''priority'' \<or> n = bytes ''user'' \<or> n = bytes ''group''" using setting_cases [OF assms(1)] .
  have d: "di_name d = n" "di_argv d = [a]" using assms(3) ws by simp_all
  note p = process_core [OF _ assms(2) d]
  note h = fpx_handler_values [OF a, of "[]"]
  note defs = core_run_def Let_def setting_cmd_def run_value_def store_core_def setting_names_distinct(3) accepted_def
    with_settings_def last_value_Cons ws d setting_neqs
  from n consider "n = bytes ''daemon''" | "n = bytes ''workdir''" | "n = bytes ''priority''" | "n = bytes ''user''" | "n = bytes ''group''"
    by blast
  then show "process_one sv_modules (core_run E) d c s =
      Some (if accepted ws then (FPX_OK, c, with_settings [ws] s) else (FPX_ERR_CONFIG_SYNTAX, c, s))"
  proof cases
    case 1
    show ?thesis using p(1) [OF setting_find(1) [folded 1], of E c] h by (simp add: defs 1)
  next
    case 2
    show ?thesis using p(1) [OF setting_find(2) [folded 2], of E c] by (simp add: defs 2 fpx_handler_str_def)
  next
    case 3
    show ?thesis using p(1) [OF setting_find(3) [folded 3], of E c] h by (simp add: defs 3 uint_value_def)
  next
    case 4
    show ?thesis using p(1) [OF setting_find(4) [folded 4], of E c] by (simp add: defs 4 fpx_handler_str_def)
  next
    case 5
    show ?thesis using p(1) [OF setting_find(5) [folded 5], of E c] by (simp add: defs 5 fpx_handler_str_def)
  qed
  show "directive_ok (sv_modules s) d" using n p(2) setting_find by fastforce
qed

section \<open>A file of settings\<close>

lemma walk_settings:
  assumes "map (\<lambda>d. di_name d # di_argv d) (drop i (conf_list c)) = dss" "list_all setting dss" "sv_modules s = fpx_core_module # ms"
  shows "walk (process_one sv_modules (core_run E)) i c s =
    Some (if list_all accepted dss then FPX_OK else FPX_ERR_CONFIG_SYNTAX, c, with_settings (takeWhile accepted dss) s)"
  using assms
proof (induction dss arbitrary: i s)
  case Nil
  then show ?case by (subst walk.simps) simp
next
  case (Cons ws dss)
  then have i: "i < length (conf_list c)" by (simp add: not_le [symmetric]) (metis Cons.prems(1) drop_all list.distinct(1) list.map_disc_iff not_le_imp_less)
  from Cons.prems(1) have d: "di_name (conf_list c ! i) # di_argv (conf_list c ! i) = ws"
    "map (\<lambda>d. di_name d # di_argv d) (drop (Suc i) (conf_list c)) = dss"
    by (simp_all flip: Cons_nth_drop_Suc [OF i])
  have st: "setting ws" "list_all setting dss" using Cons.prems(2) by simp_all
  note one = process_setting(1) [OF st(1) Cons.prems(3) d(1), of E c]
  show ?case
  proof (cases "accepted ws")
    case True
    have "sv_modules (with_settings [ws] s) = fpx_core_module # ms" using Cons.prems(3) by simp
    from Cons.IH [OF d(2) st(2) this] True i one show ?thesis
      by (subst walk.simps) (simp add: with_settings_Cons [of ws "takeWhile accepted dss"])
  next
    case False
    then show ?thesis using i one by (subst walk.simps) simp
  qed
qed

lemma setting_words_ok: "setting ws \<Longrightarrow> words_ok ws"
  by (auto simp: setting_def words_ok_def FPX_MAX_TAKES_def)

text \<open>Reading a file of printed directives puts them behind those that are there.\<close>

lemma read_config_words:
  assumes "file_holds S path (print_config dss)" "pe_ok (re_pool env) = (\<lambda>_. True)" "list_all words_ok dss"
  shows "\<exists>c' env' ds. read_config_file S c path env = Some (FPX_OK, c', env') \<and> conf_list c' = conf_list c @ ds \<and>
    map (\<lambda>d. di_name d # di_argv d) ds = dss \<and> pe_ok (re_pool env') = (\<lambda>_. True)"
proof -
  let ?ls = "map (\<lambda>ws. (print_words ws, 0xA)) dss"
  have b: "text_bytes ?ls @ [] = print_config dss" by (simp add: text_bytes_def print_config_def comp_def)
  have ok: "\<forall>(l, e)\<in>set ?ls. line_ok l \<and> is_eol e" "line_ok []"
    using assms(3) print_words_line_ok by (auto simp: list_all_iff is_eol_def) (simp add: line_ok_def text_line_def)
  show ?thesis
    using read_config_file_ok [OF _ assms(2) ok, of S path c] assms(1) b text_directives_print [OF assms(3)] by fastforce
qed

lemma read_settings:
  assumes "file_holds S path (print_config dss)" "pe_ok (re_pool env) = (\<lambda>_. True)" "list_all words_ok dss"
  shows "\<exists>c env'. fpx_config_read S path env = Some (FPX_OK, c, env') \<and> map (\<lambda>d. di_name d # di_argv d) (conf_list c) = dss"
  using read_config_words [OF assms, of "\<lparr>conf_list = [], conf_files = []\<rparr>"] by (auto simp: fpx_config_read_def)

text \<open>
  C4 (fpx_config_settings). From the bytes of a configuration file to the members of the server. A file of
  \<open>daemon\<close>, \<open>workdir\<close>, \<open>priority\<close>, \<open>user\<close> and \<open>group\<close> directives, in any number and order, is read, and
  the check accepts it whatever the values are. Processing it gives each member the value of
  the last directive that names it, and leaves the members that none names, and the rest of the
  server, as they were. It stops with a syntax error at the first value that its handler refuses,
  with the directives before it in effect.
\<close>

theorem fpx_config_settings:
  assumes "file_holds S path (print_config dss)" "pe_ok (re_pool env) = (\<lambda>_. True)" "list_all setting dss"
    and "sv_modules s = fpx_core_module # ms"
  shows "\<exists>c env'. fpx_config_read S path env = Some (FPX_OK, c, env') \<and>
    fpx_config_check sv_modules (core_run E) c s = Some (FPX_OK, c, s) \<and>
    fpx_config_process sv_modules (core_run E) c s =
      Some (if list_all accepted dss then FPX_OK else FPX_ERR_CONFIG_SYNTAX, c, with_settings (takeWhile accepted dss) s)"
proof -
  have w: "list_all words_ok dss" using assms(3) setting_words_ok by (auto simp: list_all_iff)
  obtain c env' where c: "fpx_config_read S path env = Some (FPX_OK, c, env')"
    "map (\<lambda>d. di_name d # di_argv d) (conf_list c) = dss" using read_settings [OF assms(1,2) w] by blast
  have each: "setting (di_name d # di_argv d)" if "d \<in> set (conf_list c)" for d
    using assms(3) that unfolding c(2) [symmetric] by (simp add: list_all_iff)
  have "list_all (\<lambda>d. di_name d \<noteq> bytes ''include'') (conf_list c)"
    using each setting_names_distinct(2) by (fastforce simp: list_all_iff setting_def)
  moreover have "list_all (directive_ok (sv_modules s)) (conf_list c)"
    using each process_setting(2) [OF _ assms(4) refl] by (auto simp: list_all_iff)
  ultimately have "fpx_config_check sv_modules (core_run E) c s = Some (FPX_OK, c, s)"
    using walk_check_plain [of c sv_modules "core_run E" 0 s] by (simp add: fpx_config_check_def)
  then show ?thesis using c walk_settings [of 0 c dss s ms E] assms(3,4) by (auto simp: fpx_config_process_def)
qed

definition demo_settings :: "byte list list list" where
  "demo_settings = map (map bytes) [[''user'', ''www''], [''daemon'', ''OFF''], [''user'', ''web''], [''priority'', ''4G''],
     [''daemon'', ''yes''], [''group'', ''www'']]"

theorem fpx_config_settings_witness:
  "\<exists>c env'. fpx_config_read (one_file_sys 0x81A4 (print_config demo_settings)) (bytes ''/f'') (demo_env 0) = Some (FPX_OK, c, env') \<and>
    fpx_config_process sv_modules (core_run (demo_senv (one_file_sys 0x81A4 (print_config demo_settings)))) c (demo_server 0) =
      Some (FPX_ERR_CONFIG_SYNTAX, c, (demo_server 0)\<lparr>sv_user := Some (bytes ''web''), sv_daemon := False\<rparr>)"
proof -
  let ?S = "one_file_sys 0x81A4 (print_config demo_settings)"
  have "file_holds ?S (bytes ''/f'') (print_config demo_settings)"
    by (rule one_file_holds) (simp add: print_config_def demo_settings_def bytes_def)
  moreover have "list_all setting demo_settings" "\<not> list_all accepted demo_settings"
    "takeWhile accepted demo_settings = take 4 demo_settings" by code_simp+
  moreover have "with_settings (take 4 demo_settings) (demo_server (0::int)) =
      (demo_server 0)\<lparr>sv_user := Some (bytes ''web''), sv_daemon := False\<rparr>"
  proof -
    have "last_value (bytes ''user'') Some (take 4 demo_settings) None = Some (bytes ''web'')"
      "last_value (bytes ''group'') Some (take 4 demo_settings) None = None"
      "last_value (bytes ''workdir'') id (take 4 demo_settings) (bytes ''/'') = bytes ''/''"
      "last_value (bytes ''daemon'') (\<lambda>a. map fpx_tolower a = bytes ''on'') (take 4 demo_settings) True = False"
      "last_value (bytes ''priority'') uint_value (take 4 demo_settings) 0 = 0" by code_simp+
    then show ?thesis by (simp add: with_settings_def demo_server_def)
  qed
  moreover have "pe_ok (re_pool (demo_env (0::int))) = (\<lambda>_. True)" "sv_modules (demo_server (0::int)) = [fpx_core_module]"
    by (simp_all add: demo_env_def ok_pool_def demo_server_def)
  ultimately show ?thesis
    using fpx_config_settings [of ?S "bytes ''/f''" demo_settings "demo_env 0" "demo_server 0" "[]" "demo_senv ?S"] by auto
qed

end
