(* ===== verification/Fpx_Include.thy ===== *)
theory Fpx_Include
  imports Fpx_Settings
begin

text \<open>
  Configuration files that include themselves: the reader, the walks and the handler of \<open>include\<close>
  (\<open>src/core/command.c\<close>, \<open>src/core/server.c\<close>) together. A walk without a result is one of the
  meanings of \<^const>\<open>None\<close>, another is undefined behaviour; the runs of the walk (\<^const>\<open>handled\<close>) tell them apart.
\<close>

section \<open>The include directive\<close>

definition include_words :: "path \<Rightarrow> byte list list" where
  "include_words path = [bytes ''include'', path]"

abbreviation words_of :: "directive \<Rightarrow> byte list list" where
  "words_of d \<equiv> di_name d # di_argv d"

lemma include_words_ok: "word_ok path \<Longrightarrow> words_ok (include_words path)"
  using refl [of "word_ok (bytes ''include'')"] by (simp add: include_words_def words_ok_def FPX_MAX_TAKES_def) code_simp

lemma include_lookup:
  "fpx_find_command_in_modules (fpx_core_module # ms) (bytes ''include'') =
     Some \<lparr>cm_name = bytes ''include'', cm_takes = 2, cm_handler = H_include, cm_offset = F_none\<rparr>"
  "fpx_find_module_by_command (fpx_core_module # ms) (bytes ''include'') = Some fpx_core_module"
  "fpx_check_directive_arguments (Suc 0) \<lparr>cm_name = bytes ''include'', cm_takes = 2, cm_handler = H_include, cm_offset = F_none\<rparr> = FPX_OK"
proof -
  have "find (\<lambda>c. cm_name c = bytes ''include'') (m_cmd fpx_core_module) =
     Some \<lparr>cm_name = bytes ''include'', cm_takes = 2, cm_handler = H_include, cm_offset = F_none\<rparr>" by code_simp
  then show "fpx_find_command_in_modules (fpx_core_module # ms) (bytes ''include'') =
     Some \<lparr>cm_name = bytes ''include'', cm_takes = 2, cm_handler = H_include, cm_offset = F_none\<rparr>"
    "fpx_find_module_by_command (fpx_core_module # ms) (bytes ''include'') = Some fpx_core_module" by simp_all
  show "fpx_check_directive_arguments (Suc 0) \<lparr>cm_name = bytes ''include'', cm_takes = 2, cm_handler = H_include, cm_offset = F_none\<rparr> = FPX_OK"
    by code_simp
qed

text \<open>Both walks call the handler of \<open>include\<close> for such a directive.\<close>

lemma include_one:
  assumes "words_of d = include_words path" "sv_modules s = fpx_core_module # ms"
  shows "process_one sv_modules (core_run E) d c s = fpx_handler_include E [path] c s"
    and "check_one sv_modules (core_run E) d c s = fpx_handler_include E [path] c s"
  using assms include_lookup by (simp_all add: process_one_def check_one_def include_words_def core_run_def Let_def)

text \<open>Neither walk calls it for a setting; processing one that is accepted leaves the modules and the pool alone.\<close>

lemma setting_one:
  assumes "setting (words_of d)" "accepted (words_of d)" "sv_modules s = fpx_core_module # ms"
  shows "process_one sv_modules (core_run E) d c s = Some (FPX_OK, c, with_settings [words_of d] s)"
    and "check_one sv_modules (core_run E) d c s = Some (FPX_OK, c, s)"
proof -
  show "process_one sv_modules (core_run E) d c s = Some (FPX_OK, c, with_settings [words_of d] s)"
    using process_setting(1) [OF assms(1,3) refl] assms(2) by simp
  have "di_name d \<noteq> bytes ''include''" using assms(1) setting_names_distinct(2) by (auto simp: setting_def)
  then show "check_one sv_modules (core_run E) d c s = Some (FPX_OK, c, s)"
    using process_setting(2) [OF assms(1,3) refl] by (simp add: check_one_plain)
qed

lemma with_settings_pool [simp]: "sv_pool (with_settings dss s) = sv_pool s"
  by (simp add: with_settings_def)

section \<open>Files that lead back to themselves\<close>

text \<open>Files of accepted settings and \<open>include\<close> directives for themselves, in any order, with at least one of these.\<close>

definition circular :: "path \<Rightarrow> byte list list list \<Rightarrow> bool" where
  "circular path dss \<longleftrightarrow> include_words path \<in> set dss \<and>
     (\<forall>ws\<in>set dss. ws = include_words path \<or> setting ws \<and> accepted ws)"

lemma circular_words_ok: "word_ok path \<Longrightarrow> circular path dss \<Longrightarrow> list_all words_ok dss"
  using include_words_ok setting_words_ok by (fastforce simp: circular_def list_all_iff)

lemma include_handler_again:
  assumes "word_ok path" "plain_path path" "is_file (se_sys E) path" "circular path dss"
    and "file_holds (se_sys E) path (print_config dss)" "pe_ok (sv_pool s) = (\<lambda>_. True)"
  shows "\<exists>c' s' ds. fpx_handler_include E [path] c s = Some (FPX_OK, c', s') \<and> conf_list c' = conf_list c @ ds \<and>
    map words_of ds = dss \<and> pe_ok (sv_pool s') = (\<lambda>_. True) \<and> sv_modules s' = sv_modules s"
proof -
  have p: "pe_ok (re_pool (server_renv s)) = (\<lambda>_. True)" using assms(6) by (simp add: server_renv_def)
  obtain c' env' ds where "read_config_file (se_sys E) c path (server_renv s) = Some (FPX_OK, c', env')"
    "conf_list c' = conf_list c @ ds" "map words_of ds = dss" "pe_ok (re_pool env') = (\<lambda>_. True)"
    using read_config_words [OF assms(5) p circular_words_ok [OF assms(1,4)], of c] by blast
  then show ?thesis
    using read_included_file_ok [OF assms(2,3), of "se_glob E" "se_info E" c "server_renv s"]
    by (auto simp: fpx_handler_include_def arg_def)
qed

text \<open>What holds in every round: only directives of the file, and one more \<open>include\<close> to come.\<close>

definition circling :: "path \<Rightarrow> module list \<Rightarrow> nat \<Rightarrow> config \<Rightarrow> 'os server \<Rightarrow> bool" where
  "circling path ms i c s \<longleftrightarrow>
     (\<exists>k<length (conf_list c). i \<le> k \<and> words_of (conf_list c ! k) = include_words path) \<and>
     (\<forall>d\<in>set (conf_list c). words_of d = include_words path \<or> setting (words_of d) \<and> accepted (words_of d)) \<and>
     sv_modules s = fpx_core_module # ms \<and> pe_ok (sv_pool s) = (\<lambda>_. True)"

lemma circling_start:
  assumes "map words_of (conf_list c) = dss" "circular path dss" "sv_modules s = fpx_core_module # ms" "pe_ok (sv_pool s) = (\<lambda>_. True)"
  shows "circling path ms 0 c s"
proof -
  have "include_words path \<in> set (map words_of (conf_list c))" using assms(1,2) by (simp add: circular_def)
  then have "\<exists>k<length (conf_list c). words_of (conf_list c ! k) = include_words path" by (auto simp: in_set_conv_nth)
  moreover have "\<forall>ws\<in>set (map words_of (conf_list c)). ws = include_words path \<or> setting ws \<and> accepted ws"
    using assms(1,2) by (simp add: circular_def)
  ultimately show ?thesis using assms(3,4) by (simp add: circling_def)
qed

lemma circling_grows:
  assumes "circling path ms i c s" "conf_list c' = conf_list c @ ds" "map words_of ds = dss" "circular path dss"
    and "sv_modules s' = sv_modules s" "pe_ok (sv_pool s') = (\<lambda>_. True)"
  shows "circling path ms (Suc i) c' s'"
proof -
  have i: "i < length (conf_list c)" using assms(1) by (auto simp: circling_def)
  have "circling path ms 0 (\<lparr>conf_list = ds, conf_files = []\<rparr>) s'"
    using assms by (intro circling_start) (simp_all add: circling_def)
  then obtain k where k: "k < length ds" "words_of (ds ! k) = include_words path"
    and ds: "\<forall>d\<in>set ds. words_of d = include_words path \<or> setting (words_of d) \<and> accepted (words_of d)"
    by (auto simp: circling_def)
  have "length (conf_list c) + k < length (conf_list c')" "Suc i \<le> length (conf_list c) + k"
    "words_of (conf_list c' ! (length (conf_list c) + k)) = include_words path"
    using k i assms(2) by simp_all
  moreover have "\<forall>d\<in>set (conf_list c'). words_of d = include_words path \<or> setting (words_of d) \<and> accepted (words_of d)"
    using assms(1,2) ds by (auto simp: circling_def)
  ultimately show ?thesis using assms(1,5,6) unfolding circling_def by metis
qed

lemma circling_passes:
  assumes "circling path ms i c s" "words_of (conf_list c ! i) \<noteq> include_words path"
    and "sv_modules s' = sv_modules s" "sv_pool s' = sv_pool s"
  shows "circling path ms (Suc i) c s'"
  using assms unfolding circling_def by (metis le_antisym not_less_eq_eq)

lemma circling_step:
  assumes "word_ok path" "plain_path path" "is_file (se_sys E) path" "circular path dss"
    and "file_holds (se_sys E) path (print_config dss)" "circling path ms i c s"
    and "one = process_one sv_modules (core_run E) \<or> one = check_one sv_modules (core_run E)"
  shows "i < length (conf_list c) \<and> (\<exists>c' s'. one (conf_list c ! i) c s = Some (FPX_OK, c', s') \<and> circling path ms (Suc i) c' s')"
proof
  show i: "i < length (conf_list c)" using assms(6) by (auto simp: circling_def)
  have s: "sv_modules s = fpx_core_module # ms" "pe_ok (sv_pool s) = (\<lambda>_. True)" using assms(6) by (simp_all add: circling_def)
  let ?d = "conf_list c ! i"
  show "\<exists>c' s'. one ?d c s = Some (FPX_OK, c', s') \<and> circling path ms (Suc i) c' s'"
  proof (cases "words_of ?d = include_words path")
    case True
    obtain c' s' ds where r: "fpx_handler_include E [path] c s = Some (FPX_OK, c', s')" "conf_list c' = conf_list c @ ds"
      "map words_of ds = dss" "pe_ok (sv_pool s') = (\<lambda>_. True)" "sv_modules s' = sv_modules s"
      using include_handler_again [OF assms(1-5) s(2)] by blast
    with circling_grows [OF assms(6) r(2,3) assms(4) r(5,4)] include_one [OF True s(1), of E c] assms(7) show ?thesis by auto
  next
    case False
    then have d: "setting (words_of ?d)" "accepted (words_of ?d)" using assms(6) i by (auto simp: circling_def)
    have "circling path ms (Suc i) c (with_settings [words_of ?d] s)" "circling path ms (Suc i) c s"
      by (auto intro!: circling_passes [OF assms(6) False])
    with setting_one [OF d s(1), of E c] assms(7) show ?thesis by auto
  qed
qed

text \<open>
  C22 (fpx_config_self_include_diverges). A configuration file that includes itself is neither
  accepted nor rejected. The file may hold any settings with accepted values besides, before and after the
  directives that include it. As long as it can be read and the pools have memory, reading it
  succeeds, and then both the check and the processing go on for ever: for every number of directives there is a run
  that handles so many of them, each with success, and finds another one to handle. No handler gets stuck on the way;
  that the walks have no result is their not ending.
\<close>

theorem fpx_config_self_include_diverges:
  assumes "word_ok path" "plain_path path" "is_file (se_sys E) path" "circular path dss"
    and "file_holds (se_sys E) path (print_config dss)"
    and "pe_ok (re_pool env) = (\<lambda>_. True)" "pe_ok (sv_pool s) = (\<lambda>_. True)" "sv_modules s = fpx_core_module # ms"
  shows "\<exists>c env'. fpx_config_read (se_sys E) path env = Some (FPX_OK, c, env') \<and>
    (\<forall>n. \<exists>c' s'. handled (check_one sv_modules (core_run E)) 0 c s n c' s' \<and> n < length (conf_list c')) \<and>
    (\<forall>n. \<exists>c' s'. handled (process_one sv_modules (core_run E)) 0 c s n c' s' \<and> n < length (conf_list c')) \<and>
    fpx_config_check sv_modules (core_run E) c s = None \<and> fpx_config_process sv_modules (core_run E) c s = None"
proof -
  obtain c env' where c: "fpx_config_read (se_sys E) path env = Some (FPX_OK, c, env')" "map words_of (conf_list c) = dss"
    using read_settings [OF assms(5,6) circular_words_ok [OF assms(1,4)]] by blast
  have start: "circling path ms 0 c s" by (rule circling_start [OF c(2) assms(4,8,7)])
  note step = circling_step [OF assms(1-5)]
  have "\<exists>c' s'. handled one 0 c s n c' s' \<and> n < length (conf_list c')" "walk one 0 c s = None"
    if "one = process_one sv_modules (core_run E) \<or> one = check_one sv_modules (core_run E)" for one n
    using walk_goes_on [of "circling path ms" one, OF step [OF _ that] start, of n]
      walk_diverges [of "circling path ms" one, OF step [OF _ that] start] by simp_all
  then show ?thesis using c(1) by (auto simp: fpx_config_check_def fpx_config_process_def)
qed

definition demo_circle :: "byte list list list" where
  "demo_circle = [[bytes ''user'', bytes ''www''], include_words (bytes ''/f''), [bytes ''daemon'', bytes ''off'']]"

theorem fpx_config_self_include_diverges_witness:
  "\<exists>c env'. fpx_config_read (one_file_sys 0x81A4 (print_config demo_circle)) (bytes ''/f'') (demo_env 0) = Some (FPX_OK, c, env') \<and>
    (\<exists>c' s'. handled (process_one sv_modules (core_run (demo_senv (one_file_sys 0x81A4 (print_config demo_circle))))) 0 c
       (demo_server 0) 100 c' s') \<and>
    fpx_config_process sv_modules (core_run (demo_senv (one_file_sys 0x81A4 (print_config demo_circle)))) c (demo_server 0) = None"
proof -
  let ?S = "one_file_sys 0x81A4 (print_config demo_circle)"
  have 1: "word_ok (bytes ''/f'')" "plain_path (bytes ''/f'')" "circular (bytes ''/f'') demo_circle" by code_simp+
  have 2: "is_file (se_sys (demo_senv ?S)) (bytes ''/f'')" "se_sys (demo_senv ?S) = ?S"
    "sv_modules (demo_server (0::int)) = fpx_core_module # []" "pe_ok (sv_pool (demo_server (0::int))) = (\<lambda>_. True)"
    "pe_ok (re_pool (demo_env (0::int))) = (\<lambda>_. True)"
    by (simp_all add: is_file_def demo_senv_def one_file_sys_def s_is_def S_IFMT_def demo_server_def demo_env_def ok_pool_def)
  have 3: "file_holds (se_sys (demo_senv ?S)) (bytes ''/f'') (print_config demo_circle)"
    unfolding 2(2) by (rule one_file_holds) (simp add: print_config_def demo_circle_def include_words_def bytes_def)
  show ?thesis
    using fpx_config_self_include_diverges [OF 1(1,2) 2(1) 1(3) 3 2(5,4,3)] unfolding 2(2) by blast
qed

end
