(* ===== verification/Spec2Isabelle.thy ===== *)
theory Spec2Isabelle
  imports Fpx_List Fpx_Array Fpx_Pool Fpx_Utf8 Fpx_Sync Fpx_Connection Fpx_Win32 Fpx_Event Fpx_System Fpx_Sockopt Fpx_Winsync
    Fpx_Main Fpx_Iter Fpx_Walk Fpx_Logpipe Fpx_Settings Fpx_Include
begin

text \<open>
  Floppix, a modular network server in C: a verification of its own code under \<open>src/\<close>. The core is
  modelled in the Linux configuration that the build files select (POSIX calls, thread-safe pools
  without \<open>mmap\<close>, a logging thread); the variants of the system layer for other systems and the
  event back ends that the build leaves out have models beside those of the Linux code.

  \<^bold>\<open>The program.\<close> \<open>main\<close> reads the options and a configuration file into a list of directives,
  sets up the modules, and lets each directive be handled by the module whose command
  table names it. The core module handles \<open>include\<close>, \<open>import\<close>, \<open>listen\<close>, \<open>log\<close> and the
  settings; its initialisation binds and opens the listeners, gives up the rights of root, starts
  the logger and becomes a daemon. Below lie memory pools, intrusive lists, strings, files and
  sockets.

  \<^bold>\<open>The theories.\<close>

    \<^item> \<open>Fpx_Prelude\<close>: the C types, error codes, byte buffers with checked reads, and the lemmas
      that the others share.
    \<^item> \<open>Fpx_List\<close> (\<open>algo/list.c\<close>): nodes on an explicit heap. \<open>list_rep\<close> relates a heap to a list of
      addresses; adding and removing refine their counterparts on lists, and the locale
      \<open>node_list\<close> states what the rest of the program relies on. Insertion in the middle and sorting
      relink the nodes as they should and get the size wrong. Later theories use HOL lists on this ground.
    \<^item> \<open>Fpx_Iter\<close> (\<open>algo/list.h\<close>): the loops over such lists, whose bodies may append to the list or
      unlink the current node, and the loop that frees a list. They agree with loops over sequences.
    \<^item> \<open>Fpx_Array\<close> (\<open>algo/array.c\<close>): the bytes of the block; a second push writes over the first.
    \<^item> \<open>Fpx_String\<close> (\<open>util/string.c\<close>): number readers, lengths, comparisons, searches and copies. Reads
      outside a buffer give \<^const>\<open>None\<close>.
    \<^item> \<open>Fpx_Pool\<close> (\<open>system/pool.c\<close>, \<open>system/memory.c\<close>): pools with their slots, cleanup handlers,
      children and lock. Allocations are disjoint and inside live blocks; clearing a tree
      runs every handler once and resets every node. The theorems name the sizes and paths where the code goes wrong.
    \<^item> \<open>Fpx_Filesys\<close> (\<open>system/filesys.c\<close>, POSIX part) over a record of system calls \<open>sys\<close>.
    \<^item> \<open>Fpx_Utf8\<close> and \<open>Fpx_Win32\<close> (\<open>system/filesys.c\<close>, Windows part): the conversion of paths to UTF-16,
      and files, directories and patterns over a record \<open>win\<close> of calls: which entries a listing
      gives, and where the bounds fail.
    \<^item> \<open>Fpx_Parse\<close> (\<open>core/parse.c\<close>): sizes, addresses with ports, log levels.
    \<^item> \<open>Fpx_Config\<close> (\<open>core/command.c\<close>, the reader): the character loop against a line-wise reference
      lexer, the rejected texts, and that printed directives are read back.
    \<^item> \<open>Fpx_Module\<close> (\<open>core/module.c\<close>, the lookups of \<open>command.c\<close>).
    \<^item> \<open>Fpx_Command\<close> (\<open>core/command.c\<close>, the rest): reading and including files, checking and
      processing, handlers that store a value. The locale \<open>directive_handlers\<close> holds what is
      known of any set of handlers, \<open>typed_handlers\<close> what is known of those that only add
      well-formed directives.
    \<^item> \<open>Fpx_Walk\<close> relates the walk over the directives in \<open>Fpx_Command\<close>, by index over a sequence, to
      the loop over a list of nodes in \<open>Fpx_Iter\<close>: they agree although the list grows meanwhile.
    \<^item> \<open>Fpx_Log\<close> (\<open>core/log.c\<close>, the ring buffer): a step relation over callers, logging thread,
      semaphores and mutex. The locale \<open>invariant_system\<close> gives what holds in all reachable states
      from what each step keeps; it is interpreted for the runs of the logger, for its start and for the
      states in which the logging thread waits for itself. The locale \<open>simulation\<close> extends it by a
      view, under which the buffer is a queue of 32 messages.
    \<^item> \<open>Fpx_Errno\<close> (\<open>system/errno.c\<close>) and \<open>Fpx_Logger\<close> (\<open>core/log.c\<close>, the text of messages and the logs).
    \<^item> \<open>Fpx_Logpipe\<close> puts the two halves of \<open>core/log.c\<close> together: a second step relation runs the fill of a
      slot and the body of the thread on bytes along with the ring buffer. It interprets
      \<open>invariant_system\<close>: the logs get the lines of the messages in the order of their deposits.
    \<^item> \<open>Fpx_Sync\<close> (\<open>system/sync\<close>, \<open>system/thread.c\<close>, and the creation and end of a logger): what the
      error codes of the wrappers mean, and that a logger comes into being as a whole or not at all
      unless \<open>errno\<close> is zero, as the code relies on it after calls that do not set it.
    \<^item> \<open>Fpx_Winsync\<close> (the Windows and Grand Central Dispatch parts of the same files, and
      \<open>system/process.c\<close> on Windows): which objects are made and given back, and who owns a mutex.
    \<^item> \<open>Fpx_System\<close> (\<open>system/time.c\<close>, \<open>signal.c\<close>, \<open>cpuinfo.c\<close>, \<open>dso.c\<close>, \<open>net/sockaddr.c\<close>, the rest of
      \<open>memory.c\<close> and \<open>errno.c\<close>): the clock of Windows and the texts of its errors.
    \<^item> \<open>Fpx_Net\<close> (\<open>system/net/socket.c\<close>, \<open>sockopt.c\<close>, \<open>core/listen.c\<close>, \<open>core/connection.c\<close>): a trace
      records the sockets that are opened and closed.
    \<^item> \<open>Fpx_Sockopt\<close> (\<open>system/net/sockopt.c\<close>): the options of the other systems, and what all of them do
      to a socket.
    \<^item> \<open>Fpx_Event\<close> (\<open>system/event\<close>): the select, epoll and iocp back ends over a record of their calls and
      one of the event handlers, which the repository does not contain: the descriptors that are waited
      for, and the sockets of new connections. These files are older than the headers they would be built
      with, so nothing is claimed that rests on both, such as what the test for a listener gives.
    \<^item> \<open>Fpx_Connection\<close> (\<open>core/connection.c\<close>): connections with their pools.
    \<^item> \<open>Fpx_Server\<close> (\<open>core/server.c\<close>, \<open>system/process.c\<close>): the core module. It interprets
      \<open>typed_handlers\<close> for its own handlers: the directives stay well formed, and of the handlers
      other than that of \<open>include\<close> only \<open>listen\<close> gets stuck on an accepted one, for an address without a port.
    \<^item> \<open>Fpx_Settings\<close> composes \<open>Fpx_Config\<close>, \<open>Fpx_Command\<close> and \<open>Fpx_Server\<close>: from the text of a configuration
      file to the members of the server that its settings are stored in.
    \<^item> \<open>Fpx_Include\<close> does so for files that include themselves, whose processing never ends.
    \<^item> \<open>Fpx_Main\<close> (\<open>core/main.c\<close>, \<open>core/cycle.c\<close>): the accepted command lines, what holds when the event
      loop is entered, and what becomes of the logging thread of a daemon.

  \<^bold>\<open>Conventions.\<close> Functions carry the names of the C functions; a loop of a function is a function of
  its own. Errors are the codes of \<open>fpx_err_t\<close>. The result \<^const>\<open>None\<close> stands for behaviour that
  C leaves undefined (an access outside an object, an uninitialised variable, a store through
  NULL) or, for a \<open>partial_function\<close>, a loop that does not end. System calls, the dynamic
  loader, the success of allocations (\<open>penv\<close>) and the hooks and handlers of modules
  outside \<open>src/\<close> are parameters. Sizes and offsets are 64-bit words where they may wrap.
  No definition needs fuel: loops over data recurse on it, the walks over directives, directories
  and strings are partial functions, and termination is proved where the code has it.

  \<^bold>\<open>Not modelled.\<close> The text that the help and version options
  print; the texts that log calls print; the \<open>mmap\<close> variant of the pools; functions that only pass on the
  result of a single system call (the POSIX clock, the number of the current thread); the
  modules under \<open>modules/\<close> and the tests; code that the preprocessor never selects.
\<close>

end
